(* ===== verification/Prelude.thy ===== *)
theory Prelude
  imports Main "HOL-Library.Sublist" "HOL-Library.AList" "HOL-Library.Multiset"
    "HOL-Library.List_Lexorder" "HOL-Library.Char_ord"
begin

text \<open>
  The part of Go the library is written in: machine integers, decimal text, byte slices that
  may be nil, maps, error values with their wrapping tree, and durations. Every component
  theory imports it.

  \<^item> A Go \<open>string\<close> is its bytes, an Isabelle \<open>string\<close>; a \<open>[]byte\<close> that may be nil is a
    \<open>slice\<close>, with \<open>None\<close> for nil, so a nil slice and an empty one differ.
  \<^item> \<open>int\<close>, \<open>int32\<close> and \<open>int64\<close> are HOL \<open>int\<close>s; where the code does arithmetic that can
    overflow, the wrap-around is written out with \<open>wrap64\<close>.
  \<^item> A Go map is an association list with distinct keys (\<open>gomap\<close>). Go leaves the iteration
    order open, so statements quantify over every list that holds the same entries.
  \<^item> An \<open>error\<close> is a \<open>gerror\<close> tree: \<open>fmt.Errorf\<close> with its verbs is \<open>Errorf\<close> over segments,
    \<open>errors.Join\<close> is \<open>Join\<close>; \<open>errors.Is\<close> and \<open>errors.As\<close> walk the tree. A nil error is
    \<open>None\<close> of \<open>gerror option\<close>.
\<close>

named_theorems go_eval \<open>equations that evaluate the model on concrete inputs\<close>

section \<open>Integers, durations and times\<close>

type_synonym duration = int
type_synonym bytes = string
type_synonym slice = "bytes option"
type_synonym verb_fmt = "string \<Rightarrow> string \<Rightarrow> string"
type_synonym ('k, 'v) gomap = "('k \<times> 'v) list"

definition wrap64 :: "int \<Rightarrow> int" where
  "wrap64 x = (x + 2 ^ 63) mod 2 ^ 64 - 2 ^ 63"

definition is_int64 :: "int \<Rightarrow> bool" where
  "is_int64 x \<longleftrightarrow> - (2 ^ 63) \<le> x \<and> x < 2 ^ 63"

definition is_int32 :: "int \<Rightarrow> bool" where
  "is_int32 x \<longleftrightarrow> - (2 ^ 31) \<le> x \<and> x < 2 ^ 31"

text \<open>Go's integer division truncates towards zero.\<close>

definition go_div :: "int \<Rightarrow> int \<Rightarrow> int" where
  "go_div a b = sgn a * sgn b * (\<bar>a\<bar> div \<bar>b\<bar>)"

definition Millisecond :: duration where
  "Millisecond = 1000000"

definition Second :: duration where
  "Second = 1000000000"

text \<open>\<open>time.Time.Sub\<close> saturates at the ends of the \<open>Duration\<close> range.\<close>

definition time_sub :: "int \<Rightarrow> int \<Rightarrow> duration" where
  "time_sub t u = max (- (2 ^ 63)) (min (2 ^ 63 - 1) (t - u))"

section \<open>Decimal text: strconv\<close>

definition digit_char :: "nat \<Rightarrow> char" where
  "digit_char d = char_of (48 + d)"

fun nat_dec :: "nat \<Rightarrow> string" where
  "nat_dec n = (if n < 10 then [digit_char n] else nat_dec (n div 10) @ [digit_char (n mod 10)])"

text \<open>\<open>strconv.Itoa\<close>, \<open>strconv.FormatInt(_, 10)\<close> and \<open>strconv.AppendInt(nil, _, 10)\<close>.\<close>

definition itoa :: "int \<Rightarrow> string" where
  "itoa i = (if i < 0 then CHR ''-'' # nat_dec (nat (- i)) else nat_dec (nat i))"

definition digit_val :: "char \<Rightarrow> nat option" where
  "digit_val c = (let n = of_char c in if 48 \<le> n \<and> n \<le> (57::nat) then Some (n - 48) else None)"

fun parse_digits :: "nat \<Rightarrow> string \<Rightarrow> nat option" where
  "parse_digits acc [] = Some acc"
| "parse_digits acc (c # cs) =
     (case digit_val c of None \<Rightarrow> None | Some d \<Rightarrow> parse_digits (10 * acc + d) cs)"

definition parse_uint :: "string \<Rightarrow> nat option" where
  "parse_uint s = (if s = [] then None else parse_digits 0 s)"

text \<open>
  \<open>strconv.ParseInt(s, 10, bits)\<close>: an optional sign, at least one digit, and a value in the
  signed range of that width; a syntax or range error is \<open>None\<close>. \<open>strconv.Atoi\<close> is the
  64-bit case.
\<close>

definition parse_int :: "nat \<Rightarrow> string \<Rightarrow> int option" where
  "parse_int bits s =
     (case s of
        [] \<Rightarrow> None
      | c # cs \<Rightarrow>
          (let neg = (c = CHR ''-''); body = (if neg \<or> c = CHR ''+'' then cs else s)
           in case parse_uint body of
                None \<Rightarrow> None
              | Some n \<Rightarrow>
                  if \<not> neg \<and> n \<ge> 2 ^ (bits - 1) then None
                  else if neg \<and> n > 2 ^ (bits - 1) then None
                  else Some (if neg then - int n else int n)))"

definition atoi :: "string \<Rightarrow> int option" where
  "atoi s = parse_int 64 s"

section \<open>Maps\<close>

text \<open>\<open>m[k] = v\<close>; a key keeps its place and a new one goes last.\<close>

abbreviation map_set :: "'k \<Rightarrow> 'v \<Rightarrow> ('k, 'v) gomap \<Rightarrow> ('k, 'v) gomap" where
  "map_set \<equiv> AList.update"

definition wf_map :: "('k, 'v) gomap \<Rightarrow> bool" where
  "wf_map m \<longleftrightarrow> distinct (map fst m)"

section \<open>Errors\<close>

text \<open>
  The error values the library compares with \<open>errors.Is\<close>. The two context errors belong to
  the standard library.
\<close>

datatype sentinel =
    ErrPermanent | ErrUnspecified | ErrPartitionRevoked | ErrStrategyInUse
  | ErrClosed | ErrQueueFull | ErrDeliveryTimeout | ErrNotDelivered | ErrFatal
  | ErrEncode | ErrTopicNotFound
  | CtxCanceled | CtxDeadlineExceeded

text \<open>
  A \<open>kfk.Error\<close> of confluent-kafka-go, with what its methods return: \<open>Code()\<close>, \<open>IsFatal()\<close>,
  \<open>Error()\<close>, and \<open>Code().String()\<close>. The codes the library names are constructors.
\<close>

datatype kfk_code =
    KfkNoError | KfkState | KfkNoOffset | KfkTransport | KfkAllBrokersDown
  | KfkMsgTimedOut | KfkPurgeQueue | KfkPurgeInflight | KfkQueueFull | KfkFatal
  | KfkUnknownTopicOrPart | KfkOther int

record kfk_error =
  kfkCode :: kfk_code
  kfkIsFatal :: bool
  kfkText :: string
  kfkCodeName :: string

record KafkaError =
  Code :: string
  Message :: string
  Sentinel :: "sentinel option"
  Fatal :: bool
  Disconnected :: bool

record header =
  HKey :: string
  HValue :: slice

record DeliveryError =
  DETopic :: string
  DEPartition :: int
  DEKey :: slice
  DEValue :: slice
  DEHeaders :: "header list"
  DECode :: string
  DEErr :: "KafkaError option"

datatype gerror =
    SentinelErr sentinel
  | Plain string
  | KfkErr kfk_error
  | KafkaErr KafkaError
  | DeliveryErr DeliveryError
  | Errorf "seg list"
  | Join "gerror list"
and seg =
    Txt string
  | Fmt string string
  | W gerror

abbreviation Quoted :: "string \<Rightarrow> seg" where
  "Quoted s \<equiv> Fmt ''%q'' s"

text \<open>
  \<open>errors.Is\<close> against a sentinel: the error itself, or any error it wraps. A \<open>*KafkaError\<close>
  unwraps to its sentinel and a \<open>*DeliveryError\<close> to its cause.
\<close>

fun errors_Is :: "gerror \<Rightarrow> sentinel \<Rightarrow> bool"
  and seg_Is :: "seg \<Rightarrow> sentinel \<Rightarrow> bool" where
  "errors_Is (SentinelErr s) t = (s = t)"
| "errors_Is (Plain _) t = False"
| "errors_Is (KfkErr _) t = False"
| "errors_Is (KafkaErr k) t = (Sentinel k = Some t)"
| "errors_Is (DeliveryErr d) t =
     (case DEErr d of None \<Rightarrow> False | Some k \<Rightarrow> Sentinel k = Some t)"
| "errors_Is (Errorf segs) t = list_ex (\<lambda>s. seg_Is s t) segs"
| "errors_Is (Join es) t = list_ex (\<lambda>e. errors_Is e t) es"
| "seg_Is (Txt _) t = False"
| "seg_Is (Fmt _ _) t = False"
| "seg_Is (W e) t = errors_Is e t"

definition KafkaError_Unwrap :: "KafkaError \<Rightarrow> gerror option" where
  "KafkaError_Unwrap e = map_option SentinelErr (Sentinel e)"

definition DeliveryError_Unwrap :: "DeliveryError \<Rightarrow> gerror option" where
  "DeliveryError_Unwrap e = map_option KafkaErr (DEErr e)"

text \<open>\<open>errors.As\<close> for a \<open>kfk.Error\<close>: the first one in the tree, depth first.\<close>

fun first_some :: "'a option list \<Rightarrow> 'a option" where
  "first_some [] = None"
| "first_some (None # xs) = first_some xs"
| "first_some (Some x # xs) = Some x"

fun errors_As_kfk :: "gerror \<Rightarrow> kfk_error option"
  and seg_As_kfk :: "seg \<Rightarrow> kfk_error option" where
  "errors_As_kfk (KfkErr k) = Some k"
| "errors_As_kfk (Errorf segs) = first_some (map seg_As_kfk segs)"
| "errors_As_kfk (Join es) = first_some (map errors_As_kfk es)"
| "errors_As_kfk _ = None"
| "seg_As_kfk (W e) = errors_As_kfk e"
| "seg_As_kfk _ = None"

text \<open>
  The text of an error. A segment \<open>Fmt verb operand\<close> is an operand that \<open>fmt\<close> renders under
  a verb other than the plain text of a string or an integer: \<open>%q\<close>, which quotes by Unicode's
  tables of printable characters, a duration, a float or a type name. Its rendering is the
  argument \<open>quote\<close>; no property depends on it.
\<close>

fun sentinel_text :: "sentinel \<Rightarrow> string" where
  "sentinel_text ErrPermanent = ''permanent failure''"
| "sentinel_text ErrUnspecified = ''handler failed the message without an error''"
| "sentinel_text ErrPartitionRevoked = ''partition no longer assigned''"
| "sentinel_text ErrStrategyInUse =
     ''retry strategy is already in use by another consumer; give each consumer its own NewRetryStrategy''"
| "sentinel_text ErrClosed = ''publish: publisher is closed''"
| "sentinel_text ErrQueueFull = ''publish: local producer queue is full''"
| "sentinel_text ErrDeliveryTimeout = ''publish: not acknowledged within the delivery timeout''"
| "sentinel_text ErrNotDelivered = ''publish: purged before delivery was confirmed''"
| "sentinel_text ErrFatal = ''publish: producer failed fatally''"
| "sentinel_text ErrEncode = ''publish: encoding failed''"
| "sentinel_text ErrTopicNotFound = ''publish: topic not found''"
| "sentinel_text CtxCanceled = ''context canceled''"
| "sentinel_text CtxDeadlineExceeded = ''context deadline exceeded''"

definition KafkaError_Error :: "KafkaError \<Rightarrow> string" where
  "KafkaError_Error e =
     (let message = (if Message e = [] then Code e else Message e)
      in case Sentinel e of
           None \<Rightarrow> message
         | Some s \<Rightarrow> sentinel_text s @ '': '' @ message)"

definition DeliveryError_Error :: "DeliveryError \<Rightarrow> string" where
  "DeliveryError_Error e =
     (let partition = (if DEPartition e \<ge> 0 then ''partition '' @ itoa (DEPartition e)
                       else ''no partition'');
          cause = (case DEErr e of None \<Rightarrow> DECode e | Some k \<Rightarrow> KafkaError_Error k)
      in ''publish: record for '' @ DETopic e @ '' ('' @ partition @ '') not delivered: '' @ cause)"

fun join_lines :: "string list \<Rightarrow> string" where
  "join_lines [] = []"
| "join_lines [l] = l"
| "join_lines (l # ls) = l @ CHR 0x0A # join_lines ls"

fun error_text :: "verb_fmt \<Rightarrow> gerror \<Rightarrow> string"
  and seg_text :: "verb_fmt \<Rightarrow> seg \<Rightarrow> string" where
  "error_text quote (SentinelErr s) = sentinel_text s"
| "error_text quote (Plain t) = t"
| "error_text quote (KfkErr k) = kfkText k"
| "error_text quote (KafkaErr k) = KafkaError_Error k"
| "error_text quote (DeliveryErr d) = DeliveryError_Error d"
| "error_text quote (Errorf segs) = concat (map (seg_text quote) segs)"
| "error_text quote (Join es) = join_lines (map (error_text quote) es)"
| "seg_text quote (Txt t) = t"
| "seg_text quote (Fmt verb t) = quote verb t"
| "seg_text quote (W e) = error_text quote e"

text \<open>\<open>errors.Join\<close> of a slice (nil when it is empty), and of a possibly nil error and another.\<close>

definition errors_Join :: "gerror list \<Rightarrow> gerror option" where
  "errors_Join es = (if es = [] then None else Some (Join es))"

definition join_err :: "gerror option \<Rightarrow> gerror \<Rightarrow> gerror" where
  "join_err prev e = (case prev of None \<Rightarrow> Join [e] | Some p \<Rightarrow> Join [p, e])"

section \<open>Lemmas shared by the components\<close>

subsection \<open>Integers\<close>

lemma wrap64_id [simp]: "is_int64 x \<Longrightarrow> wrap64 x = x"
  by (simp add: wrap64_def is_int64_def)

lemma is_int64_wrap64 [simp]: "is_int64 (wrap64 x)"
  using pos_mod_bound [of "2 ^ 64" "x + 2 ^ 63"] pos_mod_sign [of "2 ^ 64" "x + 2 ^ 63"]
  by (simp add: wrap64_def is_int64_def)

lemma is_int32_int64: "is_int32 x \<Longrightarrow> is_int64 x"
  by (simp add: is_int32_def is_int64_def)

lemma go_div_nonneg: "0 \<le> a \<Longrightarrow> 0 < b \<Longrightarrow> go_div a b = a div b"
  by (cases "a = 0") (simp_all add: go_div_def)

subsection \<open>Decimal text\<close>

declare nat_dec.simps [simp del]

lemma digit_val_digit_char [simp]: "d < 10 \<Longrightarrow> digit_val (digit_char d) = Some d"
  by (simp add: digit_val_def digit_char_def of_char_of)

lemma parse_digits_append:
  "parse_digits acc (xs @ ys) =
     (case parse_digits acc xs of None \<Rightarrow> None | Some n \<Rightarrow> parse_digits n ys)"
  by (induction xs arbitrary: acc) (auto split: option.splits)

lemma parse_digits_nat_dec: "parse_digits 0 (nat_dec n) = Some n"
proof (induction n rule: nat_dec.induct)
  case (1 n)
  show ?case
  proof (cases "n < 10")
    case True
    then show ?thesis by (simp add: nat_dec.simps [of n])
  next
    case False
    with "1.IH" have "parse_digits 0 (nat_dec (n div 10)) = Some (n div 10)" by simp
    with False show ?thesis
      by (simp add: nat_dec.simps [of n] parse_digits_append)
  qed
qed

lemma nat_dec_not_Nil [simp]: "nat_dec n \<noteq> []"
  by (subst nat_dec.simps) simp

lemma digit_char_sign: "d < 10 \<Longrightarrow> digit_char d \<noteq> CHR ''-'' \<and> digit_char d \<noteq> CHR ''+''"
  by (auto simp: digit_char_def dest!: arg_cong [of _ _ "of_char :: char \<Rightarrow> nat"])

lemma hd_nat_dec_sign: "hd (nat_dec n) \<noteq> CHR ''-'' \<and> hd (nat_dec n) \<noteq> CHR ''+''"
proof (induction n rule: nat_dec.induct)
  case (1 n)
  then show ?case
    by (cases "n < 10") (simp_all add: nat_dec.simps [of n] digit_char_sign)
qed

lemma parse_uint_nat_dec [simp]: "parse_uint (nat_dec n) = Some n"
  by (simp add: parse_uint_def parse_digits_nat_dec)

lemma itoa_not_Nil [simp]: "itoa i \<noteq> []"
  by (simp add: itoa_def)

lemma parse_int_itoa:
  assumes "- (2 ^ (bits - 1)) \<le> i" and "i < 2 ^ (bits - 1)"
  shows "parse_int bits (itoa i) = Some i"
proof (cases "i < 0")
  case True
  then have "nat (- i) \<le> 2 ^ (bits - 1)" using assms by (simp add: nat_le_iff)
  with True show ?thesis by (simp add: parse_int_def itoa_def)
next
  case False
  then have le: "\<not> 2 ^ (bits - 1) \<le> nat i" using assms by (simp add: le_nat_iff)
  obtain c cs where cs: "nat_dec (nat i) = c # cs"
    by (cases "nat_dec (nat i)") simp_all
  with hd_nat_dec_sign [of "nat i"] have "c \<noteq> CHR ''-'' \<and> c \<noteq> CHR ''+''" by simp
  moreover have "parse_uint (c # cs) = Some (nat i)"
    using parse_uint_nat_dec [of "nat i"] by (simp only: cs)
  ultimately show ?thesis
    using False le by (simp add: parse_int_def itoa_def cs)
qed

lemma atoi_itoa: "is_int64 i \<Longrightarrow> atoi (itoa i) = Some i"
  by (simp add: atoi_def is_int64_def parse_int_itoa)

lemma parse_int_range:
  assumes "parse_int bits s = Some i"
  shows "- (2 ^ (bits - 1)) \<le> i \<and> i < 2 ^ (bits - 1)"
proof -
  have lt: "int n < 2 ^ (bits - 1)" if "n < 2 ^ (bits - 1)" for n
    using that by (metis of_nat_less_iff of_nat_numeral of_nat_power)
  have le: "int n \<le> 2 ^ (bits - 1)" if "n \<le> 2 ^ (bits - 1)" for n
    using that by (metis of_nat_le_iff of_nat_numeral of_nat_power)
  have neg: "- int n < 2 ^ (bits - 1)" and pos: "- (2 ^ (bits - 1)) \<le> int n" for n
    by (rule le_less_trans [of _ 0], simp_all) (rule order_trans [of _ 0], simp_all)
  show ?thesis
    using assms lt le neg pos
    by (auto simp: parse_int_def Let_def not_le not_less
        split: list.splits option.splits if_splits)
qed

lemma itoa_inject: "is_int64 i \<Longrightarrow> is_int64 j \<Longrightarrow> itoa i = itoa j \<Longrightarrow> i = j"
  using atoi_itoa by (metis option.inject)

subsection \<open>Maps\<close>

lemma wf_map_Nil [simp]: "wf_map []"
  by (simp add: wf_map_def)

lemma wf_map_set [simp]: "wf_map m \<Longrightarrow> wf_map (map_set k v m)"
  by (simp add: wf_map_def distinct_update)

lemma wf_map_filter: "wf_map m \<Longrightarrow> wf_map (filter P m)"
  by (induction m) (auto simp: wf_map_def)

lemma map_of_set: "map_of (map_set k v m) = (map_of m)(k \<mapsto> v)"
  by (simp add: update_conv')

lemma map_of_filter_key:
  "map_of (filter (\<lambda>(k, v). P k) m) k = (if P k then map_of m k else None)"
  by (induction m) auto

lemma find_Some_set: "find P xs = Some x \<Longrightarrow> x \<in> set xs \<and> P x"
  by (induction xs) (auto split: if_splits)

text \<open>A list of states each a step after the one before is a run to each of them.\<close>

lemma successively_runs:
  "successively R (s # ss) \<Longrightarrow> t \<in> set (s # ss) \<Longrightarrow> R\<^sup>*\<^sup>* s t"
proof (induction ss arbitrary: s)
  case (Cons u ss)
  then have "R s u" and "t = s \<or> R\<^sup>*\<^sup>* u t" by auto
  then show ?case by (auto intro: converse_rtranclp_into_rtranclp)
qed simp

subsection \<open>Errors\<close>

lemma errors_Is_wrap [simp]: "errors_Is (Errorf [Txt t, W e]) s = errors_Is e s"
  by simp

lemma errors_Join_None [simp]: "errors_Join es = None \<longleftrightarrow> es = []"
  by (simp add: errors_Join_def)

text \<open>The walk follows the two \<open>Unwrap\<close> methods.\<close>

lemma errors_Is_Unwrap:
  "errors_Is (KafkaErr k) t \<longleftrightarrow> (\<exists>e. KafkaError_Unwrap k = Some e \<and> errors_Is e t)"
  "errors_Is (DeliveryErr d) t \<longleftrightarrow> (\<exists>e. DeliveryError_Unwrap d = Some e \<and> errors_Is e t)"
  by (auto simp: KafkaError_Unwrap_def DeliveryError_Unwrap_def split: option.split)

lemma errors_Join_Is:
  "errors_Join es = Some e \<Longrightarrow> errors_Is e s \<longleftrightarrow> (\<exists>x\<in>set es. errors_Is x s)"
  by (auto simp: errors_Join_def list_ex_iff split: if_splits)

end
