(* ===== verification/Log_Codes.thy ===== *)
theory Log_Codes
  imports Prelude
begin

text \<open>
  The codes the library puts on its notable log lines (\<open>internal/logcode/logcode.go\<close>). Of a
  log line the model keeps its level and its code; the message text and the other fields are
  left out. The components emit these lines, so a property can say which line a branch logs.
\<close>

datatype logcode =
    RetryWriteFailed | DLQWriteFailed | DLQMaxAttempts | DLQPermanent | MessageSkipped
  | PollFatal | StoppedByStrategy | OffsetStoreFailed
  | HandlerPanic | FailureWithoutError
  | CommitFailed
  | BrokerDisconnected | BrokerReconnected | KafkaErrorCode | RebalanceFailed | ConsumerCloseFailed
  | PublishDeliveryFailed | PublishCallbackPanic | PublishUnmatchedReport | PublishBrokerDown
  | PublishBrokerRestored | PublishKafkaError | PublishFatal | PublishRecordsPurged

datatype level = Debug | Info | Warn | Error

type_synonym logline = "level \<times> logcode option"

text \<open>
  A logger is known by a number: nothing is asked of it but which one it is. The first is
  \<open>zerolog.Nop\<close>, the logger that writes nothing.
\<close>

type_synonym logger = nat

definition Nop :: logger where
  "Nop = 0"

text \<open>The name of the field that carries the code.\<close>

definition log_Field :: string where
  "log_Field = ''ek_code''"

fun code_string :: "logcode \<Rightarrow> string" where
  "code_string RetryWriteFailed = ''EK_RETRY_WRITE_FAILED''"
| "code_string DLQWriteFailed = ''EK_DLQ_WRITE_FAILED''"
| "code_string DLQMaxAttempts = ''EK_DLQ_MAX_ATTEMPTS''"
| "code_string DLQPermanent = ''EK_DLQ_PERMANENT''"
| "code_string MessageSkipped = ''EK_MESSAGE_SKIPPED''"
| "code_string PollFatal = ''EK_POLL_FATAL''"
| "code_string StoppedByStrategy = ''EK_STOPPED_BY_STRATEGY''"
| "code_string OffsetStoreFailed = ''EK_OFFSET_STORE_FAILED''"
| "code_string HandlerPanic = ''EK_HANDLER_PANIC''"
| "code_string FailureWithoutError = ''EK_FAILURE_WITHOUT_ERROR''"
| "code_string CommitFailed = ''EK_COMMIT_FAILED''"
| "code_string BrokerDisconnected = ''EK_BROKER_DISCONNECTED''"
| "code_string BrokerReconnected = ''EK_BROKER_RECONNECTED''"
| "code_string KafkaErrorCode = ''EK_KAFKA_ERROR''"
| "code_string RebalanceFailed = ''EK_REBALANCE_FAILED''"
| "code_string ConsumerCloseFailed = ''EK_CONSUMER_CLOSE_FAILED''"
| "code_string PublishDeliveryFailed = ''EK_PUBLISH_DELIVERY_FAILED''"
| "code_string PublishCallbackPanic = ''EK_PUBLISH_CALLBACK_PANIC''"
| "code_string PublishUnmatchedReport = ''EK_PUBLISH_UNMATCHED_REPORT''"
| "code_string PublishBrokerDown = ''EK_PUBLISH_BROKER_DOWN''"
| "code_string PublishBrokerRestored = ''EK_PUBLISH_BROKER_RESTORED''"
| "code_string PublishKafkaError = ''EK_PUBLISH_KAFKA_ERROR''"
| "code_string PublishFatal = ''EK_PUBLISH_FATAL''"
| "code_string PublishRecordsPurged = ''EK_PUBLISH_RECORDS_PURGED''"

lemma code_string_prefix: "prefix ''EK_'' (code_string c)"
  by (cases c) simp_all

lemma code_string_inject: "code_string c = code_string d \<Longrightarrow> c = d"
  by (cases c; cases d) simp_all

end
