(* ===== verification/Publish_Driver.thy ===== *)
theory Publish_Driver
  imports Complex_Main Log_Codes
begin

text \<open>
  The publish side's driver (\<open>internal/publish/publishdriver\<close>): the keys the publisher manages,
  the librdkafka configuration, the translation of confluent-kafka-go's errors and events, and
  the producer that guards its client handle.

  confluent-kafka-go is not part of the repository. Its producer client is a record of functions
  over an abstract client state \<open>'k\<close> (\<open>kfk_producer\<close>), its \<open>ConfigMap.SetKey\<close> an argument of
  \<open>ConfigMap\<close>. Each method of the driver holds the handle's read lock from its check of
  \<open>closed\<close> to the end of the call and \<open>Close\<close> sets \<open>closed\<close> under the write lock, so a method
  and \<open>Close\<close> happen one after the other: each is one function on the driver's state.
\<close>

section \<open>Configuration values\<close>

text \<open>
  What a caller can put into a Kafka config map. A \<open>float64\<close> is a rational number, an infinity or
  not a number; a value of any other type carries the type's name.
\<close>

datatype float64 = Fin rat | Inf bool | NaN

datatype goval =
    VInt int | VInt8 int | VInt16 int | VInt32 int | VInt64 int
  | VUint8 int | VUint16 int | VUint32 int
  | VFloat64 float64 | VString string | VBool bool
  | VOther string

type_synonym config_map = "(string, goval) gomap"

section \<open>Managed keys\<close>

definition managedKafkaKeys :: "(string, string) gomap" where
  "managedKafkaKeys =
     [(''bootstrap.servers'', ''managed by WithBrokers''),
      (''acks'', ''managed by WithAcksLeader; the default is acks=all''),
      (''request.required.acks'', ''managed by WithAcksLeader; the default is acks=all '' @
         ''(request.required.acks is another name for acks)''),
      (''enable.idempotence'', ''managed by the library: idempotence is on unless WithoutIdempotence or '' @
         ''WithAcksLeader is used''),
      (''enable.gapless.guarantee'', ''managed by the library and kept off: it turns a timed-out record into '' @
         ''a fatal error''),
      (''partitioner'', ''managed by WithPartitioner''),
      (''message.timeout.ms'', ''managed by WithDeliveryTimeout''),
      (''delivery.timeout.ms'',
         ''managed by WithDeliveryTimeout (delivery.timeout.ms is another name for message.timeout.ms)''),
      (''transactional.id'', ''not supported: the publisher does not use transactions''),
      (''default.topic.config'', ''not supported: it would bypass WithAcksLeader, WithPartitioner and '' @
         ''WithDeliveryTimeout'')]"

definition managedKafkaKeyPrefixes :: "(string \<times> string) list" where
  "managedKafkaKeyPrefixes =
     [(''go.'', ''managed by the library: confluent-kafka-go's own settings decide how delivery '' @
         ''reports reach the publisher''),
      (''{topic}.'', ''not supported: confluent-kafka-go moves it into default.topic.config, which would '' @
         ''bypass WithAcksLeader, WithPartitioner and WithDeliveryTimeout; set the property without the prefix'')]"

definition ManagedKeyReason :: "string \<Rightarrow> string option" where
  "ManagedKeyReason key =
     (case map_of managedKafkaKeys key of
        Some reason \<Rightarrow> Some reason
      | None \<Rightarrow> map_option snd (find (\<lambda>(p, reason). prefix p key) managedKafkaKeyPrefixes))"

section \<open>The librdkafka configuration\<close>

record driver_config =
  Brokers :: "string list"
  KafkaConfig :: config_map
  AcksLeader :: bool
  Idempotence :: bool
  CPartitioner :: string
  DeliveryTimeout :: duration

fun join_with :: "string \<Rightarrow> string list \<Rightarrow> string" where
  "join_with sep [] = []"
| "join_with sep [x] = x"
| "join_with sep (x # xs) = x @ sep @ join_with sep xs"

type_synonym set_key = "string \<Rightarrow> goval \<Rightarrow> config_map \<Rightarrow> gerror + config_map"

fun set_keys :: "set_key \<Rightarrow> (string \<Rightarrow> seg list) \<Rightarrow> (string \<times> goval) list \<Rightarrow> config_map \<Rightarrow> gerror + config_map" where
  "set_keys SetKey what [] m = Inr m"
| "set_keys SetKey what ((k, v) # kvs) m =
     (case SetKey k v m of
        Inl err \<Rightarrow> Inl (Errorf (what k @ [Txt '': '', W err]))
      | Inr m' \<Rightarrow> set_keys SetKey what kvs m')"

definition managed_settings :: "driver_config \<Rightarrow> (string \<times> goval) list" where
  "managed_settings config =
     [(''bootstrap.servers'', VString (join_with '','' (Brokers config))),
      (''acks'', VString (if AcksLeader config then ''1'' else ''all'')),
      (''enable.idempotence'', VBool (Idempotence config)),
      (''partitioner'', VString (CPartitioner config)),
      (''message.timeout.ms'', VInt (go_div (DeliveryTimeout config) Millisecond)),
      (''go.delivery.reports'', VBool True),
      (''go.delivery.report.fields'', VString ''none'')]"

definition ConfigMap :: "set_key \<Rightarrow> driver_config \<Rightarrow> gerror + config_map" where
  "ConfigMap SetKey config =
     (let what = (\<lambda>k. [Txt ''setting kafka config key '', Quoted k])
      in case set_keys SetKey what (KafkaConfig config) [] of
           Inl err \<Rightarrow> Inl err
         | Inr m \<Rightarrow> set_keys SetKey what (managed_settings config) m)"

section \<open>Records, reports and translated errors\<close>

record record_t =
  RTopic :: string
  RKey :: slice
  RValue :: slice
  RHeaders :: "header list"

text \<open>A token is any Go value; the publisher's tokens are its deliveries, named by number.\<close>

datatype token = DeliveryToken nat | ForeignToken string

record report =
  Token :: token
  RepPartition :: int
  RepOffset :: int
  RepErr :: "KafkaError option"

datatype event = Report report | ClientError KafkaError

definition TranslateError :: "verb_fmt \<Rightarrow> gerror \<Rightarrow> KafkaError" where
  "TranslateError quote err =
     (case errors_As_kfk err of
        None \<Rightarrow> \<lparr>Code = [], Message = error_text quote err, Sentinel = None, Fatal = False,
                 Disconnected = False\<rparr>
      | Some k \<Rightarrow>
          (let code = kfkCode k; fatal = (kfkIsFatal k \<or> code = KfkFatal)
           in \<lparr>Code = kfkCodeName k, Message = kfkText k,
               Sentinel =
                 (if code = KfkMsgTimedOut then Some ErrDeliveryTimeout
                  else if code = KfkPurgeQueue \<or> code = KfkPurgeInflight then Some ErrNotDelivered
                  else if code = KfkQueueFull then Some ErrQueueFull
                  else if fatal then Some ErrFatal
                  else None),
               Fatal = fatal,
               Disconnected = (code = KfkAllBrokersDown \<or> code = KfkTransport)\<rparr>))"

text \<open>A \<open>kfk.Event\<close>: a message with its opaque token, an error, or anything else.\<close>

record kfk_message =
  kmTopic :: "string option"
  kmPartition :: int
  kmOffset :: int
  kmError :: "gerror option"
  kmKey :: slice
  kmValue :: slice
  kmHeaders :: "header list"
  kmTimestamp :: int
  kmOpaque :: token

datatype kfk_event =
    KMessage kfk_message
  | KError kfk_error
  | KOffsetsCommitted "gerror option" nat
  | KOtherEvent

definition TranslateEvent :: "verb_fmt \<Rightarrow> kfk_event \<Rightarrow> event option" where
  "TranslateEvent quote ev =
     (case ev of
        KMessage m \<Rightarrow>
          Some (Report \<lparr>Token = kmOpaque m, RepPartition = kmPartition m, RepOffset = kmOffset m,
                        RepErr = map_option (TranslateError quote) (kmError m)\<rparr>)
      | KError e \<Rightarrow> Some (ClientError (TranslateError quote (KfkErr e)))
      | _ \<Rightarrow> None)"

text \<open>What the driver's goroutine forwards onto \<open>Reports\<close>, in order.\<close>

definition translate :: "verb_fmt \<Rightarrow> kfk_event list \<Rightarrow> event list" where
  "translate quote evs = List.map_filter (TranslateEvent quote) evs"

section \<open>The producer\<close>

record topic_description =
  tdName :: string
  tdError :: kfk_error
  tdPartitions :: nat

record 'k kfk_producer =
  kp_Produce :: "kfk_message \<Rightarrow> 'k \<Rightarrow> gerror option \<times> 'k"
  kp_Flush :: "int \<Rightarrow> 'k \<Rightarrow> int \<times> 'k"
  kp_Purge :: "'k \<Rightarrow> gerror option \<times> 'k"
  kp_Len :: "'k \<Rightarrow> int"
  kp_DescribeCluster :: "duration \<Rightarrow> 'k \<Rightarrow> gerror option \<times> 'k"
  kp_DescribeTopics :: "duration \<Rightarrow> string list \<Rightarrow> 'k \<Rightarrow> (gerror + topic_description list) \<times> 'k"
  kp_Close :: "'k \<Rightarrow> 'k"

record 'k producer =
  handle :: 'k
  pclosed :: bool

definition PartitionAny :: int where
  "PartitionAny = -1"

definition kfk_message_of :: "record_t \<Rightarrow> token \<Rightarrow> kfk_message" where
  "kfk_message_of r tok =
     \<lparr>kmTopic = Some (RTopic r), kmPartition = PartitionAny, kmOffset = 0, kmError = None,
      kmKey = RKey r, kmValue = RValue r, kmHeaders = RHeaders r, kmTimestamp = 0, kmOpaque = tok\<rparr>"

definition Produce ::
  "'k kfk_producer \<Rightarrow> verb_fmt \<Rightarrow> record_t \<Rightarrow> token \<Rightarrow> 'k producer
     \<Rightarrow> gerror option \<times> 'k producer" where
  "Produce K quote r tok p =
     (if pclosed p then (Some (SentinelErr ErrClosed), p)
      else let (err, h) = kp_Produce K (kfk_message_of r tok) (handle p)
           in (map_option (\<lambda>e. KafkaErr (TranslateError quote e)) err, p\<lparr>handle := h\<rparr>))"

definition producer_Flush :: "'k kfk_producer \<Rightarrow> duration \<Rightarrow> 'k producer \<Rightarrow> int \<times> 'k producer" where
  "producer_Flush K timeout p =
     (if pclosed p then (0, p)
      else let (n, h) = kp_Flush K (go_div timeout Millisecond) (handle p)
           in (n, p\<lparr>handle := h\<rparr>))"

definition Purge ::
  "'k kfk_producer \<Rightarrow> verb_fmt \<Rightarrow> 'k producer \<Rightarrow> gerror option \<times> 'k producer" where
  "Purge K quote p =
     (if pclosed p then (Some (SentinelErr ErrClosed), p)
      else let (err, h) = kp_Purge K (handle p)
           in (map_option (\<lambda>e. KafkaErr (TranslateError quote e)) err, p\<lparr>handle := h\<rparr>))"

definition producer_Len :: "'k kfk_producer \<Rightarrow> 'k producer \<Rightarrow> int" where
  "producer_Len K p = (if pclosed p then 0 else kp_Len K (handle p))"

definition describeError :: "verb_fmt \<Rightarrow> gerror \<Rightarrow> gerror" where
  "describeError quote err =
     (if errors_Is err CtxDeadlineExceeded \<or> errors_Is err CtxCanceled then err
      else KafkaErr (TranslateError quote err))"

fun collect_topics ::
  "verb_fmt \<Rightarrow> topic_description list \<Rightarrow> (string, int) gomap \<Rightarrow> gerror list
     \<Rightarrow> (string, int) gomap \<times> gerror list" where
  "collect_topics quote [] parts fails = (parts, fails)"
| "collect_topics quote (d # ds) parts fails =
     (case kfkCode (tdError d) of
        KfkNoError \<Rightarrow>
          collect_topics quote ds (map_set (tdName d) (int (tdPartitions d)) parts) fails
      | KfkUnknownTopicOrPart \<Rightarrow> collect_topics quote ds parts fails
      | _ \<Rightarrow> collect_topics quote ds parts
               (fails @ [Errorf [Txt ''topic '', Quoted (tdName d), Txt '': '',
                  W (KafkaErr (TranslateError quote (KfkErr (tdError d))))]]))"

text \<open>\<open>limit\<close> is the time the context of the request leaves it.\<close>

definition TopicPartitions ::
  "'k kfk_producer \<Rightarrow> verb_fmt \<Rightarrow> duration \<Rightarrow> string list \<Rightarrow> 'k producer
     \<Rightarrow> (gerror + (string, int) gomap) \<times> 'k producer" where
  "TopicPartitions K quote limit topics p =
     (if pclosed p then (Inl (SentinelErr ErrClosed), p)
      else if topics = [] then
        (case kp_DescribeCluster K limit (handle p) of
           (Some err, h) \<Rightarrow>
             (Inl (Errorf [Txt ''describing the cluster: '', W (describeError quote err)]), p\<lparr>handle := h\<rparr>)
         | (None, h) \<Rightarrow> (Inr [], p\<lparr>handle := h\<rparr>))
      else
        (case kp_DescribeTopics K limit topics (handle p) of
           (Inl err, h) \<Rightarrow>
             (Inl (Errorf [Txt ''describing topics: '', W (describeError quote err)]), p\<lparr>handle := h\<rparr>)
         | (Inr ds, h) \<Rightarrow>
             (case collect_topics quote ds [] [] of
                (parts, []) \<Rightarrow> (Inr parts, p\<lparr>handle := h\<rparr>)
              | (parts, fails) \<Rightarrow> (Inl (Join fails), p\<lparr>handle := h\<rparr>))))"

definition producer_Close :: "'k kfk_producer \<Rightarrow> 'k producer \<Rightarrow> 'k producer" where
  "producer_Close K p =
     (if pclosed p then p else p\<lparr>pclosed := True, handle := kp_Close K (handle p)\<rparr>)"

text \<open>
  \<open>New\<close>. \<open>newClient\<close> is \<open>kfk.NewProducer\<close> and \<open>newAdmin\<close> is \<open>NewAdminClientFromProducer\<close>, which leaves
  the client as it is; the client of a failed attempt is closed and dropped.
\<close>

definition New_producer ::
  "set_key \<Rightarrow> (config_map \<Rightarrow> gerror + 'k) \<Rightarrow> ('k \<Rightarrow> gerror option) \<Rightarrow> driver_config \<Rightarrow> gerror + 'k producer" where
  "New_producer SetKey newClient newAdmin config =
     (case ConfigMap SetKey config of
        Inl err \<Rightarrow> Inl err
      | Inr m \<Rightarrow>
          (case newClient m of
             Inl err \<Rightarrow> Inl (Errorf [Txt ''creating kafka producer: '', W err])
           | Inr k \<Rightarrow>
               (case newAdmin k of
                  Some err \<Rightarrow> Inl (Errorf [Txt ''creating the metadata client: '', W err])
                | None \<Rightarrow> Inr \<lparr>handle = k, pclosed = False\<rparr>)))"

text \<open>
  The documented behaviour of \<open>SetKey\<close>: a key without the \<open>{topic}.\<close> prefix is stored under
  itself, replacing an earlier value.
\<close>

definition SetKey_stores :: "set_key \<Rightarrow> bool" where
  "SetKey_stores SetKey \<longleftrightarrow>
     (\<forall>k v m. \<not> prefix ''{topic}.'' k \<longrightarrow> SetKey k v m = Inr (map_set k v m))"

section \<open>The interface the publisher writes through\<close>

text \<open>
  What the publisher relies on of the \<open>Producer\<close> it writes to: once shut it takes no record and
  says \<open>ErrClosed\<close>, only shutting shuts it, and its errors are \<open>ErrClosed\<close> or translated client
  errors.
\<close>

locale producer_iface =
  fixes produce :: "record_t \<Rightarrow> token \<Rightarrow> 'w \<Rightarrow> gerror option \<times> 'w"
    and shut :: "'w \<Rightarrow> 'w"
    and is_shut :: "'w \<Rightarrow> bool"
  assumes shut_refuses: "is_shut w \<Longrightarrow> produce r t w = (Some (SentinelErr ErrClosed), w)"
    and shut_shuts: "is_shut (shut w)"
    and produce_keeps: "is_shut (snd (produce r t w)) = is_shut w"
    and produce_error:
      "produce r t w = (Some e, w') \<Longrightarrow> e = SentinelErr ErrClosed \<or> (\<exists>k. e = KafkaErr k)"

section \<open>Lemmas\<close>

lemma map_of_managedKafkaKeys_None:
  "ManagedKeyReason key = None \<Longrightarrow> map_of managedKafkaKeys key = None"
  by (simp add: ManagedKeyReason_def split: option.splits)

lemma ManagedKeyReason_None:
  "ManagedKeyReason key = None \<longleftrightarrow>
     key \<notin> fst ` set managedKafkaKeys \<and> \<not> prefix ''go.'' key \<and> \<not> prefix ''{topic}.'' key"
  by (simp add: ManagedKeyReason_def managedKafkaKeyPrefixes_def map_of_eq_None_iff [symmetric]
      split: option.split)

lemma managed_settings_keys:
  "map fst (managed_settings config) =
     [''bootstrap.servers'', ''acks'', ''enable.idempotence'', ''partitioner'', ''message.timeout.ms'',
      ''go.delivery.reports'', ''go.delivery.report.fields'']"
  by (simp add: managed_settings_def)

text \<open>Every key the driver sets itself is one a caller's config may not hold.\<close>

lemma managed_keys_found:
  "ManagedKeyReason ''bootstrap.servers'' \<noteq> None" "ManagedKeyReason ''acks'' \<noteq> None"
  "ManagedKeyReason ''enable.idempotence'' \<noteq> None" "ManagedKeyReason ''partitioner'' \<noteq> None"
  "ManagedKeyReason ''message.timeout.ms'' \<noteq> None" "ManagedKeyReason ''go.delivery.reports'' \<noteq> None"
  "ManagedKeyReason ''go.delivery.report.fields'' \<noteq> None"
  by (simp_all add: ManagedKeyReason_def managedKafkaKeys_def managedKafkaKeyPrefixes_def)

lemma managed_settings_managed:
  "k \<in> fst ` set (managed_settings config) \<Longrightarrow> ManagedKeyReason k \<noteq> None"
  using managed_keys_found unfolding set_map [symmetric] managed_settings_keys
  by (simp only: list.set insert_iff empty_iff) metis

lemma set_keys_stores:
  assumes "SetKey_stores SetKey" and "\<forall>k\<in>fst ` set kvs. \<not> prefix ''{topic}.'' k"
  shows "set_keys SetKey what kvs m = Inr (fold (\<lambda>(k, v). map_set k v) kvs m)"
  using assms(2)
proof (induction kvs arbitrary: m)
  case Nil
  then show ?case by simp
next
  case (Cons kv kvs)
  obtain k v where kv: "kv = (k, v)" by fastforce
  with Cons.prems have "\<not> prefix ''{topic}.'' k" by simp
  with assms(1) have "SetKey k v m = Inr (map_set k v m)" by (simp add: SetKey_stores_def)
  with Cons kv show ?case by simp
qed

lemma map_of_fold_set:
  "map_of (fold (\<lambda>(k, v). map_set k v) kvs m) = map_of m ++ map_of (rev kvs)"
  by (induction kvs arbitrary: m) (auto simp: map_of_set fun_eq_iff map_add_def split: option.splits)

lemma wf_fold_set: "wf_map m \<Longrightarrow> wf_map (fold (\<lambda>(k, v). map_set k v) kvs m)"
  by (induction kvs arbitrary: m) auto

lemma map_of_rev_wf: "wf_map m \<Longrightarrow> map_of (rev m) = map_of m"
  by (rule map_of_eqI) (auto simp: wf_map_def map_of_eq_Some_iff rev_map [symmetric])

lemma wf_managed_settings: "wf_map (managed_settings config)"
  unfolding wf_map_def managed_settings_keys by simp

lemma managed_settings_no_topic: "\<forall>k\<in>fst ` set (managed_settings config). \<not> prefix ''{topic}.'' k"
  unfolding set_map [symmetric] managed_settings_keys by simp

lemma ConfigMap_result:
  assumes "SetKey_stores SetKey" and "wf_map (KafkaConfig config)"
    and "\<forall>k\<in>fst ` set (KafkaConfig config). \<not> prefix ''{topic}.'' k"
  shows "\<exists>m. ConfigMap SetKey config = Inr m \<and> wf_map m
    \<and> map_of m = map_of (KafkaConfig config) ++ map_of (managed_settings config)"
  by (simp add: ConfigMap_def set_keys_stores [OF assms(1,3)]
      set_keys_stores [OF assms(1) managed_settings_no_topic] wf_fold_set map_of_fold_set
      map_of_rev_wf assms(2) wf_managed_settings)

lemma closed_untouched:
  assumes "pclosed p"
  shows "Produce K q r tok p = (Some (SentinelErr ErrClosed), p)" and "producer_Flush K t p = (0, p)"
    and "Purge K q p = (Some (SentinelErr ErrClosed), p)" and "producer_Len K p = 0"
    and "TopicPartitions K q limit ts p = (Inl (SentinelErr ErrClosed), p)" and "producer_Close K p = p"
  using assms
  by (simp_all add: Produce_def producer_Flush_def Purge_def producer_Len_def TopicPartitions_def
      producer_Close_def)

interpretation driver: producer_iface "Produce K quote" "producer_Close K" pclosed for K quote
proof unfold_locales
  fix w :: "'a producer" and r t e w'
  show "pclosed w \<Longrightarrow> Produce K quote r t w = (Some (SentinelErr ErrClosed), w)"
    by (simp add: Produce_def)
  show "pclosed (producer_Close K w)" by (simp add: producer_Close_def)
  show "pclosed (snd (Produce K quote r t w)) = pclosed w"
    by (simp add: Produce_def split: prod.split)
  show "Produce K quote r t w = (Some e, w') \<Longrightarrow> e = SentinelErr ErrClosed \<or> (\<exists>k. e = KafkaErr k)"
    by (auto simp: Produce_def split: if_splits prod.splits)
qed

lemma map_of_collect_topics:
  "collect_topics quote ds parts fails = (parts', fails') \<Longrightarrow>
     (t \<in> dom (map_of parts') \<longleftrightarrow>
        t \<in> dom (map_of parts) \<or> (\<exists>d\<in>set ds. tdName d = t \<and> kfkCode (tdError d) = KfkNoError))"
proof (induction quote ds parts fails rule: collect_topics.induct)
  case (1 quote parts fails)
  then show ?case by simp
next
  case (2 quote d ds parts fails)
  then show ?case
    by (cases "kfkCode (tdError d)") (auto simp: map_of_set split: if_splits)
qed

end
