(* ===== verification/Publish_Options.thy ===== *)
theory Publish_Options
  imports Publish_Driver
begin

text \<open>
  The publisher's options (\<open>publish/options.go\<close>), partitioners (\<open>publish/partitioner.go\<close>),
  topics (\<open>publish/topic.go\<close>) and encoders (\<open>publish/codec.go\<close>). An option is a function on the
  configuration that may fail; a nil argument is \<open>None\<close>. A callback is a function that says
  whether the call panics (\<open>True\<close>). A producer factory is known by a number, like a logger; what the
  numbers stand for is an argument of \<open>New\<close>, and 0 is the driver's own \<open>publishdriver.New\<close>.
\<close>

section \<open>Configuration\<close>

type_synonym factory = nat

definition default_factory :: factory where
  "default_factory = 0"

record config =
  brokers :: "string list"
  kafkaConfig :: config_map
  idempotence :: bool
  acksLeader :: bool
  partitioner :: string
  deliveryTimeout :: duration
  onDeliveryError :: "(DeliveryError \<Rightarrow> bool) option"
  onFatal :: "(gerror \<Rightarrow> bool) option"
  cLogger :: logger
  cNewProducer :: factory

type_synonym option_fn = "config \<Rightarrow> gerror + config"

definition defaultDeliveryTimeout :: duration where
  "defaultDeliveryTimeout = 30 * Second"

definition maxInFlightWithIdempotence :: int where
  "maxInFlightWithIdempotence = 5"

section \<open>Partitioners\<close>

definition partitioners :: "string list" where
  "partitioners = [''consistent_random'', ''murmur2_random'', ''murmur2'', ''consistent'',
     ''random'', ''fnv1a'', ''fnv1a_random'']"

definition PartitionerDefault :: string where
  "PartitionerDefault = ''consistent_random''"

definition partitioner_valid :: "string \<Rightarrow> bool" where
  "partitioner_valid p \<longleftrightarrow> p \<in> set partitioners"

section \<open>Options\<close>

definition defaultConfig :: config where
  "defaultConfig =
     \<lparr>brokers = [], kafkaConfig = [], idempotence = True, acksLeader = False,
      partitioner = PartitionerDefault, deliveryTimeout = defaultDeliveryTimeout,
      onDeliveryError = None, onFatal = None, cLogger = Nop, cNewProducer = default_factory\<rparr>"

definition driverConfig :: "config \<Rightarrow> driver_config" where
  "driverConfig c =
     \<lparr>Brokers = brokers c, KafkaConfig = kafkaConfig c, AcksLeader = acksLeader c,
      Idempotence = idempotence c, CPartitioner = partitioner c,
      DeliveryTimeout = deliveryTimeout c\<rparr>"

text \<open>
  \<open>int64(f)\<close> of a float: exact for a whole number in range. Outside the range Go leaves the
  value to the implementation, which is the argument \<open>conv\<close>.
\<close>

definition float_int64 :: "(float64 \<Rightarrow> int) \<Rightarrow> float64 \<Rightarrow> int" where
  "float_int64 conv f =
     (case f of
        Fin q \<Rightarrow> if is_int64 \<lfloor>q\<rfloor> \<and> of_int \<lfloor>q\<rfloor> = q then \<lfloor>q\<rfloor> else conv f
      | _ \<Rightarrow> conv f)"

text \<open>\<open>value != math.Trunc(value)\<close>: NaN differs from itself, an infinity equals its \<open>Trunc\<close>.\<close>

definition not_whole :: "float64 \<Rightarrow> bool" where
  "not_whole f = (case f of Fin q \<Rightarrow> of_int \<lfloor>q\<rfloor> \<noteq> q | Inf _ \<Rightarrow> False | NaN \<Rightarrow> True)"

fun integerValue :: "(float64 \<Rightarrow> int) \<Rightarrow> goval \<Rightarrow> gerror + int" where
  "integerValue conv (VInt i) = Inr i"
| "integerValue conv (VInt8 i) = Inr i"
| "integerValue conv (VInt16 i) = Inr i"
| "integerValue conv (VInt32 i) = Inr i"
| "integerValue conv (VInt64 i) = Inr i"
| "integerValue conv (VUint8 i) = Inr i"
| "integerValue conv (VUint16 i) = Inr i"
| "integerValue conv (VUint32 i) = Inr i"
| "integerValue conv (VFloat64 f) =
     (if not_whole f then Inl (Errorf [Txt ''must be a whole number, got '', Fmt ''%v'' []])
      else Inr (float_int64 conv f))"
| "integerValue conv (VString s) =
     (case parse_int 64 s of
        None \<Rightarrow> Inl (Errorf [Txt ''must be a number, got '', Quoted s])
      | Some i \<Rightarrow> Inr i)"
| "integerValue conv (VBool b) = Inl (Errorf [Txt ''must be a number, got '', Fmt ''%T'' ''bool''])"
| "integerValue conv (VOther ty) = Inl (Errorf [Txt ''must be a number, got '', Fmt ''%T'' ty])"

definition max_in_flight_key :: string where
  "max_in_flight_key = ''max.in.flight.requests.per.connection''"

definition checkInFlightForIdempotence :: "(float64 \<Rightarrow> int) \<Rightarrow> config \<Rightarrow> gerror option" where
  "checkInFlightForIdempotence conv c =
     (case map_of (kafkaConfig c) max_in_flight_key of
        None \<Rightarrow> None
      | Some raw \<Rightarrow>
          (case integerValue conv raw of
             Inl err \<Rightarrow>
               Some (Errorf [Txt ''kafka config key '', Quoted max_in_flight_key, Txt '': '', W err])
           | Inr inFlight \<Rightarrow>
               if inFlight > maxInFlightWithIdempotence
               then Some (Plain (max_in_flight_key @ '' must be at most 5 while idempotence is on '' @
                      ''(the default); librdkafka would refuse to start''))
               else None))"

definition config_validate :: "(float64 \<Rightarrow> int) \<Rightarrow> config \<Rightarrow> gerror option" where
  "config_validate conv c =
     (if length (brokers c) = 0
      then Some (Plain ''at least one broker must be provided with WithBrokers'')
      else if idempotence c then checkInFlightForIdempotence conv c else None)"

definition WithBrokers :: "string list \<Rightarrow> option_fn" where
  "WithBrokers bs c =
     (if length bs = 0 then Inl (Plain ''at least one broker must be provided'')
      else if [] \<in> set bs then Inl (Plain ''broker address cannot be empty'')
      else Inr (c\<lparr>brokers := bs\<rparr>))"

definition rejected_keys :: "config_map \<Rightarrow> gerror list" where
  "rejected_keys m =
     List.map_filter
       (\<lambda>key. map_option
          (\<lambda>reason. Errorf [Txt ''kafka config key '', Quoted key, Txt '' cannot be set: '', Txt reason])
          (ManagedKeyReason key))
       (sort (map fst m))"

definition WithKafkaConfig :: "config_map option \<Rightarrow> option_fn" where
  "WithKafkaConfig kc c =
     (case kc of
        None \<Rightarrow> Inl (Plain ''kafka config cannot be nil'')
      | Some m \<Rightarrow>
          (let rejected = rejected_keys m
           in if length rejected > 0 then Inl (Join rejected)
              else Inr (c\<lparr>kafkaConfig := m\<rparr>)))"

definition WithoutIdempotence :: option_fn where
  "WithoutIdempotence c = Inr (c\<lparr>idempotence := False\<rparr>)"

definition WithAcksLeader :: option_fn where
  "WithAcksLeader c = Inr (c\<lparr>acksLeader := True, idempotence := False\<rparr>)"

definition WithPartitioner :: "string \<Rightarrow> option_fn" where
  "WithPartitioner p c =
     (if \<not> partitioner_valid p
      then Inl (Errorf [Txt ''unknown partitioner '', Quoted p, Txt ''; valid values are '',
                  Txt (join_with '', '' partitioners)])
      else Inr (c\<lparr>partitioner := p\<rparr>))"

definition WithDeliveryTimeout :: "duration \<Rightarrow> option_fn" where
  "WithDeliveryTimeout t c =
     (if t < Millisecond
      then Inl (Errorf [Txt ''delivery timeout must be at least 1ms, got '', Fmt ''%s'' (itoa t)])
      else if go_div t Millisecond > 2 ^ 31 - 1
      then Inl (Errorf [Txt ''delivery timeout must be at most '',
                  Fmt ''%s'' (itoa ((2 ^ 31 - 1) * Millisecond)), Txt '', got '', Fmt ''%s'' (itoa t)])
      else Inr (c\<lparr>deliveryTimeout := t\<rparr>))"

definition WithDeliveryErrorFunc :: "(DeliveryError \<Rightarrow> bool) option \<Rightarrow> option_fn" where
  "WithDeliveryErrorFunc onError c =
     (case onError of
        None \<Rightarrow> Inl (Plain ''delivery error func cannot be nil'')
      | Some fn \<Rightarrow> Inr (c\<lparr>onDeliveryError := Some fn\<rparr>))"

definition WithFatalHandler :: "(gerror \<Rightarrow> bool) option \<Rightarrow> option_fn" where
  "WithFatalHandler h c =
     (case h of
        None \<Rightarrow> Inl (Plain ''fatal handler cannot be nil'')
      | Some fn \<Rightarrow> Inr (c\<lparr>onFatal := Some fn\<rparr>))"

definition WithLogger :: "logger \<Rightarrow> option_fn" where
  "WithLogger l c = Inr (c\<lparr>cLogger := l\<rparr>)"

definition WithProducerFactory :: "factory option \<Rightarrow> option_fn" where
  "WithProducerFactory f c =
     (case f of
        None \<Rightarrow> Inl (Plain ''producer factory cannot be nil'')
      | Some g \<Rightarrow> Inr (c\<lparr>cNewProducer := g\<rparr>))"

text \<open>\<open>New\<close> up to the producer: the options in order, then the combinations.\<close>

fun apply_options :: "option_fn option list \<Rightarrow> config \<Rightarrow> gerror + config" where
  "apply_options [] c = Inr c"
| "apply_options (None # os) c = Inl (Plain ''option cannot be nil'')"
| "apply_options (Some o1 # os) c =
     (case o1 c of Inl err \<Rightarrow> Inl err | Inr c' \<Rightarrow> apply_options os c')"

definition build_config :: "(float64 \<Rightarrow> int) \<Rightarrow> option_fn option list \<Rightarrow> gerror + config" where
  "build_config conv os =
     (case apply_options os defaultConfig of
        Inl err \<Rightarrow> Inl err
      | Inr built \<Rightarrow> (case config_validate conv built of Some err \<Rightarrow> Inl err | None \<Rightarrow> Inr built))"

section \<open>Encoders\<close>

definition StringKey :: "string \<Rightarrow> gerror + slice" where
  "StringKey key = (if key = [] then Inr (Some []) else Inr (Some key))"

definition BytesKey :: "slice \<Rightarrow> gerror + slice" where
  "BytesKey key = Inr key"

definition Int64Key :: "int \<Rightarrow> gerror + slice" where
  "Int64Key key = Inr (Some (itoa key))"

text \<open>\<open>json.Marshal\<close> is the argument \<open>marshal\<close>, \<open>ty\<close> the type's name.\<close>

definition JSONValue :: "('v \<Rightarrow> gerror + bytes) \<Rightarrow> string \<Rightarrow> 'v \<Rightarrow> gerror + slice" where
  "JSONValue marshal ty v =
     (case marshal v of
        Inl err \<Rightarrow> Inl (Errorf [Txt ''encoding '', Fmt ''%T'' ty, Txt '' as JSON: '', W err])
      | Inr b \<Rightarrow> Inr (Some b))"

definition RawValue :: "slice \<Rightarrow> gerror + slice" where
  "RawValue v =
     (case v of
        None \<Rightarrow> Inl (Plain (''nil value: a nil value is a tombstone, '' @
                         ''write it with Delete or SendDelete''))
      | Some _ \<Rightarrow> Inr v)"

section \<open>Topics\<close>

text \<open>An encoder field of a \<open>Topic\<close> that was left nil is \<open>None\<close>.\<close>

record ('key, 'val) topic =
  Name :: string
  EncodeKey :: "('key \<Rightarrow> gerror + slice) option"
  EncodeValue :: "('val \<Rightarrow> gerror + slice) option"
  THeaders :: "header list"

definition topic_validate :: "('key, 'val) topic \<Rightarrow> gerror option" where
  "topic_validate t =
     (let problems =
        (if Name t = [] then [Plain ''the Name field is required''] else [])
        @ (if EncodeKey t = None then [Plain ''the EncodeKey field is required''] else [])
        @ (if EncodeValue t = None then [Plain ''the EncodeValue field is required''] else [])
      in if length problems = 0 then None
         else Some (Errorf [Txt ''publish: invalid topic '', Quoted (Name t), Txt '': '', W (Join problems)]))"

section \<open>Configurations \<open>New\<close> accepts\<close>

definition config_inv :: "config \<Rightarrow> bool" where
  "config_inv c \<longleftrightarrow>
     (\<forall>k\<in>fst ` set (kafkaConfig c). ManagedKeyReason k = None)
     \<and> partitioner_valid (partitioner c)
     \<and> Millisecond \<le> deliveryTimeout c \<and> deliveryTimeout c div Millisecond < 2 ^ 31
     \<and> [] \<notin> set (brokers c)
     \<and> (acksLeader c \<longrightarrow> \<not> idempotence c)"

datatype pub_option =
    OBrokers "string list" | OKafkaConfig "config_map option" | OWithoutIdempotence | OAcksLeader
  | OPartitioner string | ODeliveryTimeout duration
  | ODeliveryErrorFunc "(DeliveryError \<Rightarrow> bool) option" | OFatalHandler "(gerror \<Rightarrow> bool) option"
  | OLogger logger | OProducerFactory "factory option"

fun option_of :: "pub_option \<Rightarrow> option_fn" where
  "option_of (OBrokers bs) = WithBrokers bs"
| "option_of (OKafkaConfig m) = WithKafkaConfig m"
| "option_of OWithoutIdempotence = WithoutIdempotence"
| "option_of OAcksLeader = WithAcksLeader"
| "option_of (OPartitioner p) = WithPartitioner p"
| "option_of (ODeliveryTimeout t) = WithDeliveryTimeout t"
| "option_of (ODeliveryErrorFunc f) = WithDeliveryErrorFunc f"
| "option_of (OFatalHandler h) = WithFatalHandler h"
| "option_of (OLogger l) = WithLogger l"
| "option_of (OProducerFactory f) = WithProducerFactory f"

lemmas option_defs =
  WithBrokers_def WithKafkaConfig_def WithoutIdempotence_def WithAcksLeader_def WithPartitioner_def
  WithDeliveryTimeout_def WithDeliveryErrorFunc_def WithFatalHandler_def WithLogger_def WithProducerFactory_def

section \<open>Lemmas\<close>

lemma map_filter_Nil_iff: "List.map_filter f xs = [] \<longleftrightarrow> (\<forall>x\<in>set xs. f x = None)"
  by (induction xs) (auto simp: List.map_filter_def)

lemma rejected_keys_Nil: "rejected_keys m = [] \<longleftrightarrow> (\<forall>k\<in>fst ` set m. ManagedKeyReason k = None)"
  by (simp add: rejected_keys_def map_filter_Nil_iff)

lemma WithKafkaConfig_ok:
  "WithKafkaConfig (Some m) c = Inr c' \<longleftrightarrow>
     (\<forall>k\<in>fst ` set m. ManagedKeyReason k = None) \<and> c' = c\<lparr>kafkaConfig := m\<rparr>"
  by (auto simp: WithKafkaConfig_def Let_def rejected_keys_Nil)

lemma config_inv_default: "config_inv defaultConfig"
  by (simp add: config_inv_def defaultConfig_def partitioner_valid_def partitioners_def
      PartitionerDefault_def defaultDeliveryTimeout_def Second_def Millisecond_def)

lemma option_config_inv:
  assumes "config_inv c" and "option_of opt c = Inr c'"
  shows "config_inv c'"
proof (cases opt)
  case (OKafkaConfig m)
  with assms show ?thesis
    by (cases m) (auto simp: config_inv_def WithKafkaConfig_ok WithKafkaConfig_def [of None])
next
  case (ODeliveryTimeout t)
  with assms have "Millisecond \<le> t" "go_div t Millisecond \<le> 2 ^ 31 - 1" "c' = c\<lparr>deliveryTimeout := t\<rparr>"
    by (auto simp: WithDeliveryTimeout_def split: if_splits)
  with assms(1) show ?thesis
    by (simp add: config_inv_def Millisecond_def go_div_nonneg)
qed (use assms in \<open>auto simp: config_inv_def option_defs split: if_splits option.splits\<close>)

lemma apply_options_inv:
  "config_inv c \<Longrightarrow> apply_options (map (Some \<circ> option_of) opts) c = Inr c' \<Longrightarrow> config_inv c'"
proof (induction opts arbitrary: c)
  case Nil
  then show ?case by simp
next
  case (Cons opt opts)
  then show ?case by (auto split: sum.splits dest: option_config_inv)
qed

end
