(* ===== verification/Publisher.thy ===== *)
theory Publisher
  imports Publish_Options
begin

text \<open>
  The publisher (\<open>publish/publisher.go\<close>), its deliveries (\<open>publish/delivery.go\<close>) and its writers
  (\<open>publish/writer.go\<close>).

  A \<open>*Delivery\<close> is a number, its place in the list \<open>deliveries\<close> of every delivery created, and is
  the token handed to the producer. The driver's \<open>Producer\<close> interface is a record of functions
  over a state \<open>'w\<close> (\<open>producer_ops\<close>). The publisher's log lines and its calls of the two
  callbacks are recorded in the order the report goroutine makes them.

  Only the report goroutine touches the connection flags and resolves deliveries; \<open>enqueue\<close> and
  \<open>Close\<close> exclude each other by the lifecycle lock. So each operation is one function on the
  state, and \<open>pub_step\<close> interleaves them: senders, the driver's reports, the report goroutine
  and the stages of one \<open>Close\<close>.
\<close>

section \<open>Deliveries\<close>

record result =
  ResTopic :: string
  ResPartition :: int
  ResOffset :: int

definition no_result :: result where
  "no_result = \<lparr>ResTopic = [], ResPartition = 0, ResOffset = 0\<rparr>"

record delivery =
  d_record :: record_t
  d_done :: bool
  d_result :: result
  d_err :: "gerror option"

definition newDelivery :: "record_t \<Rightarrow> delivery" where
  "newDelivery r = \<lparr>d_record = r, d_done = False, d_result = no_result, d_err = None\<rparr>"

text \<open>Closing a closed channel panics: \<open>None\<close>.\<close>

definition resolve :: "result \<Rightarrow> gerror option \<Rightarrow> delivery \<Rightarrow> delivery option" where
  "resolve res err d =
     (if d_done d then None else Some (d\<lparr>d_result := res, d_err := err, d_done := True\<rparr>))"

definition resolved :: "delivery \<Rightarrow> bool" where
  "resolved d = d_done d"

text \<open>The channel \<open>Done\<close> returns, known by whether it is closed.\<close>

definition delivery_Done :: "delivery \<Rightarrow> bool" where
  "delivery_Done d = d_done d"

text \<open>
  What ends a \<open>Wait\<close> that has to block: the delivery, as it then is, or the context with its
  error. An outcome already known is returned whatever the context says.
\<close>

datatype wait_end = DeliveryDone delivery | CtxEnded sentinel

definition Wait :: "delivery \<Rightarrow> wait_end \<Rightarrow> result \<times> gerror option" where
  "Wait d w =
     (if resolved d then (d_result d, d_err d)
      else case w of
             DeliveryDone d' \<Rightarrow> (d_result d', d_err d')
           | CtxEnded e \<Rightarrow> (no_result, Some (SentinelErr e)))"

text \<open>Each delivery with what ends its wait, and \<open>ctx.Err()\<close> as it is after that wait.\<close>

fun wait_all :: "(delivery \<times> wait_end \<times> sentinel option) list \<Rightarrow> gerror list \<Rightarrow> gerror list" where
  "wait_all [] failures = failures"
| "wait_all ((d, w, ctxErr) # ds) failures =
     (case snd (Wait d w) of
        None \<Rightarrow> wait_all ds failures
      | Some err \<Rightarrow>
          (case ctxErr of
             Some c \<Rightarrow> if errors_Is err c then failures @ [err] else wait_all ds (failures @ [err])
           | None \<Rightarrow> wait_all ds (failures @ [err])))"

definition WaitAll :: "(delivery \<times> wait_end \<times> sentinel option) list \<Rightarrow> gerror option" where
  "WaitAll ds = errors_Join (wait_all ds [])"

section \<open>The publisher\<close>

record publisher =
  pconfig :: config
  closed :: bool
  closeErr :: "gerror option"
  fatal :: "gerror option"
  topics :: "string list"
  brokerDown :: bool
  suppressed :: int
  deliveries :: "delivery list"
  plog :: "logline list"
  errorCalls :: "DeliveryError list"
  fatalCalls :: "gerror list"

record 'w producer_ops =
  po_Produce :: "record_t \<Rightarrow> token \<Rightarrow> 'w \<Rightarrow> gerror option \<times> 'w"
  po_Flush :: "duration \<Rightarrow> 'w \<Rightarrow> int \<times> 'w"
  po_Purge :: "'w \<Rightarrow> gerror option \<times> 'w"
  po_Len :: "'w \<Rightarrow> int"
  po_TopicPartitions :: "duration \<Rightarrow> string list \<Rightarrow> 'w \<Rightarrow> (gerror + (string, int) gomap) \<times> 'w"
  po_Close :: "'w \<Rightarrow> 'w"
  po_Reports :: "'w \<Rightarrow> event list"

definition new_publisher :: "config \<Rightarrow> publisher" where
  "new_publisher built =
     \<lparr>pconfig = built, closed = False, closeErr = None, fatal = None, topics = [], brokerDown = False,
      suppressed = 0, deliveries = [], plog = [], errorCalls = [], fatalCalls = []\<rparr>"

text \<open>\<open>New\<close>: options, validation, then the factory, whose error is wrapped.\<close>

definition New ::
  "(float64 \<Rightarrow> int) \<Rightarrow> (factory \<Rightarrow> driver_config \<Rightarrow> gerror + 'w) \<Rightarrow> option_fn option list
     \<Rightarrow> gerror + publisher \<times> 'w" where
  "New conv newProducer options =
     (case build_config conv options of
        Inl err \<Rightarrow> Inl err
      | Inr built \<Rightarrow>
          (case newProducer (cNewProducer built) (driverConfig built) of
             Inl err \<Rightarrow> Inl (Errorf [Txt ''publish: creating the producer: '', W err])
           | Inr w \<Rightarrow> Inr (new_publisher built, w)))"

definition add_log :: "level \<Rightarrow> logcode option \<Rightarrow> publisher \<Rightarrow> publisher" where
  "add_log l c p = p\<lparr>plog := plog p @ [(l, c)]\<rparr>"

definition enqueue_err :: "record_t \<Rightarrow> gerror \<Rightarrow> gerror" where
  "enqueue_err r e =
     Errorf [Txt ''publish: record for '', Txt (RTopic r), Txt '' not enqueued: '', W e]"

text \<open>
  \<open>enqueue\<close> up to its call of \<open>Produce\<close>: the checks, and the new delivery by its number. The read lock
  is held from here to the end; a fatal error may still be recorded between the check and the call.
\<close>

definition enqueue_begin :: "record_t \<Rightarrow> publisher \<Rightarrow> gerror + nat \<times> publisher" where
  "enqueue_begin r p =
     (if closed p then Inl (SentinelErr ErrClosed)
      else case fatal p of
             Some e \<Rightarrow> Inl (enqueue_err r e)
           | None \<Rightarrow> Inr (length (deliveries p), p\<lparr>deliveries := deliveries p @ [newDelivery r]\<rparr>))"

definition enqueue ::
  "(record_t \<Rightarrow> token \<Rightarrow> 'w \<Rightarrow> gerror option \<times> 'w) \<Rightarrow> record_t \<Rightarrow> publisher \<Rightarrow> 'w
     \<Rightarrow> (gerror + nat) \<times> publisher \<times> 'w" where
  "enqueue produce r p w =
     (case enqueue_begin r p of
        Inl err \<Rightarrow> (Inl err, p, w)
      | Inr (i, p') \<Rightarrow>
          (case produce r (DeliveryToken i) w of
             (Some err, w') \<Rightarrow> (Inl (enqueue_err r err), p', w')
           | (None, w') \<Rightarrow> (Inr i, p', w')))"

definition newDeliveryError :: "record_t \<Rightarrow> report \<Rightarrow> KafkaError \<Rightarrow> DeliveryError" where
  "newDeliveryError r rep err =
     \<lparr>DETopic = RTopic r, DEPartition = RepPartition rep, DEKey = RKey r, DEValue = RValue r,
      DEHeaders = RHeaders r, DECode = Code err, DEErr = Some err\<rparr>"

definition invokeDeliveryErrorFunc :: "DeliveryError \<Rightarrow> publisher \<Rightarrow> publisher" where
  "invokeDeliveryErrorFunc de p =
     (case onDeliveryError (pconfig p) of
        None \<Rightarrow> p
      | Some fn \<Rightarrow>
          (let p' = p\<lparr>errorCalls := errorCalls p @ [de]\<rparr>
           in if fn de then add_log Error (Some PublishCallbackPanic) p' else p'))"

definition noteConnected :: "publisher \<Rightarrow> publisher" where
  "noteConnected p =
     (if \<not> brokerDown p then p
      else (add_log Info (Some PublishBrokerRestored) p)\<lparr>brokerDown := False, suppressed := 0\<rparr>)"

definition logUnmatchedReport :: "publisher \<Rightarrow> publisher" where
  "logUnmatchedReport p = add_log Error (Some PublishUnmatchedReport) p"

text \<open>
  \<open>settle\<close>. \<open>None\<close> is a panic of the report goroutine, from closing \<open>done\<close> twice. A number that
  names no delivery cannot be a \<open>*Delivery\<close> and counts as a foreign token.
\<close>

definition settle :: "report \<Rightarrow> publisher \<Rightarrow> publisher option" where
  "settle rep p =
     (case Token rep of
        ForeignToken _ \<Rightarrow> Some (logUnmatchedReport p)
      | DeliveryToken i \<Rightarrow>
          if i \<ge> length (deliveries p) then Some (logUnmatchedReport p)
          else
            (let d = deliveries p ! i
             in if resolved d then Some (logUnmatchedReport p)
                else
                  (let res = \<lparr>ResTopic = RTopic (d_record d), ResPartition = RepPartition rep,
                              ResOffset = RepOffset rep\<rparr>
                   in case RepErr rep of
                        None \<Rightarrow>
                          (let p' = noteConnected p
                           in map_option (\<lambda>d'. p'\<lparr>deliveries := (deliveries p')[i := d']\<rparr>)
                                (resolve res None d))
                      | Some err \<Rightarrow>
                          (let de = newDeliveryError (d_record d) rep err;
                               p' = add_log Error (Some PublishDeliveryFailed) p;
                               p'' = invokeDeliveryErrorFunc de p'
                           in map_option (\<lambda>d'. p''\<lparr>deliveries := (deliveries p'')[i := d']\<rparr>)
                                (resolve res (Some (DeliveryErr de)) d)))))"

definition invokeFatalHandler :: "gerror \<Rightarrow> publisher \<Rightarrow> publisher" where
  "invokeFatalHandler err p =
     (case onFatal (pconfig p) of
        None \<Rightarrow> p
      | Some fn \<Rightarrow>
          (let p' = p\<lparr>fatalCalls := fatalCalls p @ [err]\<rparr>
           in if fn err then add_log Error (Some PublishCallbackPanic) p' else p'))"

definition noteFatal :: "KafkaError \<Rightarrow> publisher \<Rightarrow> publisher" where
  "noteFatal k p =
     (let err = (if errors_Is (KafkaErr k) ErrFatal then KafkaErr k
                 else Errorf [W (SentinelErr ErrFatal), Txt '': '', W (KafkaErr k)])
      in case fatal p of
           Some _ \<Rightarrow> add_log Debug None p
         | None \<Rightarrow>
             invokeFatalHandler err (add_log Error (Some PublishFatal) (p\<lparr>fatal := Some err\<rparr>)))"

definition noteClientError :: "KafkaError \<Rightarrow> publisher \<Rightarrow> publisher" where
  "noteClientError k p =
     (if Fatal k then noteFatal k p
      else if Disconnected k then
        (if brokerDown p then add_log Debug None (p\<lparr>suppressed := wrap64 (suppressed p + 1)\<rparr>)
         else add_log Warn (Some PublishBrokerDown) (p\<lparr>brokerDown := True\<rparr>))
      else add_log Warn (Some PublishKafkaError) p)"

fun handle_event :: "event \<Rightarrow> publisher \<Rightarrow> publisher option" where
  "handle_event (Report rep) p = settle rep p"
| "handle_event (ClientError k) p = Some (noteClientError k p)"

fun readReports :: "event list \<Rightarrow> publisher \<Rightarrow> publisher option" where
  "readReports [] p = Some p"
| "readReports (ev # evs) p =
     (case handle_event ev p of None \<Rightarrow> None | Some p' \<Rightarrow> readReports evs p')"

definition publisher_Err :: "publisher \<Rightarrow> gerror option" where
  "publisher_Err p = fatal p"

section \<open>Topics and writers\<close>

record ('key, 'val) writer =
  wName :: string
  wEncodeKey :: "'key \<Rightarrow> gerror + slice"
  wEncodeValue :: "'val \<Rightarrow> gerror + slice"
  wHeaders :: "header list"

text \<open>\<open>Inl\<close> is the panic on an invalid topic.\<close>

definition Bind ::
  "('key, 'val) topic \<Rightarrow> publisher \<Rightarrow> gerror + ('key, 'val) writer \<times> publisher" where
  "Bind t p =
     (case topic_validate t of
        Some err \<Rightarrow> Inl err
      | None \<Rightarrow>
          Inr (\<lparr>wName = Name t, wEncodeKey = the (EncodeKey t), wEncodeValue = the (EncodeValue t),
                wHeaders = THeaders t\<rparr>,
               (if Name t \<in> set (topics p) then p else p\<lparr>topics := topics p @ [Name t]\<rparr>)))"

fun quoted_list :: "string list \<Rightarrow> seg list" where
  "quoted_list [] = []"
| "quoted_list [t] = [Quoted t]"
| "quoted_list (t # ts) = Quoted t # Txt '', '' # quoted_list ts"

definition defaultPingTimeout :: duration where
  "defaultPingTimeout = 5 * Second"

text \<open>\<open>deadline\<close> is the time left to the deadline of the caller's context, if it has one.\<close>

definition Ping ::
  "(duration \<Rightarrow> string list \<Rightarrow> 'w \<Rightarrow> (gerror + (string, int) gomap) \<times> 'w) \<Rightarrow> duration option \<Rightarrow> publisher \<Rightarrow> 'w
     \<Rightarrow> gerror option \<times> 'w" where
  "Ping topicPartitions deadline p w =
     (case publisher_Err p of
        Some err \<Rightarrow> (Some (Errorf [Txt ''publish: ping: '', W err]), w)
      | None \<Rightarrow>
          (case topicPartitions (case deadline of None \<Rightarrow> defaultPingTimeout | Some d \<Rightarrow> d) (topics p) w of
             (Inl err, w') \<Rightarrow> (Some (Errorf [Txt ''publish: ping: '', W err]), w')
           | (Inr parts, w') \<Rightarrow>
               (let missing = filter (\<lambda>t. map_of parts t = None) (topics p)
                in if length missing > 0
                   then (Some (Errorf ([W (SentinelErr ErrTopicNotFound), Txt '': ''] @ quoted_list missing)), w')
                   else (None, w'))))"

definition writer_Topic :: "('key, 'val) writer \<Rightarrow> string" where
  "writer_Topic wr = wName wr"

definition writer_record :: "('key, 'val) writer \<Rightarrow> slice \<Rightarrow> slice \<Rightarrow> header list \<Rightarrow> record_t" where
  "writer_record wr key val headers =
     \<lparr>RTopic = wName wr, RKey = key, RValue = val, RHeaders = wHeaders wr @ headers\<rparr>"

definition Send ::
  "(record_t \<Rightarrow> token \<Rightarrow> 'w \<Rightarrow> gerror option \<times> 'w) \<Rightarrow> ('key, 'val) writer \<Rightarrow> 'key \<Rightarrow> 'val
     \<Rightarrow> header list \<Rightarrow> publisher \<Rightarrow> 'w \<Rightarrow> (gerror + nat) \<times> publisher \<times> 'w" where
  "Send produce wr key val headers p w =
     (case wEncodeKey wr key of
        Inl err \<Rightarrow>
          (Inl (Errorf [W (SentinelErr ErrEncode), Txt '': key for '', Txt (wName wr), Txt '': '', W err]), p, w)
      | Inr encodedKey \<Rightarrow>
          (case wEncodeValue wr val of
             Inl err \<Rightarrow>
               (Inl (Errorf [W (SentinelErr ErrEncode), Txt '': value for '', Txt (wName wr), Txt '': '',
                  W err]), p, w)
           | Inr None \<Rightarrow>
               (Inl (Errorf [W (SentinelErr ErrEncode), Txt '': value for '', Txt (wName wr),
                  Txt '' encoded to nil; use SendDelete for a tombstone'']), p, w)
           | Inr (Some encodedValue) \<Rightarrow>
               enqueue produce (writer_record wr encodedKey (Some encodedValue) headers) p w))"

definition SendDelete ::
  "(record_t \<Rightarrow> token \<Rightarrow> 'w \<Rightarrow> gerror option \<times> 'w) \<Rightarrow> ('key, 'val) writer \<Rightarrow> 'key
     \<Rightarrow> header list \<Rightarrow> publisher \<Rightarrow> 'w \<Rightarrow> (gerror + nat) \<times> publisher \<times> 'w" where
  "SendDelete produce wr key headers p w =
     (case wEncodeKey wr key of
        Inl err \<Rightarrow>
          (Inl (Errorf [W (SentinelErr ErrEncode), Txt '': key for '', Txt (wName wr), Txt '': '', W err]), p, w)
      | Inr encodedKey \<Rightarrow> enqueue produce (writer_record wr encodedKey None headers) p w)"

text \<open>\<open>Publish\<close> and \<open>Delete\<close> send, then wait; \<open>we\<close> ends the wait.\<close>

definition after_send ::
  "wait_end \<Rightarrow> (gerror + nat) \<times> publisher \<times> 'w \<Rightarrow> gerror option \<times> publisher \<times> 'w" where
  "after_send we res =
     (case res of
        (Inl err, p, w) \<Rightarrow> (Some err, p, w)
      | (Inr i, p, w) \<Rightarrow> (snd (Wait (deliveries p ! i) we), p, w))"

definition Publish ::
  "(record_t \<Rightarrow> token \<Rightarrow> 'w \<Rightarrow> gerror option \<times> 'w) \<Rightarrow> ('key, 'val) writer \<Rightarrow> wait_end \<Rightarrow> 'key
     \<Rightarrow> 'val \<Rightarrow> header list \<Rightarrow> publisher \<Rightarrow> 'w \<Rightarrow> gerror option \<times> publisher \<times> 'w" where
  "Publish produce wr we key val headers p w = after_send we (Send produce wr key val headers p w)"

definition Delete ::
  "(record_t \<Rightarrow> token \<Rightarrow> 'w \<Rightarrow> gerror option \<times> 'w) \<Rightarrow> ('key, 'val) writer \<Rightarrow> wait_end \<Rightarrow> 'key
     \<Rightarrow> header list \<Rightarrow> publisher \<Rightarrow> 'w \<Rightarrow> gerror option \<times> publisher \<times> 'w" where
  "Delete produce wr we key headers p w = after_send we (SendDelete produce wr key headers p w)"

section \<open>Closing\<close>

definition drainFlushTimeout :: duration where
  "drainFlushTimeout = 100 * Millisecond"

definition purgeReportTimeout :: duration where
  "purgeReportTimeout = Second"

text \<open>\<open>Close\<close>'s context: \<open>ctx.Err()\<close>, and \<open>time.Until\<close> of its deadline if it has one.\<close>

record 'w close_ctx =
  ctx_Err :: "'w \<Rightarrow> gerror option"
  time_left :: "'w \<Rightarrow> duration option"

fun drain_loop ::
  "nat \<Rightarrow> 'w producer_ops \<Rightarrow> 'w close_ctx \<Rightarrow> int \<Rightarrow> 'w \<Rightarrow> (int \<times> 'w) option" where
  "drain_loop 0 P C remaining w = None"
| "drain_loop (Suc fuel) P C remaining w =
     (if remaining > 0 \<and> ctx_Err C w = None
      then let tmo = (case time_left C w of None \<Rightarrow> drainFlushTimeout
                      | Some left \<Rightarrow> min drainFlushTimeout left);
               (r, w') = po_Flush P tmo w
           in drain_loop fuel P C r w'
      else Some (remaining, w))"

definition drain :: "nat \<Rightarrow> 'w producer_ops \<Rightarrow> 'w close_ctx \<Rightarrow> 'w \<Rightarrow> (int \<times> 'w) option" where
  "drain fuel P C w = drain_loop fuel P C (po_Len P w) w"

definition purge_remaining ::
  "'w producer_ops \<Rightarrow> publisher \<Rightarrow> 'w \<Rightarrow> publisher \<times> 'w" where
  "purge_remaining P p w =
     (let p2 = add_log Error (Some PublishRecordsPurged) p;
          (perr, w2) = po_Purge P w;
          p3 = (if perr = None then p2 else add_log Error None p2);
          (_, w3) = po_Flush P purgeReportTimeout w2
      in (p3, w3))"

definition close_failures :: "int \<Rightarrow> gerror option \<Rightarrow> gerror list" where
  "close_failures remaining fatalErr =
     (if remaining > 0
      then [Errorf [W (SentinelErr ErrNotDelivered), Txt '': '', Txt (itoa remaining), Txt '' record(s)'']]
      else [])
     @ (case fatalErr of None \<Rightarrow> [] | Some e \<Rightarrow> [e])"

text \<open>
  \<open>Close\<close>. A second call waits for the first and returns its error. \<open>po_Reports\<close> is what the
  report goroutine still reads from the events channel until the producer's \<open>Close\<close> has closed
  it; \<open>Close\<close> waits until all of it is settled. \<open>None\<close> is a drain that ran out of fuel, or a
  panic of the report goroutine.
\<close>

definition publisher_Close ::
  "nat \<Rightarrow> 'w producer_ops \<Rightarrow> 'w close_ctx \<Rightarrow> publisher \<Rightarrow> 'w
     \<Rightarrow> (gerror option \<times> publisher \<times> 'w) option" where
  "publisher_Close fuel P C p w =
     (if closed p then Some (closeErr p, p, w)
      else
        (case drain fuel P C w of
           None \<Rightarrow> None
         | Some (remaining, w1) \<Rightarrow>
             (let p1 = p\<lparr>closed := True\<rparr>;
                  (p2, w2) = (if remaining > 0 then purge_remaining P p1 w1 else (p1, w1));
                  w3 = po_Close P w2
              in case readReports (po_Reports P w3) p2 of
                   None \<Rightarrow> None
                 | Some p3 \<Rightarrow>
                     (let err = errors_Join (close_failures remaining (fatal p3))
                      in Some (err, p3\<lparr>closeErr := err\<rparr>, w3)))))"

section \<open>Lemmas\<close>

lemmas enqueue_defs = enqueue_def enqueue_begin_def

lemmas publisher_frame_defs =
  add_log_def noteConnected_def invokeDeliveryErrorFunc_def invokeFatalHandler_def
  logUnmatchedReport_def

subsection \<open>What an operation leaves alone\<close>

lemma frame [simp]:
  "deliveries (add_log l c p) = deliveries p" "fatal (add_log l c p) = fatal p"
  "closed (add_log l c p) = closed p" "errorCalls (add_log l c p) = errorCalls p"
  "pconfig (add_log l c p) = pconfig p" "plog (add_log l c p) = plog p @ [(l, c)]"
  "deliveries (noteConnected p) = deliveries p" "fatal (noteConnected p) = fatal p"
  "closed (noteConnected p) = closed p" "errorCalls (noteConnected p) = errorCalls p"
  "pconfig (noteConnected p) = pconfig p"
  "deliveries (invokeDeliveryErrorFunc de p) = deliveries p"
  "fatal (invokeDeliveryErrorFunc de p) = fatal p" "closed (invokeDeliveryErrorFunc de p) = closed p"
  "pconfig (invokeDeliveryErrorFunc de p) = pconfig p"
  "deliveries (invokeFatalHandler e p) = deliveries p" "fatal (invokeFatalHandler e p) = fatal p"
  "closed (invokeFatalHandler e p) = closed p" "pconfig (invokeFatalHandler e p) = pconfig p"
  "errorCalls (invokeFatalHandler e p) = errorCalls p"
  "deliveries (logUnmatchedReport p) = deliveries p" "fatal (logUnmatchedReport p) = fatal p"
  "closed (logUnmatchedReport p) = closed p" "pconfig (logUnmatchedReport p) = pconfig p"
  "errorCalls (logUnmatchedReport p) = errorCalls p"
  by (simp_all add: publisher_frame_defs Let_def split: option.split)

lemma noteClientError_frame [simp]:
  "deliveries (noteClientError k p) = deliveries p" "closed (noteClientError k p) = closed p"
  "pconfig (noteClientError k p) = pconfig p" "errorCalls (noteClientError k p) = errorCalls p"
  by (simp_all add: noteClientError_def noteFatal_def Let_def split: option.split)

lemma noteClientError_fatal: "fatal p = Some e \<Longrightarrow> fatal (noteClientError k p) = Some e"
  by (simp add: noteClientError_def noteFatal_def Let_def)

subsection \<open>Writing through the driver\<close>

context producer_iface
begin

text \<open>A send that fails says so with \<open>ErrClosed\<close>, the fatal error, or a translated client error.\<close>

lemma enqueue_error:
  assumes "enqueue produce r p w = (Inl e, p', w')"
  shows "e = SentinelErr ErrClosed
    \<or> (\<exists>x. e = enqueue_err r x \<and> (fatal p = Some x \<or> x = SentinelErr ErrClosed \<or> (\<exists>k. x = KafkaErr k)))"
  using assms produce_error
  by (fastforce simp: enqueue_defs Let_def split: if_splits option.splits prod.splits)

lemma enqueue_after_shut:
  assumes "is_shut w"
  shows "\<exists>e p'. enqueue produce r p w = (Inl e, p', w)"
  using assms by (simp add: enqueue_defs Let_def shut_refuses split: option.split)

end

subsection \<open>Settling reports\<close>

text \<open>The outcome a report gives a delivery that is still open.\<close>

definition outcome_of :: "report \<Rightarrow> delivery \<Rightarrow> delivery" where
  "outcome_of rep d =
     d\<lparr>d_result := \<lparr>ResTopic = RTopic (d_record d), ResPartition = RepPartition rep,
                    ResOffset = RepOffset rep\<rparr>,
       d_err := map_option (\<lambda>err. DeliveryErr (newDeliveryError (d_record d) rep err)) (RepErr rep),
       d_done := True\<rparr>"

lemma outcome_done [simp]: "d_done (outcome_of rep d)" "d_record (outcome_of rep d) = d_record d"
  by (simp_all add: outcome_of_def)

lemma settle_open:
  assumes "Token rep = DeliveryToken i" and "i < length (deliveries p)"
    and "\<not> d_done (deliveries p ! i)"
  obtains p' where "settle rep p = Some p'"
    and "deliveries p' = (deliveries p)[i := outcome_of rep (deliveries p ! i)]"
    and "fatal p' = fatal p" and "closed p' = closed p" and "pconfig p' = pconfig p"
  using assms
  by (cases "RepErr rep") (auto simp: settle_def Let_def resolve_def resolved_def outcome_of_def)

lemma settle_unmatched:
  assumes "\<And>i. Token rep = DeliveryToken i \<Longrightarrow> i < length (deliveries p) \<Longrightarrow> d_done (deliveries p ! i)"
  shows "settle rep p = Some (logUnmatchedReport p)"
  using assms by (cases "Token rep") (auto simp: settle_def Let_def resolved_def)

lemma settle_total: "\<exists>p'. settle rep p = Some p'"
proof (cases "\<exists>i. Token rep = DeliveryToken i \<and> i < length (deliveries p) \<and> \<not> d_done (deliveries p ! i)")
  case True
  then show ?thesis by (metis settle_open)
next
  case False
  then have "settle rep p = Some (logUnmatchedReport p)" by (intro settle_unmatched) blast
  then show ?thesis by blast
qed

lemma handle_event_total: "\<exists>p'. handle_event ev p = Some p'"
  using settle_total by (cases ev) auto

lemma readReports_total: "\<exists>p'. readReports evs p = Some p'"
proof (induction evs arbitrary: p)
  case Nil
  then show ?case by simp
next
  case (Cons ev evs)
  obtain p1 where "handle_event ev p = Some p1" using handle_event_total by blast
  with Cons.IH show ?case by simp
qed

text \<open>A step of the report goroutine resolves no delivery twice and creates none.\<close>

lemma handle_event_mono:
  assumes "handle_event ev p = Some p'"
  shows "length (deliveries p') = length (deliveries p)"
    and "i < length (deliveries p) \<Longrightarrow> d_done (deliveries p ! i) \<Longrightarrow> deliveries p' ! i = deliveries p ! i"
    and "i < length (deliveries p) \<Longrightarrow> d_record (deliveries p' ! i) = d_record (deliveries p ! i)"
    and "closed p' = closed p" and "pconfig p' = pconfig p"
    and "fatal p = Some e \<Longrightarrow> fatal p' = Some e"
proof -
  have "length (deliveries p') = length (deliveries p)
    \<and> (\<forall>i < length (deliveries p). d_done (deliveries p ! i) \<longrightarrow> deliveries p' ! i = deliveries p ! i)
    \<and> (\<forall>i < length (deliveries p). d_record (deliveries p' ! i) = d_record (deliveries p ! i))
    \<and> closed p' = closed p \<and> pconfig p' = pconfig p \<and> (fatal p = Some e \<longrightarrow> fatal p' = Some e)"
  proof (cases ev)
    case (Report rep)
    show ?thesis
    proof (cases "\<exists>i. Token rep = DeliveryToken i \<and> i < length (deliveries p) \<and> \<not> d_done (deliveries p ! i)")
      case True
      with Report assms show ?thesis
        by (auto elim!: settle_open simp: nth_list_update)
    next
      case False
      then have "settle rep p = Some (logUnmatchedReport p)" by (intro settle_unmatched) blast
      with Report assms show ?thesis by auto
    qed
  next
    case (ClientError k)
    with assms show ?thesis by (auto simp: noteClientError_fatal)
  qed
  then show "length (deliveries p') = length (deliveries p)"
    and "i < length (deliveries p) \<Longrightarrow> d_done (deliveries p ! i) \<Longrightarrow> deliveries p' ! i = deliveries p ! i"
    and "i < length (deliveries p) \<Longrightarrow> d_record (deliveries p' ! i) = d_record (deliveries p ! i)"
    and "closed p' = closed p" and "pconfig p' = pconfig p"
    and "fatal p = Some e \<Longrightarrow> fatal p' = Some e"
    by blast+
qed

text \<open>Reading reports and closing change no record.\<close>

lemma handle_event_records:
  "handle_event ev p = Some p' \<Longrightarrow> map d_record (deliveries p') = map d_record (deliveries p)"
  by (rule nth_equalityI) (simp_all add: handle_event_mono)

lemma readReports_records:
  "readReports evs p = Some p' \<Longrightarrow> map d_record (deliveries p') = map d_record (deliveries p)"
proof (induction evs arbitrary: p)
  case Nil
  then show ?case by simp
next
  case (Cons ev evs)
  from Cons.prems obtain p1 where "handle_event ev p = Some p1" "readReports evs p1 = Some p'"
    by (auto split: option.splits)
  with Cons.IH [of p1] handle_event_records [of ev p p1] show ?case by simp
qed

lemma publisher_Close_records:
  "publisher_Close fuel P C p w = Some (err, p', w') \<Longrightarrow>
     map d_record (deliveries p') = map d_record (deliveries p)"
  by (auto simp: publisher_Close_def purge_remaining_def Let_def dest!: readReports_records
      split: if_splits option.splits prod.splits)

end
