(* ===== verification/Publisher_System.thy ===== *)
theory Publisher_System
  imports Publisher
begin

text \<open>
  The publisher with everything that runs around it, as a step relation: senders on any number
  of goroutines, the driver reporting records in any order, the report goroutine, and the stages
  of the one \<open>Close\<close> that gets to run. A sender is inside the read lock from its checks until the
  driver's answer, and \<open>Close\<close> takes the write lock only when none is; the fatal error is not under
  that lock, so one may be recorded while a sender is inside. The driver is known by its \<open>Producer\<close>
  contract: an accepted record is pending until it is reported, each is reported once, and closing
  the driver drops what is still pending. The invariant ties every accepted delivery to where its
  report is.
\<close>

section \<open>States and steps\<close>

datatype stage = Running | Draining | Drained nat | DriverClosed nat | Returned "gerror option"

record sys =
  pub :: publisher
  sending :: "nat list"
  pending :: "nat list"
  chan :: "event list"
  stage :: stage
  dropped :: "nat list"
  accepted :: "nat list"

definition init_sys :: "config \<Rightarrow> sys" where
  "init_sys built =
     \<lparr>pub = new_publisher built, sending = [], pending = [], chan = [], stage = Running, dropped = [],
      accepted = []\<rparr>"

fun driver_open :: "stage \<Rightarrow> bool" where
  "driver_open (DriverClosed _) = False"
| "driver_open (Returned _) = False"
| "driver_open _ = True"

text \<open>The lines \<open>Close\<close> logs when it purges \<open>n > 0\<close> records; the purge itself may fail.\<close>

definition purge_lines :: "nat \<Rightarrow> gerror option \<Rightarrow> publisher \<Rightarrow> publisher" where
  "purge_lines n perr p =
     (if n = 0 then p
      else
        (let p' = add_log Error (Some PublishRecordsPurged) p
         in if perr = None then p' else add_log Error None p'))"

text \<open>
  A sender that the checks refuse changes nothing and makes no step. \<open>remaining\<close> is what the driver
  counted last: at least what is pending, as nothing is sent any more while the counted records may
  have been reported since.
\<close>

inductive pub_step :: "sys \<Rightarrow> sys \<Rightarrow> bool" where
  send_enter:
    "enqueue_begin r (pub s) = Inr (i, p') \<Longrightarrow>
     pub_step s (s\<lparr>pub := p', sending := sending s @ [i]\<rparr>)"
| send_accepted:
    "i \<in> set (sending s) \<Longrightarrow>
     pub_step s (s\<lparr>sending := remove1 i (sending s), pending := pending s @ [i], accepted := accepted s @ [i]\<rparr>)"
| send_refused:
    "i \<in> set (sending s) \<Longrightarrow> pub_step s (s\<lparr>sending := remove1 i (sending s)\<rparr>)"
| report:
    "i \<in> set (pending s) \<Longrightarrow> Token rep = DeliveryToken i \<Longrightarrow> driver_open (stage s) \<Longrightarrow>
     pub_step s (s\<lparr>pending := remove1 i (pending s), chan := chan s @ [Report rep]\<rparr>)"
| client_error:
    "driver_open (stage s) \<Longrightarrow> pub_step s (s\<lparr>chan := chan s @ [ClientError k]\<rparr>)"
| read:
    "chan s = ev # evs \<Longrightarrow> handle_event ev (pub s) = Some p' \<Longrightarrow>
     pub_step s (s\<lparr>pub := p', chan := evs\<rparr>)"
| close_start:
    "\<not> closed (pub s) \<Longrightarrow> sending s = [] \<Longrightarrow>
     pub_step s (s\<lparr>pub := (pub s)\<lparr>closed := True\<rparr>, stage := Draining\<rparr>)"
| drained:
    "stage s = Draining \<Longrightarrow> length (pending s) \<le> remaining \<Longrightarrow>
     pub_step s (s\<lparr>stage := Drained remaining, pub := purge_lines remaining perr (pub s)\<rparr>)"
| driver_close:
    "stage s = Drained n \<Longrightarrow>
     pub_step s (s\<lparr>stage := DriverClosed n, dropped := pending s, pending := []\<rparr>)"
| close_return:
    "stage s = DriverClosed n \<Longrightarrow> chan s = [] \<Longrightarrow>
     err = errors_Join (close_failures (int n) (fatal (pub s))) \<Longrightarrow>
     pub_step s (s\<lparr>stage := Returned err, pub := (pub s)\<lparr>closeErr := err\<rparr>\<rparr>)"

inductive pub_reach :: "config \<Rightarrow> sys \<Rightarrow> bool" for built :: config where
  start: "pub_reach built (init_sys built)"
| step: "pub_reach built s \<Longrightarrow> pub_step s t \<Longrightarrow> pub_reach built t"

section \<open>The invariant\<close>

fun event_id :: "event \<Rightarrow> nat option" where
  "event_id (Report rep) = (case Token rep of DeliveryToken i \<Rightarrow> Some i | ForeignToken _ \<Rightarrow> None)"
| "event_id (ClientError _) = None"

definition chan_ids :: "event list \<Rightarrow> nat list" where
  "chan_ids evs = List.map_filter event_id evs"

definition in_flight :: "sys \<Rightarrow> nat list" where
  "in_flight s = chan_ids (chan s) @ pending s @ dropped s"

definition done_id :: "publisher \<Rightarrow> nat \<Rightarrow> bool" where
  "done_id p i \<longleftrightarrow> i < length (deliveries p) \<and> d_done (deliveries p ! i)"

fun stage_inv :: "sys \<Rightarrow> stage \<Rightarrow> bool" where
  "stage_inv s Running = (\<not> closed (pub s) \<and> dropped s = [])"
| "stage_inv s Draining = (closed (pub s) \<and> dropped s = [])"
| "stage_inv s (Drained _) = (closed (pub s) \<and> dropped s = [])"
| "stage_inv s (DriverClosed _) = (closed (pub s) \<and> pending s = [])"
| "stage_inv s (Returned err) =
     (closed (pub s) \<and> pending s = [] \<and> chan s = [] \<and> closeErr (pub s) = err)"

text \<open>The last clauses are the lock: while a sender is inside, \<open>Close\<close> has not begun.\<close>

definition sys_inv :: "sys \<Rightarrow> bool" where
  "sys_inv s \<longleftrightarrow>
     distinct (in_flight s)
     \<and> (\<forall>i\<in>set (in_flight s). i \<in> set (accepted s) \<and> \<not> done_id (pub s) i)
     \<and> (\<forall>i\<in>set (accepted s). i < length (deliveries (pub s)))
     \<and> (\<forall>i\<in>set (accepted s). done_id (pub s) i \<or> i \<in> set (in_flight s))
     \<and> (\<forall>i. done_id (pub s) i \<longrightarrow> i \<in> set (accepted s))
     \<and> distinct (sending s) \<and> set (sending s) \<inter> set (accepted s) = {}
     \<and> (\<forall>i\<in>set (sending s). i < length (deliveries (pub s)))
     \<and> (closed (pub s) \<longrightarrow> sending s = [])
     \<and> stage_inv s (stage s)"

section \<open>Lemmas\<close>

lemma chan_ids_simps [simp]:
  "chan_ids [] = []" "chan_ids (ev # evs) = (case event_id ev of None \<Rightarrow> chan_ids evs | Some i \<Rightarrow> i # chan_ids evs)"
  "chan_ids (xs @ ys) = chan_ids xs @ chan_ids ys"
  by (simp_all add: chan_ids_def List.map_filter_def split: option.split)

lemma enqueue_begin_Inr:
  "enqueue_begin r p = Inr (i, p') \<longleftrightarrow>
     \<not> closed p \<and> fatal p = None \<and> i = length (deliveries p)
     \<and> p' = p\<lparr>deliveries := deliveries p @ [newDelivery r]\<rparr>"
  by (auto simp: enqueue_begin_def split: option.splits)

lemma done_id_append [simp]:
  "done_id (p\<lparr>deliveries := deliveries p @ [newDelivery r]\<rparr>) i \<longleftrightarrow> done_id p i"
  by (auto simp: done_id_def newDelivery_def nth_append less_Suc_eq)

lemma done_id_frame [simp]:
  "done_id (p\<lparr>closed := b\<rparr>) i = done_id p i" "done_id (p\<lparr>closeErr := ce\<rparr>) i = done_id p i"
  "done_id (add_log l c p) i = done_id p i" "done_id (logUnmatchedReport p) i = done_id p i"
  "done_id (noteClientError k p) i = done_id p i" "done_id (purge_lines n perr p) i = done_id p i"
  by (simp_all add: done_id_def purge_lines_def Let_def)

lemma purge_lines_frame [simp]:
  "closed (purge_lines n perr p) = closed p" "deliveries (purge_lines n perr p) = deliveries p"
  by (simp_all add: purge_lines_def Let_def)

text \<open>Reading a report of an open delivery resolves that delivery and no other.\<close>

lemma done_id_read:
  assumes "handle_event (Report rep) p = Some p'" and "Token rep = DeliveryToken i"
    and "i < length (deliveries p)" and "\<not> done_id p i"
  shows "done_id p' j \<longleftrightarrow> j = i \<or> done_id p j" and "closed p' = closed p"
    and "length (deliveries p') = length (deliveries p)"
proof -
  have nd: "\<not> d_done (deliveries p ! i)" using assms by (simp add: done_id_def)
  obtain q where q: "settle rep p = Some q"
    "deliveries q = (deliveries p)[i := outcome_of rep (deliveries p ! i)]" "closed q = closed p"
    using settle_open [OF assms(2,3) nd] by metis
  with assms(1) have "p' = q" by simp
  with q assms(3) show "done_id p' j \<longleftrightarrow> j = i \<or> done_id p j" "closed p' = closed p"
    "length (deliveries p') = length (deliveries p)"
    by (auto simp: done_id_def nth_list_update)
qed

lemma sys_inv_init: "sys_inv (init_sys built)"
  by (simp add: sys_inv_def init_sys_def in_flight_def new_publisher_def done_id_def)

lemma stage_inv_open: "stage_inv s (stage s) \<Longrightarrow> \<not> closed (pub s) \<Longrightarrow> stage s = Running"
  by (cases "stage s") auto

lemma sys_inv_read:
  assumes inv: "sys_inv s" and ch: "chan s = ev # evs" and he: "handle_event ev (pub s) = Some p'"
  shows "sys_inv (s\<lparr>pub := p', chan := evs\<rparr>)"
proof (cases "event_id ev")
  case None
  have "settle rep (pub s) = Some (logUnmatchedReport (pub s))" if "ev = Report rep" for rep
    using None that by (intro settle_unmatched) (auto split: token.splits)
  then have "p' = logUnmatchedReport (pub s) \<or> (\<exists>k. p' = noteClientError k (pub s))"
    using he by (cases ev) auto
  moreover have "closeErr (logUnmatchedReport p) = closeErr p" for p
    by (simp add: logUnmatchedReport_def add_log_def)
  ultimately show ?thesis
    using inv ch None by (cases "stage s") (auto simp: sys_inv_def in_flight_def)
next
  case (Some i)
  then obtain rep where ev: "ev = Report rep" and tok: "Token rep = DeliveryToken i"
    by (cases ev) (auto split: token.splits)
  have i: "i \<in> set (in_flight s)" using ch Some by (simp add: in_flight_def)
  with inv have "i < length (deliveries (pub s))" "\<not> done_id (pub s) i"
    by (auto simp: sys_inv_def)
  note D = done_id_read [OF he [unfolded ev] tok this]
  have fl: "in_flight s = i # in_flight (s\<lparr>pub := p', chan := evs\<rparr>)"
    using ch Some by (simp add: in_flight_def)
  have "stage_inv (s\<lparr>pub := p', chan := evs\<rparr>) (stage s)"
    using inv ch D(2) by (cases "stage s") (auto simp: sys_inv_def)
  then show ?thesis
    using inv unfolding sys_inv_def fl by (auto simp: D)
qed

lemma pub_step_inv: "pub_step s t \<Longrightarrow> sys_inv s \<Longrightarrow> sys_inv t"
proof (induction rule: pub_step.induct)
  case (send_enter r s i p')
  then have p': "\<not> closed (pub s)" "i = length (deliveries (pub s))"
    "p' = (pub s)\<lparr>deliveries := deliveries (pub s) @ [newDelivery r]\<rparr>"
    by (simp_all add: enqueue_begin_Inr)
  with send_enter.prems have st: "stage s = Running" using stage_inv_open by (simp add: sys_inv_def)
  have "i \<notin> set (accepted s)" "i \<notin> set (sending s)" using send_enter.prems p'(2) by (auto simp: sys_inv_def)
  with send_enter.prems p' st show ?case by (auto simp: sys_inv_def in_flight_def)
next
  case (send_accepted i s)
  then have "i \<notin> set (accepted s)" "\<not> closed (pub s)" by (auto simp: sys_inv_def)
  with send_accepted.prems have st: "stage s = Running" using stage_inv_open by (simp add: sys_inv_def)
  have "i \<notin> set (in_flight s)" "\<not> done_id (pub s) i" "i < length (deliveries (pub s))"
    using send_accepted \<open>i \<notin> set (accepted s)\<close> by (auto simp: sys_inv_def)
  with send_accepted st show ?case
    by (auto simp: sys_inv_def in_flight_def set_remove1_eq)
next
  case (send_refused i s)
  then have "\<not> closed (pub s)" by (auto simp: sys_inv_def)
  with send_refused.prems have st: "stage s = Running" using stage_inv_open by (simp add: sys_inv_def)
  with send_refused show ?case by (auto simp: sys_inv_def in_flight_def set_remove1_eq)
next
  case (report i s rep)
  then show ?case
    by (cases "stage s") (auto simp: sys_inv_def in_flight_def distinct_remove1)
next
  case (client_error s k)
  then show ?case by (cases "stage s") (auto simp: sys_inv_def in_flight_def)
next
  case (read s ev evs p')
  then show ?case by (intro sys_inv_read)
next
  case (close_start s)
  then have "stage s = Running" using stage_inv_open by (simp add: sys_inv_def)
  with close_start show ?case by (auto simp: sys_inv_def in_flight_def)
qed (auto simp: sys_inv_def in_flight_def)

lemma pub_reach_inv: "pub_reach built s \<Longrightarrow> sys_inv s"
  by (induction rule: pub_reach.induct) (auto intro: sys_inv_init pub_step_inv)

end
