(* ===== verification/Publisher_Properties.thy ===== *)
theory Publisher_Properties
  imports Publisher_System
begin

text \<open>
  What the publisher promises, over every interleaving of its senders, its driver, the report
  goroutine and \<open>Close\<close>. An invariant of the publisher alone is carried through the system by the
  locale \<open>publisher_invariant\<close>, which asks for its preservation by each way the publisher changes.
\<close>

section \<open>Definitions of the statements\<close>

text \<open>The failures among the outcomes of the deliveries.\<close>

definition failed_error :: "delivery \<Rightarrow> DeliveryError option" where
  "failed_error d =
     (if d_done d then case d_err d of Some (DeliveryErr de) \<Rightarrow> Some de | _ \<Rightarrow> None else None)"

definition failed_errors :: "delivery list \<Rightarrow> DeliveryError list" where
  "failed_errors ds = List.map_filter failed_error ds"

text \<open>The lines about the connection, in the order they were logged.\<close>

definition connection_lines :: "logline list \<Rightarrow> logcode list" where
  "connection_lines lg =
     filter (\<lambda>c. c = PublishBrokerDown \<or> c = PublishBrokerRestored) (List.map_filter snd lg)"

fun alternating :: "logcode list \<Rightarrow> bool \<Rightarrow> bool" where
  "alternating [] down = (\<not> down)"
| "alternating [c] down = (down \<and> c = PublishBrokerDown)"
| "alternating (c # d # cs) down =
     (c = PublishBrokerDown \<and> d = PublishBrokerRestored \<and> alternating cs down)"

definition fatal_inv :: "publisher \<Rightarrow> bool" where
  "fatal_inv p \<longleftrightarrow>
     (\<forall>e. fatal p = Some e \<longrightarrow> errors_Is e ErrFatal)
     \<and> fatalCalls p = (case (onFatal (pconfig p), fatal p) of (Some _, Some e) \<Rightarrow> [e] | _ \<Rightarrow> [])"

definition calls_inv :: "publisher \<Rightarrow> bool" where
  "calls_inv p \<longleftrightarrow>
     mset (errorCalls p) =
       (if onDeliveryError (pconfig p) = None then {#} else mset (failed_errors (deliveries p)))"

definition conn_inv :: "publisher \<Rightarrow> bool" where
  "conn_inv p \<longleftrightarrow> alternating (connection_lines (plog p)) (brokerDown p)"

section \<open>Invariants of the publisher inside the system\<close>

locale publisher_invariant =
  fixes I :: "publisher \<Rightarrow> bool"
  assumes new: "I (new_publisher built)"
    and enqueued: "I p \<Longrightarrow> I (p\<lparr>deliveries := deliveries p @ [newDelivery r]\<rparr>)"
    and event: "I p \<Longrightarrow> handle_event ev p = Some p' \<Longrightarrow> I p'"
    and close_flag: "I p \<Longrightarrow> I (p\<lparr>closed := b\<rparr>)"
    and close_result: "I p \<Longrightarrow> I (p\<lparr>closeErr := e\<rparr>)"
    and purge_line: "I p \<Longrightarrow> I (purge_lines n perr p)"
begin

lemma step: "pub_step s t \<Longrightarrow> I (pub s) \<Longrightarrow> I (pub t)"
proof (induction rule: pub_step.induct)
  case (send_enter r s i p')
  then show ?case using enqueued by (simp add: enqueue_begin_Inr)
qed (auto intro: event close_flag close_result purge_line)

lemma reachable: "pub_reach built s \<Longrightarrow> I (pub s)"
  by (induction rule: pub_reach.induct) (auto simp: init_sys_def intro: new step)

end

section \<open>Lemmas\<close>

subsection \<open>The three ways a report is settled\<close>

lemma settle_cases:
  assumes "settle rep p = Some p'"
  obtains (unmatched) "p' = logUnmatchedReport p"
  | (acknowledged) i where "Token rep = DeliveryToken i" "i < length (deliveries p)"
      "\<not> d_done (deliveries p ! i)" "RepErr rep = None"
      "p' = (noteConnected p)\<lparr>deliveries := (deliveries p)[i := outcome_of rep (deliveries p ! i)]\<rparr>"
  | (failed) i err where "Token rep = DeliveryToken i" "i < length (deliveries p)"
      "\<not> d_done (deliveries p ! i)" "RepErr rep = Some err"
      "p' = (invokeDeliveryErrorFunc (newDeliveryError (d_record (deliveries p ! i)) rep err)
               (add_log Error (Some PublishDeliveryFailed) p))
             \<lparr>deliveries := (deliveries p)[i := outcome_of rep (deliveries p ! i)]\<rparr>"
proof (cases "\<exists>i. Token rep = DeliveryToken i \<and> i < length (deliveries p) \<and> \<not> d_done (deliveries p ! i)")
  case True
  then obtain i where i: "Token rep = DeliveryToken i" "i < length (deliveries p)"
    "\<not> d_done (deliveries p ! i)" by blast
  show ?thesis
  proof (cases "RepErr rep")
    case None
    with assms i have "p' = (noteConnected p)
        \<lparr>deliveries := (deliveries p)[i := outcome_of rep (deliveries p ! i)]\<rparr>"
      by (simp add: settle_def Let_def resolve_def resolved_def outcome_of_def)
    with acknowledged i None show ?thesis by blast
  next
    case (Some err)
    with assms i have "p' = (invokeDeliveryErrorFunc (newDeliveryError (d_record (deliveries p ! i)) rep err)
        (add_log Error (Some PublishDeliveryFailed) p))
        \<lparr>deliveries := (deliveries p)[i := outcome_of rep (deliveries p ! i)]\<rparr>"
      by (simp add: settle_def Let_def resolve_def resolved_def outcome_of_def)
    with failed i Some show ?thesis by blast
  qed
next
  case False
  then have "settle rep p = Some (logUnmatchedReport p)" by (intro settle_unmatched) blast
  with assms unmatched show ?thesis by simp
qed

lemma invoke_frame [simp]:
  "fatalCalls (invokeDeliveryErrorFunc de p) = fatalCalls p"
  "brokerDown (invokeDeliveryErrorFunc de p) = brokerDown p"
  "fatalCalls (noteConnected p) = fatalCalls p"
  "fatalCalls (logUnmatchedReport p) = fatalCalls p" "brokerDown (logUnmatchedReport p) = brokerDown p"
  "fatalCalls (add_log l c p) = fatalCalls p" "brokerDown (add_log l c p) = brokerDown p"
  "brokerDown (invokeFatalHandler e p) = brokerDown p"
  by (simp_all add: publisher_frame_defs Let_def split: option.split)

subsection \<open>Fatal errors\<close>

lemma fatal_inv_cong:
  "pconfig q = pconfig p \<Longrightarrow> fatal q = fatal p \<Longrightarrow> fatalCalls q = fatalCalls p \<Longrightarrow> fatal_inv q = fatal_inv p"
  by (simp only: fatal_inv_def)

lemma fatal_inv_noteFatal: "fatal_inv p \<Longrightarrow> fatal_inv (noteFatal k p)"
  by (cases "fatal p")
    (auto simp: fatal_inv_def noteFatal_def Let_def invokeFatalHandler_def split: option.split)

lemma fatal_inv_event:
  assumes "fatal_inv p" and "handle_event ev p = Some p'"
  shows "fatal_inv p'"
proof (cases ev)
  case (Report rep)
  with assms(2) have "settle rep p = Some p'" by simp
  then show ?thesis
    by (cases rule: settle_cases) (use assms(1) in \<open>simp_all add: fatal_inv_def\<close>)
next
  case (ClientError k)
  with assms have "p' = noteClientError k p" by simp
  with assms(1) show ?thesis
    by (simp add: noteClientError_def fatal_inv_noteFatal) (simp add: fatal_inv_def)
qed

interpretation fatal_errors: publisher_invariant fatal_inv
proof unfold_locales
  show "fatal_inv p'" if "fatal_inv p" "handle_event ev p = Some p'" for p ev p'
    using that by (rule fatal_inv_event)
qed (auto simp: fatal_inv_def new_publisher_def purge_lines_def Let_def split: option.split)

subsection \<open>The delivery-error callback\<close>

lemma failed_error_new [simp]: "failed_error (newDelivery r) = None"
  by (simp add: failed_error_def newDelivery_def)

lemma failed_error_outcome:
  "failed_error (outcome_of rep d) =
     map_option (newDeliveryError (d_record d) rep) (RepErr rep)"
  by (cases "RepErr rep") (simp_all add: failed_error_def outcome_of_def)

lemma failed_errors_append: "failed_errors (xs @ ys) = failed_errors xs @ failed_errors ys"
  by (simp add: failed_errors_def List.map_filter_def)

lemma failed_errors_update:
  assumes "i < length ds" and "failed_error (ds ! i) = None"
  shows "mset (failed_errors (ds[i := d])) =
    mset (failed_errors ds) + (case failed_error d of None \<Rightarrow> {#} | Some de \<Rightarrow> {#de#})"
proof -
  have ds: "ds = take i ds @ ds ! i # drop (Suc i) ds" using assms(1) by (rule id_take_nth_drop)
  have "failed_errors ds = failed_errors (take i ds) @ failed_errors (drop (Suc i) ds)"
    using assms(2) by (subst ds) (simp add: failed_errors_def List.map_filter_def)
  moreover have "failed_errors (ds[i := d]) =
    failed_errors (take i ds) @ failed_errors [d] @ failed_errors (drop (Suc i) ds)"
    using assms(1) by (simp add: upd_conv_take_nth_drop failed_errors_def List.map_filter_def)
  moreover have "mset (failed_errors [d]) = (case failed_error d of None \<Rightarrow> {#} | Some de \<Rightarrow> {#de#})"
    by (simp add: failed_errors_def List.map_filter_def split: option.split)
  ultimately show ?thesis by simp
qed

lemma calls_inv_event:
  assumes "calls_inv p" and "handle_event ev p = Some p'"
  shows "calls_inv p'"
proof (cases ev)
  case (Report rep)
  with assms(2) have "settle rep p = Some p'" by simp
  then show ?thesis
  proof (cases rule: settle_cases)
    case unmatched
    with assms(1) show ?thesis by (simp add: calls_inv_def)
  next
    case (acknowledged i)
    with assms(1) show ?thesis
      by (simp add: calls_inv_def failed_errors_update failed_error_outcome failed_error_def [of "_ ! _"])
  next
    case (failed i err)
    with assms(1) show ?thesis
      by (cases "onDeliveryError (pconfig p)")
        (simp_all add: calls_inv_def failed_errors_update failed_error_outcome
          failed_error_def [of "_ ! _"] invokeDeliveryErrorFunc_def Let_def)
  qed
next
  case (ClientError k)
  with assms show ?thesis by (auto simp: calls_inv_def)
qed

interpretation error_calls: publisher_invariant calls_inv
proof unfold_locales
  show "calls_inv p'" if "calls_inv p" "handle_event ev p = Some p'" for p ev p'
    using that by (rule calls_inv_event)
qed (auto simp: calls_inv_def new_publisher_def failed_errors_append purge_lines_def Let_def, auto simp: failed_errors_def List.map_filter_def)

subsection \<open>The connection lines\<close>

lemma connection_lines_simps [simp]:
  "connection_lines [] = []" "connection_lines ((l, None) # lg) = connection_lines lg"
  "connection_lines ((l, Some c) # lg) =
     (if c = PublishBrokerDown \<or> c = PublishBrokerRestored then c # connection_lines lg
      else connection_lines lg)"
  "connection_lines (xs @ ys) = connection_lines xs @ connection_lines ys"
  by (simp_all add: connection_lines_def List.map_filter_def)

lemma alternating_down: "alternating cs False \<Longrightarrow> alternating (cs @ [PublishBrokerDown]) True"
  by (induction cs "False" rule: alternating.induct) auto

lemma alternating_up: "alternating cs True \<Longrightarrow> alternating (cs @ [PublishBrokerRestored]) False"
  by (induction cs "True" rule: alternating.induct) auto

lemma conn_inv_event:
  assumes "conn_inv p" and "handle_event ev p = Some p'"
  shows "conn_inv p'"
proof (cases ev)
  case (Report rep)
  with assms(2) have "settle rep p = Some p'" by simp
  then show ?thesis
    by (cases rule: settle_cases)
      (use assms(1) in \<open>auto simp: conn_inv_def logUnmatchedReport_def noteConnected_def
        invokeDeliveryErrorFunc_def Let_def intro: alternating_up split: option.split\<close>)
next
  case (ClientError k)
  with assms have "p' = noteClientError k p" by simp
  with assms(1) show ?thesis
    by (auto simp: noteClientError_def noteFatal_def invokeFatalHandler_def conn_inv_def Let_def
        add_log_def intro: alternating_down split: option.split)
qed

interpretation connection: publisher_invariant conn_inv
proof unfold_locales
  show "conn_inv p'" if "conn_inv p" "handle_event ev p = Some p'" for p ev p'
    using that by (rule conn_inv_event)
qed (auto simp: conn_inv_def new_publisher_def connection_lines_def List.map_filter_def add_log_def purge_lines_def Let_def)


subsection \<open>Resolved deliveries\<close>

lemma done_step:
  assumes "done_id (pub u) i \<and> deliveries (pub u) ! i = d" and "pub_step u v"
  shows "done_id (pub v) i \<and> deliveries (pub v) ! i = d"
  using assms(2,1)
proof (induction rule: pub_step.induct)
  case (send_enter r s j p')
  then show ?case by (auto simp: enqueue_begin_Inr done_id_def nth_append)
next
  case (read s ev evs p')
  with handle_event_mono(1,2) [of ev "pub s" p'] show ?case by (auto simp: done_id_def)
qed auto

subsection \<open>The loop of \<open>Close\<close>\<close>

text \<open>
  A context with a deadline: as long as it has not ended, every \<open>Flush\<close> of the drain loop brings
  its end nearer, here by a measure.
\<close>

definition flush_advances :: "'w producer_ops \<Rightarrow> 'w close_ctx \<Rightarrow> ('w \<Rightarrow> nat) \<Rightarrow> bool" where
  "flush_advances P C left \<longleftrightarrow>
     (\<forall>w t. ctx_Err C w = None \<longrightarrow> left (snd (po_Flush P t w)) < left w)"

lemma drain_loop_returns:
  assumes "flush_advances P C left" and "left w < fuel"
  shows "\<exists>r w'. drain_loop fuel P C remaining w = Some (r, w') \<and> (r \<le> 0 \<or> ctx_Err C w' \<noteq> None)"
  using assms(2)
proof (induction fuel arbitrary: remaining w)
  case 0
  then show ?case by simp
next
  case (Suc fuel)
  show ?case
  proof (cases "remaining > 0 \<and> ctx_Err C w = None")
    case True
    define tmo where "tmo = (case time_left C w of None \<Rightarrow> drainFlushTimeout
        | Some left \<Rightarrow> min drainFlushTimeout left)"
    obtain r w1 where f: "po_Flush P tmo w = (r, w1)" by fastforce
    with True assms(1) have "left w1 < left w" by (metis flush_advances_def snd_conv)
    with Suc.prems have "left w1 < fuel" by simp
    from Suc.IH [OF this, of r] True f show ?thesis by (simp add: tmo_def)
  next
    case False
    then show ?thesis by auto
  qed
qed

lemma readReports_inv:
  assumes "\<And>p ev p'. I p \<Longrightarrow> handle_event ev p = Some p' \<Longrightarrow> I p'"
    and "I p" and "readReports evs p = Some p'"
  shows "I p'"
  using assms(2,3)
proof (induction evs arbitrary: p)
  case Nil
  then show ?case by simp
next
  case (Cons ev evs)
  then obtain p1 where "handle_event ev p = Some p1" "readReports evs p1 = Some p'"
    by (auto split: option.splits)
  with Cons assms(1) show ?case by blast
qed

lemma publisher_Close_drained:
  assumes "\<not> closed p" and "drain fuel P C w = Some (remaining, w1)"
  obtains p2 w2 p3 where
    "(p2, w2) = (if remaining > 0 then purge_remaining P (p\<lparr>closed := True\<rparr>) w1 else (p\<lparr>closed := True\<rparr>, w1))"
    "readReports (po_Reports P (po_Close P w2)) p2 = Some p3"
    "publisher_Close fuel P C p w =
       Some (errors_Join (close_failures remaining (fatal p3)),
             p3\<lparr>closeErr := errors_Join (close_failures remaining (fatal p3))\<rparr>, po_Close P w2)"
proof -
  obtain p2 w2 where pw: "(p2, w2) =
      (if remaining > 0 then purge_remaining P (p\<lparr>closed := True\<rparr>) w1 else (p\<lparr>closed := True\<rparr>, w1))"
    by (metis surj_pair)
  obtain p3 where p3: "readReports (po_Reports P (po_Close P w2)) p2 = Some p3"
    using readReports_total by blast
  have "publisher_Close fuel P C p w =
       Some (errors_Join (close_failures remaining (fatal p3)),
             p3\<lparr>closeErr := errors_Join (close_failures remaining (fatal p3))\<rparr>, po_Close P w2)"
    using assms p3 pw by (cases "remaining > 0") (auto simp: publisher_Close_def Let_def split: prod.split)
  with that pw p3 show thesis by blast
qed

lemma purge_remaining_closed: "(p', w') = purge_remaining P p w \<Longrightarrow>
    closed p' = closed p \<and> fatal p' = fatal p \<and> pconfig p' = pconfig p \<and> fatalCalls p' = fatalCalls p"
  by (auto simp: purge_remaining_def Let_def split: prod.splits if_splits)

lemma errors_Is_close_failures:
  assumes "\<And>e. fe = Some e \<Longrightarrow> errors_Is e ErrFatal"
  shows "fe \<noteq> None \<longleftrightarrow> (\<exists>e. errors_Join (close_failures n fe) = Some e \<and> errors_Is e ErrFatal)"
    and "n > 0 \<Longrightarrow> \<exists>e. errors_Join (close_failures n fe) = Some e \<and> errors_Is e ErrNotDelivered"
    and "errors_Join (close_failures n fe) = None \<longleftrightarrow> n \<le> 0 \<and> fe = None"
  using assms by (auto simp: errors_Join_def close_failures_def split: option.split)


subsection \<open>A run of the system\<close>

definition wit_built :: config where
  "wit_built = defaultConfig\<lparr>onDeliveryError := Some (\<lambda>_. False), onFatal := Some (\<lambda>_. True)\<rparr>"

definition wit_record :: record_t where
  "wit_record = \<lparr>RTopic = ''orders'', RKey = Some ''k'', RValue = Some ''v'', RHeaders = []\<rparr>"

definition wit_kafka_error :: KafkaError where
  "wit_kafka_error =
     \<lparr>Code = ''FATAL'', Message = [], Sentinel = None, Fatal = True, Disconnected = False\<rparr>"

definition wit_report :: report where
  "wit_report = \<lparr>Token = DeliveryToken 0, RepPartition = 2, RepOffset = 7, RepErr = Some wit_kafka_error\<rparr>"

definition wit_sent :: sys where
  "wit_sent = (init_sys wit_built)
     \<lparr>pub := (new_publisher wit_built)\<lparr>deliveries := [newDelivery wit_record]\<rparr>, pending := [0], accepted := [0]\<rparr>"

definition wit_entered :: sys where
  "wit_entered = wit_sent\<lparr>sending := [0], pending := [], accepted := []\<rparr>"

lemmas wit_defs = wit_sent_def wit_report_def wit_kafka_error_def wit_record_def wit_built_def
  init_sys_def new_publisher_def defaultConfig_def

definition accept_all :: "record_t \<Rightarrow> token \<Rightarrow> unit \<Rightarrow> gerror option \<times> unit" where
  "accept_all r tok w = (None, w)"

text \<open>The record fails, its report is read, and \<open>Close\<close> runs to its end.\<close>

definition wit_settled_pub :: publisher where
  "wit_settled_pub = the (settle wit_report (pub wit_sent))"

lemma wit_settled_pub: "settle wit_report (pub wit_sent) = Some wit_settled_pub"
  using settle_total [of wit_report "pub wit_sent"] by (auto simp: wit_settled_pub_def)

lemma wit_settled_facts:
  "closed wit_settled_pub = False" "done_id wit_settled_pub 0" "fatal wit_settled_pub = None"
  "pconfig wit_settled_pub = wit_built" "d_err (deliveries wit_settled_pub ! 0) \<noteq> None"
proof -
  have d: "deliveries (pub wit_sent) = [newDelivery wit_record]" by (simp add: wit_sent_def)
  then have "\<not> d_done (deliveries (pub wit_sent) ! 0)" by (simp add: newDelivery_def)
  with d obtain q where "settle wit_report (pub wit_sent) = Some q"
    "deliveries q = (deliveries (pub wit_sent))[0 := outcome_of wit_report (deliveries (pub wit_sent) ! 0)]"
    "fatal q = fatal (pub wit_sent)" "closed q = closed (pub wit_sent)" "pconfig q = pconfig (pub wit_sent)"
    using settle_open [of wit_report 0 "pub wit_sent"] by (auto simp: wit_report_def)
  with wit_settled_pub d show "closed wit_settled_pub = False" "done_id wit_settled_pub 0"
    "fatal wit_settled_pub = None" "pconfig wit_settled_pub = wit_built"
    "d_err (deliveries wit_settled_pub ! 0) \<noteq> None"
    by (simp_all add: done_id_def wit_sent_def init_sys_def new_publisher_def outcome_of_def wit_report_def)
qed

definition wit_read :: sys where
  "wit_read = wit_sent\<lparr>pending := [], pub := wit_settled_pub\<rparr>"

definition wit_draining :: sys where
  "wit_draining = wit_read\<lparr>pub := wit_settled_pub\<lparr>closed := True\<rparr>, stage := Draining\<rparr>"

definition wit_driver_closed :: sys where
  "wit_driver_closed = wit_draining\<lparr>stage := DriverClosed 0, dropped := [], pending := []\<rparr>"

definition wit_returned :: sys where
  "wit_returned = wit_driver_closed
     \<lparr>stage := Returned None, pub := (pub wit_driver_closed)\<lparr>closeErr := None\<rparr>\<rparr>"

definition wit_states :: "sys list" where
  "wit_states =
     [init_sys wit_built, wit_entered, wit_sent, wit_sent\<lparr>pending := [], chan := [Report wit_report]\<rparr>, wit_read,
      wit_draining, wit_draining\<lparr>stage := Drained 0\<rparr>, wit_driver_closed, wit_returned]"

lemmas wit_state_defs = wit_read_def wit_sent_def wit_draining_def wit_driver_closed_def wit_returned_def init_sys_def

lemma wit_step_send: "pub_step (init_sys wit_built) wit_entered" "pub_step wit_entered wit_sent"
proof -
  have "enqueue_begin wit_record (pub (init_sys wit_built)) =
      Inr (0, (new_publisher wit_built)\<lparr>deliveries := [newDelivery wit_record]\<rparr>)"
    by (simp add: enqueue_begin_Inr init_sys_def new_publisher_def)
  from pub_step.send_enter [OF this] show "pub_step (init_sys wit_built) wit_entered"
    by (simp add: wit_entered_def wit_sent_def init_sys_def)
  show "pub_step wit_entered wit_sent"
    using pub_step.send_accepted [of 0 wit_entered] by (simp add: wit_entered_def wit_sent_def init_sys_def)
qed

lemma wit_steps: "successively pub_step wit_states"
proof -
  let ?m = "wit_sent\<lparr>pending := [], chan := [Report wit_report]\<rparr>"
  have "pub_step wit_sent ?m"
    using pub_step.report [of 0 wit_sent wit_report]
    by (simp add: wit_sent_def wit_report_def init_sys_def)
  moreover have "pub_step ?m wit_read"
    using pub_step.read [of ?m "Report wit_report" "[]" wit_settled_pub] wit_settled_pub
    by (simp add: wit_read_def wit_sent_def init_sys_def)
  moreover have "pub_step wit_read wit_draining"
    using pub_step.close_start [of wit_read] by (simp add: wit_state_defs wit_settled_facts)
  moreover have "pub_step wit_draining (wit_draining\<lparr>stage := Drained 0\<rparr>)"
    using pub_step.drained [of wit_draining 0 None] by (simp add: wit_state_defs purge_lines_def)
  moreover have "pub_step (wit_draining\<lparr>stage := Drained 0\<rparr>) wit_driver_closed"
    using pub_step.driver_close [of "wit_draining\<lparr>stage := Drained 0\<rparr>" 0] by (simp add: wit_state_defs)
  moreover have "pub_step wit_driver_closed wit_returned"
    using pub_step.close_return [of wit_driver_closed 0 None]
    by (simp add: wit_state_defs wit_settled_facts close_failures_def errors_Join_def)
  ultimately show ?thesis using wit_step_send by (simp add: wit_states_def)
qed

lemma chain_reach:
  "pub_reach built s \<Longrightarrow> successively pub_step (s # ss) \<Longrightarrow> t \<in> set (s # ss) \<Longrightarrow> pub_reach built t"
proof (induction ss arbitrary: s)
  case (Cons u ss)
  from Cons.prems(2) have "pub_step s u" "successively pub_step (u # ss)" by simp_all
  from Cons.IH [OF pub_reach.step [OF Cons.prems(1) this(1)] this(2)] Cons.prems(1,3) show ?case
    by (metis set_ConsD)
qed simp

lemma wit_reach: "s \<in> set wit_states \<Longrightarrow> pub_reach wit_built s"
  using chain_reach [OF pub_reach.start] wit_steps unfolding wit_states_def by blast

lemma wit_read_reach: "pub_reach wit_built wit_read"
  by (rule wit_reach) (simp add: wit_states_def)

lemma wit_closed_reach:
  "\<exists>s. pub_reach wit_built s \<and> stage s = Returned None \<and> accepted s = [0] \<and> dropped s = []"
  by (rule exI [of _ wit_returned]) (use wit_reach [of wit_returned] in \<open>simp add: wit_states_def wit_state_defs\<close>)

section \<open>Properties\<close>

text \<open>
  C3: once \<open>Close\<close> has returned, every delivery a sender was ever given is resolved, except for
  those whose record the driver dropped unreported when it was closed; nothing is left in the
  queue or in the channel.
\<close>

theorem close_resolves_every_delivery:
  assumes "pub_reach built s" and "stage s = Returned err" and "i \<in> set (accepted s)"
  shows "(done_id (pub s) i \<or> i \<in> set (dropped s)) \<and> pending s = [] \<and> chan s = []"
proof -
  have inv: "sys_inv s" using assms(1) by (rule pub_reach_inv)
  with assms(2) have "stage_inv s (Returned err)" by (simp add: sys_inv_def)
  then have "pending s = []" "chan s = []" by simp_all
  with inv assms(3) show ?thesis by (auto simp: sys_inv_def in_flight_def)
qed

theorem close_resolves_every_delivery_witness:
  "\<exists>s. pub_reach wit_built s \<and> accepted s = [0] \<and> dropped s = [] \<and> done_id (pub s) 0"
proof -
  obtain s where "pub_reach wit_built s" "stage s = Returned None" "accepted s = [0]" "dropped s = []"
    using wit_closed_reach by blast
  with close_resolves_every_delivery [of wit_built s None 0] show ?thesis by auto
qed

text \<open>
  C6: the report goroutine never closes a delivery twice, so it never panics, on any event in any
  state of the publisher; and the outcome a delivery was first given stays, whatever happens
  afterwards: later reports for it, other records, or \<open>Close\<close>.
\<close>

theorem first_outcome_stands:
  assumes "done_id (pub s) i" and "pub_step\<^sup>*\<^sup>* s t"
  shows "(\<exists>p'. handle_event ev (pub s) = Some p') \<and> done_id (pub t) i
    \<and> deliveries (pub t) ! i = deliveries (pub s) ! i"
proof -
  have step: "done_id (pub u) i \<and> deliveries (pub u) ! i = deliveries (pub s) ! i
      \<Longrightarrow> pub_step u v \<Longrightarrow> done_id (pub v) i \<and> deliveries (pub v) ! i = deliveries (pub s) ! i" for u v
    by (rule done_step)
  from assms(2) have "done_id (pub t) i \<and> deliveries (pub t) ! i = deliveries (pub s) ! i"
    by (induction rule: rtranclp_induct) (use assms(1) step in blast)+
  then show ?thesis using handle_event_total by blast
qed

theorem first_outcome_stands_witness:
  "done_id (pub wit_read) 0 \<and>
   (\<exists>p'. handle_event (Report wit_report) (pub wit_read) = Some p')"
  using first_outcome_stands [of wit_read 0 wit_read "Report wit_report"] wit_settled_facts(2)
  by (simp add: wit_read_def)

text \<open>
  C12: once \<open>Close\<close> has begun, no record is accepted any more: every send fails with \<open>ErrClosed\<close>
  before it reaches the producer, no sender is left between its check and its call of \<open>Produce\<close>,
  and the set of accepted deliveries stays what it was.
\<close>

theorem nothing_accepted_after_close:
  assumes "pub_reach built s" and "closed (pub s)"
  shows "enqueue produce r (pub s) w = (Inl (SentinelErr ErrClosed), pub s, w) \<and> sending s = []
    \<and> (pub_step\<^sup>*\<^sup>* s t \<longrightarrow> closed (pub t) \<and> accepted t = accepted s)"
proof -
  let ?I = "\<lambda>u. closed (pub u) \<and> sending u = [] \<and> accepted u = accepted s"
  have step: "?I v" if "pub_step u v" "?I u" for u v
    using that
  proof (induction rule: pub_step.induct)
    case (send_enter r s' i p')
    then show ?case by (simp add: enqueue_begin_Inr)
  next
    case (read s' ev evs p')
    with handle_event_mono(4) [of ev "pub s'" p'] show ?case by simp
  qed auto
  have s: "sending s = []" using pub_reach_inv [OF assms(1)] assms(2) by (simp add: sys_inv_def)
  have "pub_step\<^sup>*\<^sup>* s t \<Longrightarrow> ?I t"
    by (induction rule: rtranclp_induct) (use assms(2) s step in blast)+
  with assms(2) s show ?thesis by (simp add: enqueue_defs)
qed

theorem nothing_accepted_after_close_witness:
  "closed (pub wit_draining) \<and> enqueue accept_all wit_record (pub wit_draining) () =
     (Inl (SentinelErr ErrClosed), pub wit_draining, ())"
proof -
  have c: "closed (pub wit_draining)" by (simp add: wit_draining_def)
  have "pub_reach wit_built wit_draining" by (rule wit_reach) (simp add: wit_states_def)
  from nothing_accepted_after_close [OF this c, of accept_all wit_record "()" wit_draining] c
  show ?thesis by simp
qed

text \<open>
  C21: the first fatal error is the publisher's error for good. It wraps \<open>ErrFatal\<close> whatever the
  driver attached to it, the fatal handler, if there is one, is called with it once and never
  again, and every later send is refused with it.
\<close>

theorem fatal_error_sticks:
  assumes "pub_reach built s" and "fatal (pub s) = Some e"
  shows "errors_Is e ErrFatal
    \<and> fatalCalls (pub s) = (if onFatal (pconfig (pub s)) = None then [] else [e])
    \<and> (handle_event ev (pub s) = Some p' \<longrightarrow> fatal p' = Some e)
    \<and> (\<not> closed (pub s) \<longrightarrow> (\<exists>err. enqueue produce r (pub s) w = (Inl err, pub s, w) \<and> errors_Is err ErrFatal))"
proof -
  from fatal_errors.reachable [OF assms(1)] assms(2)
  have "errors_Is e ErrFatal" "fatalCalls (pub s) = (if onFatal (pconfig (pub s)) = None then [] else [e])"
    by (auto simp: fatal_inv_def split: option.splits)
  moreover have "handle_event ev (pub s) = Some p' \<Longrightarrow> fatal p' = Some e"
    using handle_event_mono(6) assms(2) by blast
  ultimately show ?thesis using assms(2) by (simp add: enqueue_defs enqueue_err_def)
qed

theorem fatal_error_sticks_witness:
  "\<exists>s. pub_reach wit_built s \<and> (\<exists>e. fatal (pub s) = Some e \<and> fatalCalls (pub s) = [e])"
proof -
  let ?m = "(init_sys wit_built)\<lparr>chan := [ClientError wit_kafka_error]\<rparr>"
  let ?s = "?m\<lparr>pub := noteClientError wit_kafka_error (pub ?m), chan := []\<rparr>"
  have "pub_step (init_sys wit_built) ?m"
    using pub_step.client_error [of "init_sys wit_built" wit_kafka_error] by (simp add: init_sys_def)
  moreover have "pub_step ?m ?s"
    using pub_step.read [of ?m "ClientError wit_kafka_error" "[]"] by simp
  ultimately have r: "pub_reach wit_built ?s" by (blast intro: pub_reach.intros)
  have "\<exists>e. fatal (pub ?s) = Some e"
    by (simp add: noteClientError_def noteFatal_def wit_kafka_error_def init_sys_def new_publisher_def Let_def)
  then obtain e where e: "fatal (pub ?s) = Some e" by blast
  have "onFatal (pconfig (pub ?s)) \<noteq> None" by (simp add: init_sys_def new_publisher_def wit_built_def)
  with fatal_error_sticks [OF r e, of "ClientError wit_kafka_error" "pub ?s" accept_all wit_record "()"] r e
  show ?thesis by auto
qed

text \<open>
  C22: with a delivery-error callback set, it has been called exactly once for each delivery that
  has failed so far, with that failure, and for nothing else; also when it panics.
\<close>

theorem error_callback_exactly_once:
  assumes "pub_reach built s" and "onDeliveryError (pconfig (pub s)) \<noteq> None"
  shows "mset (errorCalls (pub s)) = mset (failed_errors (deliveries (pub s)))"
  using error_calls.reachable [OF assms(1)] assms(2) by (simp add: calls_inv_def)

theorem error_callback_exactly_once_witness:
  "length (errorCalls (pub wit_read)) = length (failed_errors (deliveries (pub wit_read)))
   \<and> onDeliveryError (pconfig (pub wit_read)) \<noteq> None"
proof -
  have "onDeliveryError (pconfig (pub wit_read)) \<noteq> None"
    by (simp add: wit_read_def wit_settled_facts wit_built_def)
  with error_callback_exactly_once [OF wit_read_reach] show ?thesis by (metis size_mset)
qed

text \<open>
  C33: an outage is logged once: the lines for a lost and a restored connection alternate, starting
  with a loss, and a loss is the last of them exactly while the brokers count as down, however
  many errors the client reports during the outage.
\<close>

theorem one_line_per_outage:
  "pub_reach built s \<Longrightarrow> alternating (connection_lines (plog (pub s))) (brokerDown (pub s))"
  using connection.reachable by (simp add: conn_inv_def)

theorem one_line_per_outage_witness:
  "\<exists>s. pub_reach wit_built s \<and> brokerDown (pub s) \<and> suppressed (pub s) = 1
     \<and> alternating (connection_lines (plog (pub s))) True \<and> connection_lines (plog (pub s)) = [PublishBrokerDown]"
proof -
  let ?lost = "wit_kafka_error\<lparr>Fatal := False, Disconnected := True\<rparr>"
  let ?read = "\<lambda>s :: sys. s\<lparr>pub := noteClientError ?lost (pub s), chan := []\<rparr>"
  have read: "pub_reach wit_built (?read s)" if "pub_reach wit_built s" "chan s = []" "stage s = Running" for s
  proof -
    let ?m = "s\<lparr>chan := [ClientError ?lost]\<rparr>"
    have "pub_step s ?m" using pub_step.client_error [of s ?lost] that(2,3) by simp
    moreover have "pub_step ?m (?read s)"
      using pub_step.read [of ?m "ClientError ?lost" "[]"] that(2) by simp
    ultimately show ?thesis using that(1) by (blast intro: pub_reach.intros)
  qed
  let ?s = "?read (?read (init_sys wit_built))"
  have r: "pub_reach wit_built ?s"
    by (intro read pub_reach.start) (simp_all add: init_sys_def)
  have "brokerDown (pub ?s)" "suppressed (pub ?s) = 1" "connection_lines (plog (pub ?s)) = [PublishBrokerDown]"
    by (simp_all add: noteClientError_def init_sys_def new_publisher_def wit_kafka_error_def add_log_def is_int64_def)
  with one_line_per_outage [OF r] r show ?thesis by (intro exI [of _ ?s]) simp
qed

text \<open>
  C11: \<open>Close\<close> of an open publisher, once its drain has ended with \<open>remaining\<close> records unreported,
  always returns, leaves the publisher closed with the error it returns, and returns nil exactly
  when nothing remained and no fatal error occurred; its error wraps \<open>ErrNotDelivered\<close> when records
  remained and \<open>ErrFatal\<close> exactly when a fatal error occurred. A second \<open>Close\<close> changes nothing and
  returns the same error.
\<close>

theorem close_result:
  assumes "\<not> closed p" and "fatal_inv p" and "drain fuel P C w = Some (remaining, w1)"
  shows "\<exists>err p' w'. publisher_Close fuel P C p w = Some (err, p', w') \<and> closed p' \<and> closeErr p' = err
    \<and> (err = None \<longleftrightarrow> remaining \<le> 0 \<and> fatal p' = None)
    \<and> (remaining > 0 \<longrightarrow> (\<exists>e. err = Some e \<and> errors_Is e ErrNotDelivered))
    \<and> (fatal p' \<noteq> None \<longleftrightarrow> (\<exists>e. err = Some e \<and> errors_Is e ErrFatal))
    \<and> publisher_Close fuel2 P C p' w' = Some (err, p', w')"
proof (rule publisher_Close_drained [OF assms(1,3)])
  fix p2 w2 p3
  assume pw: "(p2, w2) = (if remaining > 0 then purge_remaining P (p\<lparr>closed := True\<rparr>) w1
      else (p\<lparr>closed := True\<rparr>, w1))"
    and rr: "readReports (po_Reports P (po_Close P w2)) p2 = Some p3"
    and cl: "publisher_Close fuel P C p w =
       Some (errors_Join (close_failures remaining (fatal p3)),
             p3\<lparr>closeErr := errors_Join (close_failures remaining (fatal p3))\<rparr>, po_Close P w2)"
  let ?I = "\<lambda>q. closed q \<and> fatal_inv q"
  have "?I p2" using pw assms(2) purge_remaining_closed [of p2 w2 P "p\<lparr>closed := True\<rparr>" w1]
    by (auto simp: fatal_inv_cong [of p2 p] fatal_inv_cong [of "p\<lparr>closed := True\<rparr>" p] split: if_splits)
  then have p3: "?I p3"
    by (rule readReports_inv [rotated, OF _ rr]) (metis handle_event_mono(4) fatal_inv_event)
  then have "\<And>e. fatal p3 = Some e \<Longrightarrow> errors_Is e ErrFatal" by (simp add: fatal_inv_def)
  note E = errors_Is_close_failures [where fe = "fatal p3" and n = remaining, OF this]
  define err where "err = errors_Join (close_failures remaining (fatal p3))"
  have "publisher_Close fuel2 P C (p3\<lparr>closeErr := err\<rparr>) (po_Close P w2)
      = Some (err, p3\<lparr>closeErr := err\<rparr>, po_Close P w2)"
    using p3 by (simp add: publisher_Close_def)
  with E [folded err_def] p3 cl [folded err_def] show ?thesis by simp
qed

definition idle_ops :: "int \<Rightarrow> nat producer_ops" where
  "idle_ops n = \<lparr>po_Produce = \<lambda>r t w. (None, w), po_Flush = \<lambda>t w. (n, w - 1), po_Purge = \<lambda>w. (None, w),
     po_Len = \<lambda>w. n, po_TopicPartitions = \<lambda>limit ts w. (Inr [], w), po_Close = \<lambda>w. w, po_Reports = \<lambda>w. []\<rparr>"

definition countdown :: "nat close_ctx" where
  "countdown = \<lparr>ctx_Err = \<lambda>w. if w = 0 then Some (SentinelErr CtxDeadlineExceeded) else None,
     time_left = \<lambda>w. Some (int w * Millisecond)\<rparr>"

theorem close_result_witness:
  "\<exists>e p' w'. publisher_Close 3 (idle_ops 2) countdown (new_publisher wit_built) 1 = Some (Some e, p', w')
     \<and> errors_Is e ErrNotDelivered"
proof -
  have "drain 3 (idle_ops 2) countdown 1 = Some (2, 0)"
    by (simp add: drain_def idle_ops_def countdown_def numeral_eq_Suc)
  moreover have "fatal_inv (new_publisher wit_built)"
    by (simp add: fatal_inv_def new_publisher_def split: option.split)
  ultimately show ?thesis
    using close_result [of "new_publisher wit_built" 3 "idle_ops 2" countdown 1 2 0 0]
    by (auto simp: new_publisher_def)
qed

text \<open>
  C17: \<open>Close\<close> returns: with a context whose end every flush brings nearer, the drain loop ends, and
  it ends with nothing left or the context over.
\<close>

theorem close_returns:
  assumes "flush_advances P C left" and "left w < fuel"
  shows "(\<exists>remaining w'. drain fuel P C w = Some (remaining, w') \<and> (remaining \<le> 0 \<or> ctx_Err C w' \<noteq> None))
    \<and> (\<exists>res. publisher_Close fuel P C p w = Some res)"
proof -
  obtain r w1 where d: "drain fuel P C w = Some (r, w1)" "r \<le> 0 \<or> ctx_Err C w1 \<noteq> None"
    using drain_loop_returns [OF assms, of "po_Len P w"] by (auto simp: drain_def)
  have "\<exists>res. publisher_Close fuel P C p w = Some res"
  proof (cases "closed p")
    case True
    then show ?thesis by (simp add: publisher_Close_def)
  next
    case False
    from publisher_Close_drained [OF this d(1)] show ?thesis by blast
  qed
  with d show ?thesis by blast
qed

theorem close_returns_witness:
  "\<exists>res. publisher_Close 9 (idle_ops 5) countdown (new_publisher wit_built) 8 = Some res"
proof -
  have "flush_advances (idle_ops 5) countdown (\<lambda>w. w)"
    by (auto simp: flush_advances_def idle_ops_def countdown_def)
  from close_returns [OF this, of 8 9 "new_publisher wit_built"] show ?thesis by simp
qed

end
