(* ===== verification/Publisher_Refinement.thy ===== *)
theory Publisher_Refinement
  imports Publisher_Properties
begin

text \<open>
  What a publisher is to its callers: a ledger of the records it took, in which every entry gets an
  outcome at most once. The locale \<open>simulation\<close> is the interface between a system of steps and its
  specification; the publisher with its goroutines, its driver and its \<open>Close\<close> is shown to simulate
  the ledger.
\<close>

section \<open>The ledger\<close>

record ledger =
  book :: "nat \<rightharpoonup> record_t \<times> gerror option option"
  taking :: bool

definition new_ledger :: ledger where
  "new_ledger = \<lparr>book = Map.empty, taking = True\<rparr>"

inductive ledger_step :: "ledger \<Rightarrow> ledger \<Rightarrow> bool" where
  take_record: "taking l \<Longrightarrow> book l i = None \<Longrightarrow> ledger_step l (l\<lparr>book := (book l)(i \<mapsto> (r, None))\<rparr>)"
| decide: "book l i = Some (r, None) \<Longrightarrow> ledger_step l (l\<lparr>book := (book l)(i \<mapsto> (r, Some outcome))\<rparr>)"
| shut: "taking l \<Longrightarrow> ledger_step l (l\<lparr>taking := False\<rparr>)"

inductive_cases ledger_stepE: "ledger_step l l'"

text \<open>What makes the ledger a specification: an outcome stands, and no entry is removed or rewritten.\<close>

lemma ledger_outcome_stands:
  "ledger_step\<^sup>*\<^sup>* l l' \<Longrightarrow> book l i = Some (r, Some outcome) \<Longrightarrow> book l' i = Some (r, Some outcome)"
  by (induction rule: rtranclp_induct) (auto elim!: ledger_stepE)

lemma ledger_entry_stays:
  "ledger_step\<^sup>*\<^sup>* l l' \<Longrightarrow> book l i = Some (r, x) \<Longrightarrow> \<exists>y. book l' i = Some (r, y)"
  by (induction rule: rtranclp_induct) (auto elim!: ledger_stepE)

lemma ledger_step_shut:
  "ledger_step l l' \<Longrightarrow> \<not> taking l \<Longrightarrow> \<not> taking l' \<and> dom (book l') = dom (book l)"
  by (erule ledger_stepE) (simp_all add: insert_absorb domIff)

lemma ledger_shut_stays:
  "ledger_step\<^sup>*\<^sup>* l l' \<Longrightarrow> \<not> taking l \<Longrightarrow> \<not> taking l' \<and> dom (book l') = dom (book l)"
  by (induction rule: rtranclp_induct) (use ledger_step_shut in \<open>auto simp del: dom_fun_upd\<close>)

text \<open>The records the driver accepted, each with the outcome its delivery was resolved with.\<close>

definition ledger_of :: "sys \<Rightarrow> ledger" where
  "ledger_of s =
     \<lparr>book = (\<lambda>i. if i \<in> set (accepted s)
        then Some (let d = deliveries (pub s) ! i in (d_record d, if d_done d then Some (d_err d) else None))
        else None),
      taking = (\<not> closed (pub s))\<rparr>"

section \<open>Simulations\<close>

locale simulation =
  fixes cstep :: "'c \<Rightarrow> 'c \<Rightarrow> bool" and cinv :: "'c \<Rightarrow> bool"
    and astep :: "'a \<Rightarrow> 'a \<Rightarrow> bool" and abs :: "'c \<Rightarrow> 'a"
  assumes cinv_step: "cinv s \<Longrightarrow> cstep s t \<Longrightarrow> cinv t"
    and step_sim: "cinv s \<Longrightarrow> cstep s t \<Longrightarrow> abs t = abs s \<or> astep (abs s) (abs t)"
begin

lemma runs_sim:
  assumes "cstep\<^sup>*\<^sup>* s t" and "cinv s"
  shows "astep\<^sup>*\<^sup>* (abs s) (abs t) \<and> cinv t"
  using assms
proof (induction rule: rtranclp_induct)
  case base
  then show ?case by simp
next
  case (step t u)
  then have "astep\<^sup>*\<^sup>* (abs s) (abs t)" "cinv t" by blast+
  with step_sim [OF \<open>cinv t\<close> step(2)] cinv_step [OF \<open>cinv t\<close> step(2)] show ?case
    by (auto intro: rtranclp.rtrancl_into_rtrancl)
qed

end

section \<open>Lemmas\<close>

lemma ledger_of_eq:
  "accepted t = accepted s \<Longrightarrow> deliveries (pub t) = deliveries (pub s) \<Longrightarrow> closed (pub t) = closed (pub s) \<Longrightarrow>
     ledger_of t = ledger_of s"
  by (auto simp: ledger_of_def fun_eq_iff)

lemma ledger_of_append:
  assumes "sys_inv s"
  shows "ledger_of (s\<lparr>pub := (pub s)\<lparr>deliveries := deliveries (pub s) @ [d]\<rparr>, sending := ss\<rparr>) = ledger_of s"
  using assms by (auto simp: ledger_of_def sys_inv_def nth_append fun_eq_iff)

lemma ledger_of_take:
  assumes "sys_inv s" and "i \<in> set (sending s)"
  shows "ledger_step (ledger_of s) (ledger_of (s\<lparr>sending := ss, pending := ps, accepted := accepted s @ [i]\<rparr>))"
proof -
  let ?r = "d_record (deliveries (pub s) ! i)"
  have i: "i \<notin> set (accepted s)" "i < length (deliveries (pub s))" "\<not> closed (pub s)"
    using assms by (auto simp: sys_inv_def)
  then have "\<not> d_done (deliveries (pub s) ! i)" using assms(1) by (auto simp: sys_inv_def done_id_def)
  then have "ledger_of (s\<lparr>sending := ss, pending := ps, accepted := accepted s @ [i]\<rparr>)
      = (ledger_of s)\<lparr>book := (book (ledger_of s))(i \<mapsto> (?r, None))\<rparr>"
    by (auto simp: ledger_of_def fun_eq_iff Let_def)
  moreover have "taking (ledger_of s)" "book (ledger_of s) i = None" using i by (simp_all add: ledger_of_def)
  ultimately show ?thesis using ledger_step.take_record by metis
qed

lemma ledger_of_read:
  assumes "sys_inv s" and "chan s = ev # evs" and "handle_event ev (pub s) = Some p'"
  shows "ledger_of (s\<lparr>pub := p', chan := evs\<rparr>) = ledger_of s
    \<or> ledger_step (ledger_of s) (ledger_of (s\<lparr>pub := p', chan := evs\<rparr>))"
proof (cases "event_id ev")
  case None
  have "settle rep (pub s) = Some (logUnmatchedReport (pub s))" if "ev = Report rep" for rep
    using None that by (intro settle_unmatched) (auto split: token.splits)
  then have "deliveries p' = deliveries (pub s)" "closed p' = closed (pub s)" using assms(3) by (cases ev; auto)+
  then show ?thesis by (intro disjI1 ledger_of_eq) simp_all
next
  case (Some i)
  then obtain rep where ev: "ev = Report rep" and tok: "Token rep = DeliveryToken i"
    by (cases ev) (auto split: token.splits)
  have "i \<in> set (in_flight s)" using assms(2) Some by (simp add: in_flight_def)
  with assms(1) have acc: "i \<in> set (accepted s)" "i < length (deliveries (pub s))" "\<not> d_done (deliveries (pub s) ! i)"
    by (auto simp: sys_inv_def done_id_def)
  obtain q where "settle rep (pub s) = Some q" "closed q = closed (pub s)"
    "deliveries q = (deliveries (pub s))[i := outcome_of rep (deliveries (pub s) ! i)]"
    using settle_open [OF tok acc(2,3)] by metis
  with assms(3) ev have q: "closed p' = closed (pub s)"
    "deliveries p' = (deliveries (pub s))[i := outcome_of rep (deliveries (pub s) ! i)]" by simp_all
  let ?r = "d_record (deliveries (pub s) ! i)" and ?o = "d_err (outcome_of rep (deliveries (pub s) ! i))"
  have "ledger_of (s\<lparr>pub := p', chan := evs\<rparr>) = (ledger_of s)\<lparr>book := (book (ledger_of s))(i \<mapsto> (?r, Some ?o))\<rparr>"
    using q acc by (auto simp: ledger_of_def fun_eq_iff Let_def nth_list_update)
  moreover have "book (ledger_of s) i = Some (?r, None)" using acc by (simp add: ledger_of_def Let_def)
  ultimately show ?thesis using ledger_step.decide by metis
qed

lemma pub_step_ledger:
  assumes "sys_inv s" and "pub_step s t"
  shows "ledger_of t = ledger_of s \<or> ledger_step (ledger_of s) (ledger_of t)"
  using assms(2)
proof cases
  case (send_enter r i p')
  then have "p' = (pub s)\<lparr>deliveries := deliveries (pub s) @ [newDelivery r]\<rparr>" by (simp add: enqueue_begin_Inr)
  with ledger_of_append [OF assms(1)] send_enter(1) show ?thesis by simp
next
  case (send_accepted i)
  with ledger_of_take [OF assms(1)] show ?thesis by simp
next
  case (read ev evs p')
  with ledger_of_read [OF assms(1)] show ?thesis by simp
next
  case close_start
  then have "ledger_of t = (ledger_of s)\<lparr>taking := False\<rparr>" "taking (ledger_of s)"
    by (auto simp: ledger_of_def fun_eq_iff)
  then show ?thesis using ledger_step.shut by metis
qed (auto intro!: ledger_of_eq)

interpretation publisher: simulation pub_step sys_inv ledger_step ledger_of
  by unfold_locales (blast intro: pub_step_inv dest: pub_step_ledger)+

section \<open>Properties\<close>

text \<open>
  C8: the publisher, with any number of senders, the driver reporting in any order, the report
  goroutine and \<open>Close\<close> interleaved in any way, implements the ledger: a record the driver accepted
  is an entry without an outcome, an entry gets its outcome once and keeps it, and none is taken
  once \<open>Close\<close> has begun. Every run of the publisher is a run of the ledger, and so is every way it
  goes on: what was resolved stays in the ledger as it is, and a closed publisher's ledger is complete.
\<close>

theorem publisher_refines_ledger:
  assumes "pub_step\<^sup>*\<^sup>* (init_sys built) s" and "pub_step\<^sup>*\<^sup>* s t"
  shows "ledger_step\<^sup>*\<^sup>* new_ledger (ledger_of s) \<and> ledger_step\<^sup>*\<^sup>* (ledger_of s) (ledger_of t)
    \<and> (\<forall>i \<in> set (accepted s). d_done (deliveries (pub s) ! i) \<longrightarrow>
         book (ledger_of t) i = Some (d_record (deliveries (pub s) ! i), Some (d_err (deliveries (pub s) ! i))))
    \<and> (closed (pub s) \<longrightarrow> dom (book (ledger_of t)) = dom (book (ledger_of s)))"
proof -
  have new: "ledger_of (init_sys built) = new_ledger"
    by (simp add: ledger_of_def init_sys_def new_ledger_def new_publisher_def)
  with publisher.runs_sim [OF assms(1) sys_inv_init] have s: "ledger_step\<^sup>*\<^sup>* new_ledger (ledger_of s)" "sys_inv s"
    by simp_all
  from publisher.runs_sim [OF assms(2) s(2)] have t: "ledger_step\<^sup>*\<^sup>* (ledger_of s) (ledger_of t)" by blast
  have "book (ledger_of t) i = Some (d_record (deliveries (pub s) ! i), Some (d_err (deliveries (pub s) ! i)))"
    if "i \<in> set (accepted s)" "d_done (deliveries (pub s) ! i)" for i
    using that by (intro ledger_outcome_stands [OF t]) (simp add: ledger_of_def Let_def)
  moreover have "dom (book (ledger_of t)) = dom (book (ledger_of s))" if "closed (pub s)"
    using ledger_shut_stays [OF t] that by (simp add: ledger_of_def)
  ultimately show ?thesis using s(1) t by blast
qed

theorem publisher_refines_ledger_witness:
  "ledger_step\<^sup>*\<^sup>* new_ledger (ledger_of wit_read)
   \<and> (\<exists>r e. book (ledger_of wit_returned) 0 = Some (r, Some (Some e)))"
proof -
  have "pub_step\<^sup>*\<^sup>* (init_sys wit_built) wit_read" "pub_step\<^sup>*\<^sup>* wit_read wit_returned"
    using wit_steps unfolding wit_states_def by (auto intro: successively_runs)
  from publisher_refines_ledger [OF this]
  have "ledger_step\<^sup>*\<^sup>* new_ledger (ledger_of wit_read)"
    and "d_done (deliveries (pub wit_read) ! 0) \<longrightarrow> book (ledger_of wit_returned) 0
      = Some (d_record (deliveries (pub wit_read) ! 0), Some (d_err (deliveries (pub wit_read) ! 0)))"
    by (simp_all add: wit_state_defs)
  moreover have "d_done (deliveries (pub wit_read) ! 0)" "d_err (deliveries (pub wit_read) ! 0) \<noteq> None"
    using wit_settled_facts(2,5) by (simp_all add: wit_read_def done_id_def)
  ultimately show ?thesis by auto
qed

end
