(* ===== verification/Publisher_Goroutines.thy ===== *)
theory Publisher_Goroutines
  imports Publisher_Refinement
begin

text \<open>
  The publisher and its driver one goroutine step at a time: senders and pings inside the two
  read-write locks, the driver's translating goroutine, the report goroutine at the other end of
  the unbuffered channel between them, and \<open>Close\<close> from its call to its return. The client library
  is what fills the events channel. Each step belongs to an agent, so that fairness can be asked of
  one goroutine at a time. The system is shown to implement the step relation of
  \<open>Publisher_System\<close>, which knows the driver by its contract only.
\<close>

section \<open>States and steps\<close>

text \<open>
  Where the goroutine in \<open>Close\<close> is. \<open>Called\<close> and \<open>WantsHandle\<close> wait for a write lock, \<open>lifecycle\<close>
  of the publisher and \<open>handleMu\<close> of the driver: a waiting writer keeps new readers out.
\<close>

datatype phase =
    NotCalled | Called | DrainLoop | Counted nat | WantsHandle nat | Flagged nat | AdminClosed nat
  | ClientClosed nat | Finished "gerror option"

record full =
  f_pub :: publisher
  f_phase :: phase
  f_sending :: "nat list"
  f_producing :: "nat list"
  f_describing :: nat
  f_closed :: bool
  f_queue :: "nat list"
  f_events :: "kfk_event list"
  f_reports :: "event option"
  f_translated :: bool
  f_settling :: "event option"
  f_settled :: bool
  f_dropped :: "nat list"
  f_accepted :: "nat list"

definition init_full :: "config \<Rightarrow> full" where
  "init_full built =
     \<lparr>f_pub = new_publisher built, f_phase = NotCalled, f_sending = [], f_producing = [], f_describing = 0,
      f_closed = False, f_queue = [], f_events = [], f_reports = None, f_translated = False,
      f_settling = None, f_settled = False, f_dropped = [], f_accepted = []\<rparr>"

fun wants_handle :: "phase \<Rightarrow> bool" where
  "wants_handle (WantsHandle _) = True"
| "wants_handle _ = False"

fun admin_open :: "phase \<Rightarrow> bool" where
  "admin_open (AdminClosed _) = False"
| "admin_open (ClientClosed _) = False"
| "admin_open (Finished _) = False"
| "admin_open _ = True"

fun client_open :: "phase \<Rightarrow> bool" where
  "client_open (ClientClosed _) = False"
| "client_open (Finished _) = False"
| "client_open _ = True"

text \<open>
  A new caller is a step of \<open>Caller\<close>; what the caller does from then on belongs to \<open>Sender\<close>, \<open>Pinger\<close>
  or \<open>Closer\<close>. A call that the checks refuse changes nothing and makes no step. \<open>f_reports\<close> is the
  event the translating goroutine offers on the channel, \<open>f_settling\<close> the one the report goroutine
  took off it.
\<close>

fun is_KMessage :: "kfk_event \<Rightarrow> bool" where
  "is_KMessage (KMessage _) = True"
| "is_KMessage _ = False"

datatype agent = Caller | Sender nat | Pinger | Client | Translator | Reader | Closer

inductive full_act :: "verb_fmt \<Rightarrow> agent \<Rightarrow> full \<Rightarrow> full \<Rightarrow> bool" for quote :: verb_fmt where
  send_call:
    "enqueue_begin r (f_pub s) = Inr (i, p') \<Longrightarrow> f_phase s \<noteq> Called \<Longrightarrow>
     full_act quote Caller s (s\<lparr>f_pub := p', f_sending := f_sending s @ [i]\<rparr>)"
| ping_call:
    "\<not> f_closed s \<Longrightarrow> \<not> wants_handle (f_phase s) \<Longrightarrow>
     full_act quote Caller s (s\<lparr>f_describing := Suc (f_describing s)\<rparr>)"
| close_call:
    "f_phase s = NotCalled \<Longrightarrow> full_act quote Caller s (s\<lparr>f_phase := Called\<rparr>)"
| produce:
    "i \<in> set (f_sending s) \<Longrightarrow> i \<notin> set (f_producing s) \<Longrightarrow> \<not> wants_handle (f_phase s) \<Longrightarrow> \<not> f_closed s \<Longrightarrow>
     full_act quote (Sender i) s (s\<lparr>f_producing := f_producing s @ [i]\<rparr>)"
| produce_closed:
    "i \<in> set (f_sending s) \<Longrightarrow> i \<notin> set (f_producing s) \<Longrightarrow> \<not> wants_handle (f_phase s) \<Longrightarrow> f_closed s \<Longrightarrow>
     full_act quote (Sender i) s (s\<lparr>f_sending := remove1 i (f_sending s)\<rparr>)"
| client_takes:
    "i \<in> set (f_producing s) \<Longrightarrow>
     full_act quote (Sender i) s
       (s\<lparr>f_producing := remove1 i (f_producing s), f_sending := remove1 i (f_sending s),
          f_queue := f_queue s @ [i], f_accepted := f_accepted s @ [i]\<rparr>)"
| client_refuses:
    "i \<in> set (f_producing s) \<Longrightarrow>
     full_act quote (Sender i) s
       (s\<lparr>f_producing := remove1 i (f_producing s), f_sending := remove1 i (f_sending s)\<rparr>)"
| ping_return:
    "f_describing s = Suc n \<Longrightarrow> full_act quote Pinger s (s\<lparr>f_describing := n\<rparr>)"
| client_report:
    "i \<in> set (f_queue s) \<Longrightarrow> kmOpaque m = DeliveryToken i \<Longrightarrow> client_open (f_phase s) \<Longrightarrow>
     full_act quote Client s (s\<lparr>f_queue := remove1 i (f_queue s), f_events := f_events s @ [KMessage m]\<rparr>)"
| client_event:
    "\<not> is_KMessage ev \<Longrightarrow> client_open (f_phase s) \<Longrightarrow>
     full_act quote Client s (s\<lparr>f_events := f_events s @ [ev]\<rparr>)"
| translator_takes:
    "f_events s = ev # evs \<Longrightarrow> f_reports s = None \<Longrightarrow>
     full_act quote Translator s (s\<lparr>f_events := evs, f_reports := TranslateEvent quote ev\<rparr>)"
| hand_over:
    "f_reports s = Some ev \<Longrightarrow> f_settling s = None \<Longrightarrow>
     full_act quote Translator s (s\<lparr>f_reports := None, f_settling := Some ev\<rparr>)"
| translator_ends:
    "\<not> client_open (f_phase s) \<Longrightarrow> f_events s = [] \<Longrightarrow> f_reports s = None \<Longrightarrow> \<not> f_translated s \<Longrightarrow>
     full_act quote Translator s (s\<lparr>f_translated := True\<rparr>)"
| reader_settles:
    "f_settling s = Some ev \<Longrightarrow> handle_event ev (f_pub s) = Some p' \<Longrightarrow>
     full_act quote Reader s (s\<lparr>f_pub := p', f_settling := None\<rparr>)"
| reader_ends:
    "f_translated s \<Longrightarrow> f_settling s = None \<Longrightarrow> \<not> f_settled s \<Longrightarrow>
     full_act quote Reader s (s\<lparr>f_settled := True\<rparr>)"
| close_locks:
    "f_phase s = Called \<Longrightarrow> f_sending s = [] \<Longrightarrow>
     full_act quote Closer s (s\<lparr>f_pub := (f_pub s)\<lparr>closed := True\<rparr>, f_phase := DrainLoop\<rparr>)"
| close_counts:
    "f_phase s = DrainLoop \<Longrightarrow> length (f_queue s) \<le> remaining \<Longrightarrow>
     full_act quote Closer s (s\<lparr>f_phase := Counted remaining, f_pub := purge_lines remaining perr (f_pub s)\<rparr>)"
| close_wants_handle:
    "f_phase s = Counted n \<Longrightarrow> full_act quote Closer s (s\<lparr>f_phase := WantsHandle n\<rparr>)"
| close_flags:
    "f_phase s = WantsHandle n \<Longrightarrow> f_producing s = [] \<Longrightarrow> f_describing s = 0 \<Longrightarrow>
     full_act quote Closer s (s\<lparr>f_closed := True, f_phase := Flagged n\<rparr>)"
| close_admin:
    "f_phase s = Flagged n \<Longrightarrow> full_act quote Closer s (s\<lparr>f_phase := AdminClosed n\<rparr>)"
| close_client:
    "f_phase s = AdminClosed n \<Longrightarrow>
     full_act quote Closer s (s\<lparr>f_phase := ClientClosed n, f_dropped := f_queue s, f_queue := []\<rparr>)"
| close_returns:
    "f_phase s = ClientClosed n \<Longrightarrow> f_settled s \<Longrightarrow>
     err = errors_Join (close_failures (int n) (fatal (f_pub s))) \<Longrightarrow>
     full_act quote Closer s (s\<lparr>f_phase := Finished err, f_pub := (f_pub s)\<lparr>closeErr := err\<rparr>\<rparr>)"

definition full_step :: "verb_fmt \<Rightarrow> full \<Rightarrow> full \<Rightarrow> bool" where
  "full_step quote s t \<longleftrightarrow> (\<exists>a. full_act quote a s t)"

section \<open>The system it implements\<close>

fun stage_of :: "phase \<Rightarrow> stage" where
  "stage_of NotCalled = Running"
| "stage_of Called = Running"
| "stage_of DrainLoop = Draining"
| "stage_of (Counted n) = Drained n"
| "stage_of (WantsHandle n) = Drained n"
| "stage_of (Flagged n) = Drained n"
| "stage_of (AdminClosed n) = Drained n"
| "stage_of (ClientClosed n) = DriverClosed n"
| "stage_of (Finished err) = Returned err"

text \<open>What is between the client and the publisher's state, oldest first.\<close>

definition in_transit :: "verb_fmt \<Rightarrow> full \<Rightarrow> event list" where
  "in_transit quote s =
     (case f_settling s of None \<Rightarrow> [] | Some ev \<Rightarrow> [ev]) @ (case f_reports s of None \<Rightarrow> [] | Some ev \<Rightarrow> [ev])
     @ translate quote (f_events s)"

definition sys_of :: "verb_fmt \<Rightarrow> full \<Rightarrow> sys" where
  "sys_of quote s =
     \<lparr>pub = f_pub s, sending = f_sending s, pending = f_queue s, chan = in_transit quote s,
      stage = stage_of (f_phase s), dropped = f_dropped s, accepted = f_accepted s\<rparr>"

fun flagged :: "phase \<Rightarrow> bool" where
  "flagged (Flagged _) = True"
| "flagged (AdminClosed _) = True"
| "flagged (ClientClosed _) = True"
| "flagged (Finished _) = True"
| "flagged _ = False"

fun finished :: "phase \<Rightarrow> bool" where
  "finished (Finished _) = True"
| "finished _ = False"

definition full_inv :: "verb_fmt \<Rightarrow> full \<Rightarrow> bool" where
  "full_inv quote s \<longleftrightarrow>
     sys_inv (sys_of quote s)
     \<and> distinct (f_producing s) \<and> set (f_producing s) \<subseteq> set (f_sending s)
     \<and> f_closed s = flagged (f_phase s)
     \<and> (f_closed s \<longrightarrow> f_producing s = [] \<and> f_describing s = 0)
     \<and> (f_translated s \<longrightarrow> \<not> client_open (f_phase s) \<and> f_events s = [] \<and> f_reports s = None)
     \<and> (f_settled s \<longrightarrow> f_translated s \<and> f_settling s = None)
     \<and> (finished (f_phase s) \<longrightarrow> f_settled s)"

section \<open>Lemmas\<close>

lemma translate_simps [simp]:
  "translate quote [] = []" "translate quote (xs @ ys) = translate quote xs @ translate quote ys"
  "translate quote (ev # evs) =
     (case TranslateEvent quote ev of None \<Rightarrow> translate quote evs | Some e \<Rightarrow> e # translate quote evs)"
  by (simp_all add: translate_def List.map_filter_def split: option.split)

lemma sys_of_sel [simp]:
  "pub (sys_of quote s) = f_pub s" "sending (sys_of quote s) = f_sending s" "pending (sys_of quote s) = f_queue s"
  "chan (sys_of quote s) = in_transit quote s" "stage (sys_of quote s) = stage_of (f_phase s)"
  "dropped (sys_of quote s) = f_dropped s" "accepted (sys_of quote s) = f_accepted s"
  by (simp_all add: sys_of_def)

lemma TranslateEvent_message:
  "TranslateEvent quote (KMessage m) = Some (Report \<lparr>Token = kmOpaque m, RepPartition = kmPartition m,
     RepOffset = kmOffset m, RepErr = map_option (TranslateError quote) (kmError m)\<rparr>)"
  by (simp add: TranslateEvent_def)

lemma TranslateEvent_other:
  "\<not> is_KMessage ev \<Longrightarrow> TranslateEvent quote ev = None \<or> (\<exists>k. TranslateEvent quote ev = Some (ClientError k))"
  by (cases ev) (simp_all add: TranslateEvent_def)

lemma driver_open_stage: "driver_open (stage_of ph) = client_open ph"
  by (cases ph) simp_all

text \<open>A step is a step of the coarser system, or one that only the finer system has.\<close>

lemmas sys_of_eval = sys_of_def in_transit_def

lemma full_act_sim:
  assumes inv: "full_inv quote s" and act: "full_act quote a s t"
  shows "sys_of quote t = sys_of quote s \<or> pub_step (sys_of quote s) (sys_of quote t)"
  using act
proof cases
  case (send_call r i p')
  then show ?thesis using pub_step.send_enter [of r "sys_of quote s" i p'] by (simp add: sys_of_eval)
next
  case (produce_closed i)
  then show ?thesis using pub_step.send_refused [of i "sys_of quote s"] by (simp add: sys_of_eval)
next
  case (client_takes i)
  then have "i \<in> set (f_sending s)" using inv by (auto simp: full_inv_def)
  with client_takes show ?thesis using pub_step.send_accepted [of i "sys_of quote s"] by (simp add: sys_of_eval)
next
  case (client_refuses i)
  then have "i \<in> set (f_sending s)" using inv by (auto simp: full_inv_def)
  with client_refuses show ?thesis using pub_step.send_refused [of i "sys_of quote s"] by (simp add: sys_of_eval)
next
  case (client_report i m)
  obtain rep where rep: "TranslateEvent quote (KMessage m) = Some (Report rep)" "Token rep = DeliveryToken i"
    using client_report by (simp add: TranslateEvent_message)
  with client_report show ?thesis using pub_step.report [of i "sys_of quote s" rep]
    by (simp add: sys_of_eval driver_open_stage)
next
  case (client_event ev)
  from TranslateEvent_other [OF client_event(3), of quote] show ?thesis
  proof
    assume "\<exists>k. TranslateEvent quote ev = Some (ClientError k)"
    then obtain k where "TranslateEvent quote ev = Some (ClientError k)" by blast
    with client_event show ?thesis using pub_step.client_error [of "sys_of quote s" k]
      by (simp add: sys_of_eval driver_open_stage)
  qed (use client_event in \<open>simp add: sys_of_eval\<close>)
next
  case (reader_settles ev p')
  then show ?thesis using pub_step.read [of "sys_of quote s" ev "in_transit quote t" p'] by (simp add: sys_of_eval)
next
  case close_locks
  then have "\<not> closed (f_pub s)" using inv by (simp add: full_inv_def sys_inv_def)
  with close_locks show ?thesis using pub_step.close_start [of "sys_of quote s"] by (simp add: sys_of_eval)
next
  case (close_counts remaining perr)
  then show ?thesis using pub_step.drained [of "sys_of quote s" remaining perr] by (simp add: sys_of_eval)
next
  case (close_client n)
  then show ?thesis using pub_step.driver_close [of "sys_of quote s" n] by (simp add: sys_of_eval)
next
  case (close_returns n err)
  then have "in_transit quote s = []" using inv by (simp add: full_inv_def in_transit_def)
  with close_returns show ?thesis using pub_step.close_return [of "sys_of quote s" n err] by (simp add: sys_of_eval)
qed (simp_all add: sys_of_eval split: option.split)

lemma full_act_inv:
  assumes inv: "full_inv quote s" and act: "full_act quote a s t"
  shows "full_inv quote t"
proof -
  have "sys_inv (sys_of quote s)" using inv by (simp add: full_inv_def)
  with full_act_sim [OF assms] have sys: "sys_inv (sys_of quote t)" by (metis pub_step_inv)
  have rest: "full_inv quote t \<longleftrightarrow> distinct (f_producing t) \<and> set (f_producing t) \<subseteq> set (f_sending t)
     \<and> f_closed t = flagged (f_phase t)
     \<and> (f_closed t \<longrightarrow> f_producing t = [] \<and> f_describing t = 0)
     \<and> (f_translated t \<longrightarrow> \<not> client_open (f_phase t) \<and> f_events t = [] \<and> f_reports t = None)
     \<and> (f_settled t \<longrightarrow> f_translated t \<and> f_settling t = None)
     \<and> (finished (f_phase t) \<longrightarrow> f_settled t)"
    using sys by (simp add: full_inv_def)
  have "distinct (f_sending s)" using inv by (simp add: full_inv_def sys_inv_def)
  with act inv show ?thesis
    unfolding rest by cases (auto simp: full_inv_def set_remove1_eq distinct_remove1)
qed

lemma full_inv_init: "full_inv quote (init_full built)"
proof -
  have "sys_of quote (init_full built) = init_sys built"
    by (simp add: sys_of_eval init_full_def init_sys_def)
  then show ?thesis using sys_inv_init [of built] by (simp add: full_inv_def) (simp add: init_full_def)
qed

interpretation goroutines: simulation "full_step quote" "full_inv quote" pub_step "sys_of quote" for quote
  by unfold_locales (auto simp: full_step_def intro: full_act_inv dest: full_act_sim)

lemma full_runs_inv: "(full_step quote)\<^sup>*\<^sup>* (init_full built) s \<Longrightarrow> full_inv quote s"
  using goroutines.runs_sim full_inv_init by blast

subsection \<open>A run of the goroutines\<close>

text \<open>One record is sent and acknowledged, then \<open>Close\<close> runs from its call to its return.\<close>

definition wit_quote :: verb_fmt where
  "wit_quote v t = t"

definition wit_message :: kfk_message where
  "wit_message = \<lparr>kmTopic = Some ''orders'', kmPartition = 2, kmOffset = 7, kmError = None, kmKey = Some ''k'',
     kmValue = Some ''v'', kmHeaders = [], kmTimestamp = 0, kmOpaque = DeliveryToken 0\<rparr>"

definition wit_event :: event where
  "wit_event = Report \<lparr>Token = DeliveryToken 0, RepPartition = 2, RepOffset = 7, RepErr = None\<rparr>"

definition wit_acked :: publisher where
  "wit_acked = the (handle_event wit_event (pub wit_sent))"

definition g_start :: full where
  "g_start = init_full wit_built"

definition g_sending :: full where
  "g_sending = g_start\<lparr>f_pub := pub wit_sent, f_sending := [0]\<rparr>"

definition g_queued :: full where
  "g_queued = g_start\<lparr>f_pub := pub wit_sent, f_queue := [0], f_accepted := [0]\<rparr>"

definition g_acked :: full where
  "g_acked = g_start\<lparr>f_pub := wit_acked, f_accepted := [0]\<rparr>"

definition g_closing :: "phase \<Rightarrow> full" where
  "g_closing ph = g_acked\<lparr>f_pub := wit_acked\<lparr>closed := True\<rparr>, f_phase := ph, f_closed := flagged ph\<rparr>"

definition wit_full :: "full list" where
  "wit_full =
     [g_start, g_sending, g_sending\<lparr>f_producing := [0]\<rparr>, g_queued,
      g_queued\<lparr>f_queue := [], f_events := [KMessage wit_message]\<rparr>,
      g_queued\<lparr>f_queue := [], f_reports := Some wit_event\<rparr>,
      g_queued\<lparr>f_queue := [], f_settling := Some wit_event\<rparr>, g_acked, g_acked\<lparr>f_phase := Called\<rparr>,
      g_closing DrainLoop, g_closing (Counted 0), g_closing (WantsHandle 0), g_closing (Flagged 0),
      g_closing (AdminClosed 0), g_closing (ClientClosed 0), (g_closing (ClientClosed 0))\<lparr>f_translated := True\<rparr>,
      (g_closing (ClientClosed 0))\<lparr>f_translated := True, f_settled := True\<rparr>,
      (g_closing (Finished None))\<lparr>f_translated := True, f_settled := True\<rparr>]"

lemmas g_defs = g_start_def g_sending_def g_queued_def g_acked_def g_closing_def init_full_def

lemma wit_acked_facts:
  "handle_event wit_event (pub wit_sent) = Some wit_acked" "fatal wit_acked = None" "closed wit_acked = False"
  "wit_acked\<lparr>closed := True, closeErr := None\<rparr> = wit_acked\<lparr>closed := True\<rparr>"
  by (simp_all add: wit_acked_def wit_event_def settle_def wit_sent_def newDelivery_def resolved_def resolve_def
      noteConnected_def new_publisher_def Let_def)

lemma wit_sends:
  "full_step wit_quote g_start g_sending"
  "full_step wit_quote g_sending (g_sending\<lparr>f_producing := [0]\<rparr>)"
  "full_step wit_quote (g_sending\<lparr>f_producing := [0]\<rparr>) g_queued"
proof -
  have "enqueue_begin wit_record (f_pub g_start) = Inr (0, pub wit_sent)"
    by (simp add: enqueue_begin_Inr g_defs wit_sent_def new_publisher_def)
  from full_act.send_call [OF this, of wit_quote] show "full_step wit_quote g_start g_sending"
    by (auto simp: full_step_def g_defs)
  show "full_step wit_quote g_sending (g_sending\<lparr>f_producing := [0]\<rparr>)"
    using full_act.produce [of 0 g_sending wit_quote] by (auto simp: full_step_def g_defs)
  show "full_step wit_quote (g_sending\<lparr>f_producing := [0]\<rparr>) g_queued"
    using full_act.client_takes [of 0 "g_sending\<lparr>f_producing := [0]\<rparr>" wit_quote] by (auto simp: full_step_def g_defs)
qed

lemma wit_reports:
  "full_step wit_quote g_queued (g_queued\<lparr>f_queue := [], f_events := [KMessage wit_message]\<rparr>)"
  "full_step wit_quote (g_queued\<lparr>f_queue := [], f_events := [KMessage wit_message]\<rparr>)
     (g_queued\<lparr>f_queue := [], f_reports := Some wit_event\<rparr>)"
  "full_step wit_quote (g_queued\<lparr>f_queue := [], f_reports := Some wit_event\<rparr>)
     (g_queued\<lparr>f_queue := [], f_settling := Some wit_event\<rparr>)"
  "full_step wit_quote (g_queued\<lparr>f_queue := [], f_settling := Some wit_event\<rparr>) g_acked"
proof -
  have te: "TranslateEvent wit_quote (KMessage wit_message) = Some wit_event"
    by (simp add: TranslateEvent_message wit_message_def wit_event_def)
  show "full_step wit_quote g_queued (g_queued\<lparr>f_queue := [], f_events := [KMessage wit_message]\<rparr>)"
    using full_act.client_report [of 0 g_queued wit_message wit_quote]
    by (auto simp: full_step_def g_defs wit_message_def)
  show "full_step wit_quote (g_queued\<lparr>f_queue := [], f_events := [KMessage wit_message]\<rparr>)
     (g_queued\<lparr>f_queue := [], f_reports := Some wit_event\<rparr>)"
    using full_act.translator_takes [of "g_queued\<lparr>f_queue := [], f_events := [KMessage wit_message]\<rparr>" _ _ wit_quote] te
    by (auto simp: full_step_def g_defs)
  show "full_step wit_quote (g_queued\<lparr>f_queue := [], f_reports := Some wit_event\<rparr>)
     (g_queued\<lparr>f_queue := [], f_settling := Some wit_event\<rparr>)"
    using full_act.hand_over [of "g_queued\<lparr>f_queue := [], f_reports := Some wit_event\<rparr>" _ wit_quote]
    by (auto simp: full_step_def g_defs)
  show "full_step wit_quote (g_queued\<lparr>f_queue := [], f_settling := Some wit_event\<rparr>) g_acked"
    using full_act.reader_settles [of "g_queued\<lparr>f_queue := [], f_settling := Some wit_event\<rparr>" _ wit_acked wit_quote]
      wit_acked_facts(1) by (auto simp: full_step_def g_defs)
qed

lemma wit_closes:
  "full_step wit_quote g_acked (g_acked\<lparr>f_phase := Called\<rparr>)"
  "full_step wit_quote (g_acked\<lparr>f_phase := Called\<rparr>) (g_closing DrainLoop)"
  "full_step wit_quote (g_closing DrainLoop) (g_closing (Counted 0))"
  "full_step wit_quote (g_closing (Counted 0)) (g_closing (WantsHandle 0))"
  "full_step wit_quote (g_closing (WantsHandle 0)) (g_closing (Flagged 0))"
  "full_step wit_quote (g_closing (Flagged 0)) (g_closing (AdminClosed 0))"
  "full_step wit_quote (g_closing (AdminClosed 0)) (g_closing (ClientClosed 0))"
  using full_act.close_call [of g_acked wit_quote] full_act.close_locks [of "g_acked\<lparr>f_phase := Called\<rparr>" wit_quote]
    full_act.close_counts [of "g_closing DrainLoop" 0 wit_quote None]
    full_act.close_wants_handle [of "g_closing (Counted 0)" 0 wit_quote]
    full_act.close_flags [of "g_closing (WantsHandle 0)" 0 wit_quote]
    full_act.close_admin [of "g_closing (Flagged 0)" 0 wit_quote]
    full_act.close_client [of "g_closing (AdminClosed 0)" 0 wit_quote]
  by (auto simp: full_step_def g_defs purge_lines_def)

lemma wit_ends:
  "full_step wit_quote (g_closing (ClientClosed 0)) ((g_closing (ClientClosed 0))\<lparr>f_translated := True\<rparr>)"
  "full_step wit_quote ((g_closing (ClientClosed 0))\<lparr>f_translated := True\<rparr>)
     ((g_closing (ClientClosed 0))\<lparr>f_translated := True, f_settled := True\<rparr>)"
  "full_step wit_quote ((g_closing (ClientClosed 0))\<lparr>f_translated := True, f_settled := True\<rparr>)
     ((g_closing (Finished None))\<lparr>f_translated := True, f_settled := True\<rparr>)"
  using full_act.translator_ends [of "g_closing (ClientClosed 0)" wit_quote]
    full_act.reader_ends [of "(g_closing (ClientClosed 0))\<lparr>f_translated := True\<rparr>" wit_quote]
    full_act.close_returns [of "(g_closing (ClientClosed 0))\<lparr>f_translated := True, f_settled := True\<rparr>" 0 None wit_quote]
    wit_acked_facts
  by (auto simp: full_step_def g_defs close_failures_def errors_Join_def)

lemma wit_full_steps: "successively (full_step wit_quote) wit_full"
  by (simp add: wit_full_def wit_sends wit_reports wit_closes wit_ends)

lemma wit_full_runs: "s \<in> set wit_full \<Longrightarrow> (full_step wit_quote)\<^sup>*\<^sup>* (init_full wit_built) s"
  using successively_runs [of "full_step wit_quote" g_start] wit_full_steps
  unfolding wit_full_def g_start_def [symmetric] by blast

section \<open>Properties\<close>

text \<open>
  C9: the two locks, the two goroutines and the channel between them implement the contract the
  publisher is proved against. Every run of the goroutines is a run of the system that knows the
  driver by its contract: what the client reports reaches the publisher once, translated and in
  order, and nothing else does. When \<open>Close\<close> has returned, both goroutines have ended, no event is
  left between them, and each accepted record is resolved or was dropped by the client as it closed.
\<close>

theorem goroutines_refine_system:
  assumes "(full_step quote)\<^sup>*\<^sup>* (init_full built) s" and "(full_step quote)\<^sup>*\<^sup>* s t"
  shows "pub_step\<^sup>*\<^sup>* (init_sys built) (sys_of quote s) \<and> pub_step\<^sup>*\<^sup>* (sys_of quote s) (sys_of quote t)
    \<and> (f_phase s = Finished err \<longrightarrow> f_translated s \<and> f_settled s \<and> f_events s = [] \<and> closeErr (f_pub s) = err
         \<and> (\<forall>i. i \<in> set (f_accepted s) \<longrightarrow> done_id (f_pub s) i \<or> i \<in> set (f_dropped s)))"
proof -
  have "sys_of quote (init_full built) = init_sys built" by (simp add: sys_of_eval init_full_def init_sys_def)
  with goroutines.runs_sim [OF assms(1) full_inv_init] have s: "pub_step\<^sup>*\<^sup>* (init_sys built) (sys_of quote s)"
    and inv: "full_inv quote s" by simp_all
  have "pub_step\<^sup>*\<^sup>* (sys_of quote s) (sys_of quote t)" using goroutines.runs_sim [OF assms(2) inv] by blast
  moreover have "f_translated s \<and> f_settled s \<and> f_events s = [] \<and> closeErr (f_pub s) = err
      \<and> (\<forall>i. i \<in> set (f_accepted s) \<longrightarrow> done_id (f_pub s) i \<or> i \<in> set (f_dropped s))"
    if "f_phase s = Finished err"
    using inv that by (auto simp: full_inv_def sys_inv_def in_flight_def)
  ultimately show ?thesis using s by blast
qed

theorem goroutines_refine_system_witness:
  "\<exists>s. f_phase s = Finished None \<and> f_accepted s = [0] \<and> f_dropped s = [] \<and> done_id (f_pub s) 0
     \<and> pub_step\<^sup>*\<^sup>* (init_sys wit_built) (sys_of wit_quote s)"
proof -
  let ?s = "(g_closing (Finished None))\<lparr>f_translated := True, f_settled := True\<rparr>"
  have "(full_step wit_quote)\<^sup>*\<^sup>* (init_full wit_built) ?s" by (rule wit_full_runs) (simp add: wit_full_def)
  from goroutines_refine_system [OF this rtranclp.rtrancl_refl, of None]
  show ?thesis by (intro exI [of _ ?s]) (auto simp: g_defs)
qed

text \<open>
  C13: no call reaches a client that is closed. While a sender is inside \<open>Produce\<close> or a ping inside
  \<open>TopicPartitions\<close>, neither the admin client nor the producer has been closed and the driver does
  not count as closed, although \<open>Close\<close> shuts both down without holding the lock; and while a
  sender is inside \<open>enqueue\<close>, \<open>Close\<close> of the publisher has not taken its lock.
\<close>

theorem no_call_on_closed_client:
  assumes "(full_step quote)\<^sup>*\<^sup>* (init_full built) s"
  shows "(f_producing s \<noteq> [] \<or> f_describing s > 0 \<longrightarrow>
       admin_open (f_phase s) \<and> client_open (f_phase s) \<and> \<not> f_closed s)
    \<and> (f_sending s \<noteq> [] \<longrightarrow> \<not> closed (f_pub s) \<and> (f_phase s = NotCalled \<or> f_phase s = Called))"
proof -
  have inv: "full_inv quote s" using assms by (rule full_runs_inv)
  have "admin_open (f_phase s) \<and> client_open (f_phase s) \<and> \<not> f_closed s"
    if "f_producing s \<noteq> [] \<or> f_describing s > 0"
    using inv that by (cases "f_phase s") (auto simp: full_inv_def)
  moreover have "\<not> closed (f_pub s) \<and> (f_phase s = NotCalled \<or> f_phase s = Called)" if "f_sending s \<noteq> []"
    using inv that by (cases "f_phase s") (auto simp: full_inv_def sys_inv_def)
  ultimately show ?thesis by blast
qed

theorem no_call_on_closed_client_witness:
  "\<exists>s. (full_step wit_quote)\<^sup>*\<^sup>* (init_full wit_built) s
     \<and> f_producing s = [0] \<and> f_sending s = [0] \<and> \<not> f_closed s \<and> \<not> closed (f_pub s)"
proof -
  let ?s = "g_sending\<lparr>f_producing := [0]\<rparr>"
  have r: "(full_step wit_quote)\<^sup>*\<^sup>* (init_full wit_built) ?s"
    by (rule wit_full_runs) (simp add: wit_full_def)
  from no_call_on_closed_client [OF this] have "\<not> f_closed ?s \<and> \<not> closed (f_pub ?s)"
    by (simp add: g_defs)
  with r show ?thesis by (intro exI [of _ ?s]) (simp add: g_defs)
qed

end
