(* ===== verification/Fairness.thy ===== *)
theory Fairness
  imports Prelude
begin

text \<open>
  Runs of a step relation and what is bound to happen on them. A run is an infinite sequence of
  states that may stutter, an action is a part of the step relation, and an action is treated
  weakly fairly when it is taken or disabled again and again. The locale gives the two rules the
  liveness proofs use: one helpful action that reaches the goal, and one that brings it nearer.
\<close>

section \<open>Runs, fairness and leads-to\<close>

definition is_run :: "('s \<Rightarrow> bool) \<Rightarrow> ('s \<Rightarrow> 's \<Rightarrow> bool) \<Rightarrow> (nat \<Rightarrow> 's) \<Rightarrow> bool" where
  "is_run init step \<sigma> \<longleftrightarrow> init (\<sigma> 0) \<and> (\<forall>n. \<sigma> (Suc n) = \<sigma> n \<or> step (\<sigma> n) (\<sigma> (Suc n)))"

definition enabled :: "('s \<Rightarrow> 's \<Rightarrow> bool) \<Rightarrow> 's \<Rightarrow> bool" where
  "enabled act s \<longleftrightarrow> (\<exists>t. act s t)"

definition weakly_fair :: "('s \<Rightarrow> 's \<Rightarrow> bool) \<Rightarrow> (nat \<Rightarrow> 's) \<Rightarrow> bool" where
  "weakly_fair act \<sigma> \<longleftrightarrow> (\<forall>n. \<exists>m\<ge>n. \<not> enabled act (\<sigma> m) \<or> act (\<sigma> m) (\<sigma> (Suc m)))"

definition leads_to :: "(nat \<Rightarrow> 's) \<Rightarrow> ('s \<Rightarrow> bool) \<Rightarrow> ('s \<Rightarrow> bool) \<Rightarrow> bool" where
  "leads_to \<sigma> P Q \<longleftrightarrow> (\<forall>n. P (\<sigma> n) \<longrightarrow> (\<exists>m\<ge>n. Q (\<sigma> m)))"

text \<open>A finite run that stays in its last state.\<close>

definition halting :: "'s list \<Rightarrow> nat \<Rightarrow> 's" where
  "halting ss n = ss ! min n (length ss - 1)"

section \<open>Lemmas\<close>

lemma leads_toD: "leads_to \<sigma> P Q \<Longrightarrow> P (\<sigma> n) \<Longrightarrow> \<exists>m\<ge>n. Q (\<sigma> m)"
  by (simp add: leads_to_def)

lemma leads_to_weaken: "(\<And>s. P s \<Longrightarrow> Q s) \<Longrightarrow> leads_to \<sigma> P Q"
  by (auto simp: leads_to_def)

lemma leads_to_trans: "leads_to \<sigma> P Q \<Longrightarrow> leads_to \<sigma> Q R \<Longrightarrow> leads_to \<sigma> P R"
  unfolding leads_to_def by (meson le_trans)

lemma leads_to_disj: "leads_to \<sigma> P R \<Longrightarrow> leads_to \<sigma> Q R \<Longrightarrow> leads_to \<sigma> (\<lambda>s. P s \<or> Q s) R"
  by (auto simp: leads_to_def)

lemma halting_run:
  assumes "ss \<noteq> []" and "init (hd ss)" and "successively step ss"
  shows "is_run init step (halting ss)"
  unfolding is_run_def
proof (intro conjI allI)
  show "init (halting ss 0)" using assms(1,2) by (simp add: halting_def hd_conv_nth)
  show "halting ss (Suc n) = halting ss n \<or> step (halting ss n) (halting ss (Suc n))" for n
  proof (cases "Suc n < length ss")
    case True
    with assms(3) show ?thesis by (simp add: halting_def min_def successively_conv_nth)
  next
    case False
    then have "min (Suc n) (length ss - 1) = min n (length ss - 1)" by simp
    then show ?thesis by (simp add: halting_def)
  qed
qed

lemma halting_stays: "length ss - 1 \<le> n \<Longrightarrow> ss \<noteq> [] \<Longrightarrow> halting ss n = last ss"
  by (simp add: halting_def last_conv_nth)

lemma halting_fair: "ss \<noteq> [] \<Longrightarrow> \<not> enabled act (last ss) \<Longrightarrow> weakly_fair act (halting ss)"
  unfolding weakly_fair_def by (metis halting_stays nat_le_linear)

section \<open>The rules\<close>

locale invariant_system =
  fixes init :: "'s \<Rightarrow> bool" and step :: "'s \<Rightarrow> 's \<Rightarrow> bool" and inv :: "'s \<Rightarrow> bool"
  assumes inv_init: "init s \<Longrightarrow> inv s"
    and inv_step: "inv s \<Longrightarrow> step s t \<Longrightarrow> inv t"
begin

lemma run_inv: "is_run init step \<sigma> \<Longrightarrow> inv (\<sigma> n)"
  by (induction n) (auto simp: is_run_def intro: inv_init dest: inv_step, metis inv_step)

text \<open>What every step keeps, the run keeps.\<close>

lemma run_stable:
  assumes "is_run init step \<sigma>" and "\<And>s t. inv s \<Longrightarrow> P s \<Longrightarrow> step s t \<Longrightarrow> P t" and "P (\<sigma> n)" and "n \<le> m"
  shows "P (\<sigma> m)"
  using assms(4)
proof (induction m rule: dec_induct)
  case (step m)
  then show ?case using assms(1,2) run_inv [OF assms(1)] unfolding is_run_def by metis
qed (rule assms(3))

text \<open>The helpful action leads to the goal, the other steps keep \<open>P\<close> until then.\<close>

lemma helpful_action:
  assumes run: "is_run init step \<sigma>" and fair: "weakly_fair act \<sigma>"
    and keep: "\<And>s t. inv s \<Longrightarrow> P s \<Longrightarrow> step s t \<Longrightarrow> P t \<or> Q t"
    and goal: "\<And>s t. inv s \<Longrightarrow> P s \<Longrightarrow> act s t \<Longrightarrow> Q t"
    and en: "\<And>s. inv s \<Longrightarrow> P s \<Longrightarrow> enabled act s \<or> Q s"
  shows "leads_to \<sigma> P Q"
  unfolding leads_to_def
proof (intro allI impI)
  fix n assume P: "P (\<sigma> n)"
  show "\<exists>m\<ge>n. Q (\<sigma> m)"
  proof (rule ccontr)
    assume "\<not> (\<exists>m\<ge>n. Q (\<sigma> m))"
    then have nQ: "\<not> Q (\<sigma> m)" if "m \<ge> n" for m using that by blast
    have PP: "P (\<sigma> m)" if "n \<le> m" for m
      using that
    proof (induction m rule: dec_induct)
      case (step m)
      then show ?case using run keep [OF run_inv [OF run]] nQ [of "Suc m"] unfolding is_run_def
        by (metis le_SucI)
    qed (rule P)
    from fair obtain m where "m \<ge> n" and m: "\<not> enabled act (\<sigma> m) \<or> act (\<sigma> m) (\<sigma> (Suc m))"
      unfolding weakly_fair_def by blast
    moreover have "enabled act (\<sigma> m)" using en [OF run_inv [OF run] PP] nQ \<open>m \<ge> n\<close> by blast
    ultimately have "Q (\<sigma> (Suc m))" using goal [OF run_inv [OF run] PP] by blast
    with nQ \<open>m \<ge> n\<close> show False by (meson le_SucI)
  qed
qed

text \<open>
  In every state some action is the helpful one: it lowers a measure, and the other steps either
  lower it too or leave both the measure and the choice of the helpful action as they are.
\<close>

lemma helpful_rank:
  fixes f :: "'s \<Rightarrow> nat" and h :: "'s \<Rightarrow> 'i"
  assumes run: "is_run init step \<sigma>" and fair: "\<And>s. inv s \<Longrightarrow> P s \<Longrightarrow> weakly_fair (act (h s)) \<sigma>"
    and keep: "\<And>s t. inv s \<Longrightarrow> P s \<Longrightarrow> step s t \<Longrightarrow> P t \<and> (f t < f s \<or> f t = f s \<and> h t = h s) \<or> Q t"
    and lower: "\<And>s t. inv s \<Longrightarrow> P s \<Longrightarrow> act (h s) s t \<Longrightarrow> P t \<and> f t < f s \<or> Q t"
    and en: "\<And>s. inv s \<Longrightarrow> P s \<Longrightarrow> enabled (act (h s)) s \<or> Q s"
  shows "leads_to \<sigma> P Q"
proof -
  have "\<exists>m\<ge>n. Q (\<sigma> m)" if "P (\<sigma> n)" for n
    using that
  proof (induction "f (\<sigma> n)" arbitrary: n rule: less_induct)
    case less
    let ?P = "\<lambda>s. P s \<and> f s = f (\<sigma> n) \<and> h s = h (\<sigma> n)" and ?Q = "\<lambda>s. Q s \<or> P s \<and> f s < f (\<sigma> n)"
    have "leads_to \<sigma> ?P ?Q"
    proof (rule helpful_action [OF run, where act = "act (h (\<sigma> n))"])
      show "weakly_fair (act (h (\<sigma> n))) \<sigma>" using fair [OF run_inv [OF run] less.prems] .
    qed (use keep lower en in \<open>metis, metis, metis\<close>)
    then obtain m where m: "m \<ge> n" "?Q (\<sigma> m)" using less.prems by (auto dest: leads_toD)
    show ?case
    proof (cases "Q (\<sigma> m)")
      case False
      with m less.hyps [of m] show ?thesis by (meson le_trans)
    qed (use m in blast)
  qed
  then show ?thesis by (simp add: leads_to_def)
qed

text \<open>One helpful action that lowers a measure no other step raises.\<close>

lemma helpful_measure:
  fixes f :: "'s \<Rightarrow> nat"
  assumes run: "is_run init step \<sigma>" and fair: "weakly_fair act \<sigma>"
    and keep: "\<And>s t. inv s \<Longrightarrow> P s \<Longrightarrow> step s t \<Longrightarrow> P t \<and> f t \<le> f s \<or> Q t"
    and lower: "\<And>s t. inv s \<Longrightarrow> P s \<Longrightarrow> act s t \<Longrightarrow> P t \<and> f t < f s \<or> Q t"
    and en: "\<And>s. inv s \<Longrightarrow> P s \<Longrightarrow> enabled act s \<or> Q s"
  shows "leads_to \<sigma> P Q"
  by (rule helpful_rank [OF run, where act = "\<lambda>_::unit. act" and h = "\<lambda>_. ()" and f = f])
    (use fair keep lower en in \<open>auto simp: le_less\<close>)

text \<open>Several goals that stay reached once they are reached are all reached.\<close>

lemma all_goals:
  fixes Q :: "nat \<Rightarrow> 's \<Rightarrow> bool"
  assumes run: "is_run init step \<sigma>" and each: "\<And>i. i < k \<Longrightarrow> leads_to \<sigma> P (Q i)"
    and stable: "\<And>i s t. inv s \<Longrightarrow> Q i s \<Longrightarrow> step s t \<Longrightarrow> Q i t"
  shows "leads_to \<sigma> P (\<lambda>s. \<forall>i<k. Q i s)"
  using each
proof (induction k)
  case 0
  show ?case by (rule leads_to_weaken) simp
next
  case (Suc k)
  show ?case
    unfolding leads_to_def
  proof (intro allI impI)
    fix n assume P: "P (\<sigma> n)"
    have "leads_to \<sigma> P (\<lambda>s. \<forall>i<k. Q i s)" by (rule Suc.IH) (simp add: Suc.prems)
    then obtain m where m: "m \<ge> n" "\<forall>i<k. Q i (\<sigma> m)" using P by (auto dest: leads_toD)
    obtain m' where m': "m' \<ge> n" "Q k (\<sigma> m')" using P leads_toD [OF Suc.prems [OF lessI]] by auto
    have st: "Q i (\<sigma> b)" if "Q i (\<sigma> a)" "a \<le> b" for i a b
      using run stable that(1,2) by (rule run_stable [where P = "Q i"])
    have "\<forall>i<Suc k. Q i (\<sigma> (max m m'))" using m(2) m'(2) st by (auto simp: less_Suc_eq)
    with m(1) show "\<exists>m\<ge>n. \<forall>i<Suc k. Q i (\<sigma> m)" by (intro exI [of _ "max m m'"]) auto
  qed
qed

end

end
