(* ===== verification/Goroutine_Liveness.thy ===== *)
theory Goroutine_Liveness
  imports Publisher_Goroutines Fairness
begin

text \<open>
  \<open>Close\<close> comes to its end at the level of goroutines and locks. The argument names, for each state
  of a \<open>Close\<close> in progress, the goroutine that has to move next: a sender or a ping inside a lock
  that \<open>Close\<close> waits for, the translating goroutine, the report goroutine, or \<open>Close\<close> itself. New
  callers and the client library may step at any time or never.
\<close>

section \<open>Fair runs\<close>

definition fair_full_run :: "verb_fmt \<Rightarrow> config \<Rightarrow> (nat \<Rightarrow> full) \<Rightarrow> bool" where
  "fair_full_run quote built \<sigma> \<longleftrightarrow>
     is_run (\<lambda>s. s = init_full built) (full_step quote) \<sigma>
     \<and> (\<forall>a. a \<noteq> Caller \<and> a \<noteq> Client \<longrightarrow> weakly_fair (full_act quote a) \<sigma>)"

fun phase_no :: "phase \<Rightarrow> nat" where
  "phase_no NotCalled = 0"
| "phase_no Called = 1"
| "phase_no DrainLoop = 2"
| "phase_no (Counted _) = 3"
| "phase_no (WantsHandle _) = 4"
| "phase_no (Flagged _) = 5"
| "phase_no (AdminClosed _) = 6"
| "phase_no (ClientClosed _) = 7"
| "phase_no (Finished _) = 8"

text \<open>Who has to move for a \<open>Close\<close> that waits, and how far it is from getting on.\<close>

definition lock_helper :: "full \<Rightarrow> agent" where
  "lock_helper s = (case f_sending s of [] \<Rightarrow> Closer | i # _ \<Rightarrow> Sender i)"

definition lock_rank :: "full \<Rightarrow> nat" where
  "lock_rank s = 2 * length (f_sending s) - length (f_producing s)"

definition handle_helper :: "full \<Rightarrow> agent" where
  "handle_helper s = (if f_describing s = 0 then Closer else Pinger)"

definition end_helper :: "full \<Rightarrow> agent" where
  "end_helper s =
     (if f_settling s \<noteq> None then Reader
      else if f_reports s \<noteq> None \<or> f_events s \<noteq> [] \<or> \<not> f_translated s then Translator
      else if \<not> f_settled s then Reader else Closer)"

definition end_rank :: "full \<Rightarrow> nat" where
  "end_rank s =
     3 * length (f_events s) + (if f_reports s = None then 0 else 2) + (if f_settling s = None then 0 else 1)
     + (if f_translated s then 0 else 1) + (if f_settled s then 0 else 1)"

section \<open>Lemmas\<close>

interpretation full_sys: invariant_system "\<lambda>s. s = init_full built" "full_step quote" "full_inv quote" for built quote
  by unfold_locales (auto simp: full_step_def intro: full_inv_init full_act_inv)

lemma phase_no_eqs:
  "phase_no ph = 1 \<longleftrightarrow> ph = Called" "phase_no ph = 2 \<longleftrightarrow> ph = DrainLoop" "phase_no ph = 3 \<longleftrightarrow> (\<exists>n. ph = Counted n)"
  "phase_no ph = 4 \<longleftrightarrow> (\<exists>n. ph = WantsHandle n)" "phase_no ph = 5 \<longleftrightarrow> (\<exists>n. ph = Flagged n)"
  "phase_no ph = 6 \<longleftrightarrow> (\<exists>n. ph = AdminClosed n)" "phase_no ph = 7 \<longleftrightarrow> (\<exists>n. ph = ClientClosed n)"
  "phase_no ph = 8 \<longleftrightarrow> (\<exists>err. ph = Finished err)"
  by (cases ph; simp)+

text \<open>Only \<open>Close\<close> moves its own phase, one at a time.\<close>

lemma phase_steps:
  "full_act quote a s t \<Longrightarrow> phase_no (f_phase t) = phase_no (f_phase s)
     \<or> phase_no (f_phase t) = Suc (phase_no (f_phase s)) \<and> (a = Closer \<or> f_phase s = NotCalled)"
  by (cases rule: full_act.cases) auto

lemma closer_moves: "full_act quote Closer s t \<Longrightarrow> phase_no (f_phase t) = Suc (phase_no (f_phase s))"
  by (cases rule: full_act.cases) auto

lemma closer_enabled:
  "f_phase s = DrainLoop \<Longrightarrow> enabled (full_act quote Closer) s"
  "f_phase s = Counted n \<Longrightarrow> enabled (full_act quote Closer) s"
  "f_phase s = Flagged n \<Longrightarrow> enabled (full_act quote Closer) s"
  "f_phase s = AdminClosed n \<Longrightarrow> enabled (full_act quote Closer) s"
  unfolding enabled_def by (blast intro: full_act.intros)+

text \<open>A phase in which \<open>Close\<close> waits for nobody.\<close>

lemma phase_leads:
  assumes run: "fair_full_run quote built \<sigma>" and k: "k \<in> {2, 3, 5, 6}"
  shows "leads_to \<sigma> (\<lambda>s. phase_no (f_phase s) = k) (\<lambda>s. phase_no (f_phase s) = Suc k)"
proof (rule full_sys.helpful_action [where act = "full_act quote Closer"])
  show "is_run (\<lambda>s. s = init_full built) (full_step quote) \<sigma>" "weakly_fair (full_act quote Closer) \<sigma>"
    using run by (simp_all add: fair_full_run_def)
  show "enabled (full_act quote Closer) s \<or> phase_no (f_phase s) = Suc k" if "phase_no (f_phase s) = k" for s
    using that k closer_enabled by (auto simp: phase_no_eqs)
qed (use phase_steps closer_moves in \<open>auto simp: full_step_def\<close>)

subsection \<open>The two locks\<close>

lemma producing_shorter:
  assumes "full_inv quote s"
  shows "length (f_producing s) \<le> length (f_sending s)"
proof -
  have "card (set (f_producing s)) \<le> card (set (f_sending s))"
    using assms by (intro card_mono) (auto simp: full_inv_def)
  with assms show ?thesis by (simp add: full_inv_def sys_inv_def distinct_card)
qed

text \<open>Every step of a sender brings it nearer to its release of the lock.\<close>

lemma sender_lowers:
  assumes inv: "full_inv quote s" and ph: "f_phase s = Called" and act: "full_act quote (Sender i) s t"
  shows "f_phase t = Called \<and> lock_rank t < lock_rank s"
proof -
  have sub: "set (f_producing s) \<subseteq> set (f_sending s)" "\<not> f_closed s" using inv ph by (auto simp: full_inv_def)
  have left: "lock_rank t < lock_rank s"
    if "i \<in> set (f_producing s)" "f_sending t = remove1 i (f_sending s)" "f_producing t = remove1 i (f_producing s)"
  proof -
    have i: "0 < length (f_producing s)" "i \<in> set (f_sending s)" using that(1) sub by auto
    have "2 * (length (f_sending s) - 1) - (length (f_producing s) - 1) < 2 * length (f_sending s) - length (f_producing s)"
      using i(1) producing_shorter [OF inv] by arith
    with that i(2) show ?thesis by (simp add: lock_rank_def length_remove1)
  qed
  from act show ?thesis
  proof cases
    case produce
    then have "length (f_producing s) < length (f_sending s)"
      using producing_shorter [OF full_act_inv [OF inv act]] by simp
    then have "lock_rank t < lock_rank s" using produce by (simp add: lock_rank_def)
    with produce ph show ?thesis by simp
  qed (use ph sub left in auto)
qed

lemma lock_keep:
  assumes inv: "full_inv quote s" and ph: "f_phase s = Called" and act: "full_act quote a s t"
  shows "f_phase t = Called \<and> (lock_rank t < lock_rank s \<or> lock_rank t = lock_rank s \<and> lock_helper t = lock_helper s)
    \<or> f_phase t = DrainLoop"
proof (cases "\<exists>i. a = Sender i")
  case True
  with act sender_lowers [OF inv ph] show ?thesis by blast
next
  case False
  with act show ?thesis by cases (use ph in \<open>auto simp: lock_rank_def lock_helper_def\<close>)
qed

lemma lock_lower:
  assumes inv: "full_inv quote s" and ph: "f_phase s = Called" and act: "full_act quote (lock_helper s) s t"
  shows "f_phase t = Called \<and> lock_rank t < lock_rank s \<or> f_phase t = DrainLoop"
proof (cases "f_sending s")
  case Nil
  with act have "full_act quote Closer s t" by (simp add: lock_helper_def)
  then show ?thesis by cases (use ph in auto)
next
  case (Cons i js)
  with act sender_lowers [OF inv ph] show ?thesis by (auto simp: lock_helper_def)
qed

lemma lock_enabled:
  assumes inv: "full_inv quote s" and ph: "f_phase s = Called"
  shows "enabled (full_act quote (lock_helper s)) s"
proof (cases "f_sending s")
  case Nil
  then show ?thesis
    using full_act.close_locks [OF ph Nil] by (auto simp: enabled_def lock_helper_def)
next
  case (Cons i js)
  have "\<not> f_closed s" using inv ph by (simp add: full_inv_def)
  with ph Cons full_act.produce [of i s] full_act.client_refuses [of i s] show ?thesis
    by (cases "i \<in> set (f_producing s)") (auto simp: enabled_def lock_helper_def)
qed

text \<open>The read lock of every sender inside is released, and \<open>Close\<close> gets the publisher's write lock.\<close>

lemma lock_leads:
  assumes run: "fair_full_run quote built \<sigma>"
  shows "leads_to \<sigma> (\<lambda>s. f_phase s = Called) (\<lambda>s. phase_no (f_phase s) = 2)"
proof (rule full_sys.helpful_rank [where act = "full_act quote" and h = lock_helper and f = lock_rank])
  show "is_run (\<lambda>s. s = init_full built) (full_step quote) \<sigma>" using run by (simp add: fair_full_run_def)
  show "weakly_fair (full_act quote (lock_helper s)) \<sigma>" for s
    using run by (auto simp: fair_full_run_def lock_helper_def split: list.split)
qed (use lock_keep lock_lower lock_enabled in \<open>fastforce simp: full_step_def phase_no_eqs\<close>)+

text \<open>The pings inside return, and \<open>Close\<close> gets the driver's write lock.\<close>

lemma no_senders:
  assumes "full_inv quote s" and "2 \<le> phase_no (f_phase s)"
  shows "f_sending s = []" and "f_producing s = []" and "closed (f_pub s)"
proof -
  show c: "closed (f_pub s)" using assms by (cases "f_phase s") (auto simp: full_inv_def sys_inv_def)
  with assms(1) show "f_sending s = []" "f_producing s = []" by (auto simp: full_inv_def sys_inv_def)
qed

lemma handle_keep:
  assumes inv: "full_inv quote s" and ph: "f_phase s = WantsHandle n" and act: "full_act quote a s t"
  shows "(\<exists>n. f_phase t = WantsHandle n) \<and> (f_describing t < f_describing s
      \<or> f_describing t = f_describing s \<and> handle_helper t = handle_helper s) \<or> phase_no (f_phase t) = 5"
  using act by cases (use ph in \<open>auto simp: handle_helper_def\<close>)

lemma handle_leads:
  assumes run: "fair_full_run quote built \<sigma>"
  shows "leads_to \<sigma> (\<lambda>s. phase_no (f_phase s) = 4) (\<lambda>s. phase_no (f_phase s) = 5)"
proof (rule full_sys.helpful_rank [where act = "full_act quote" and h = handle_helper and f = f_describing])
  show "is_run (\<lambda>s. s = init_full built) (full_step quote) \<sigma>" using run by (simp add: fair_full_run_def)
  show "weakly_fair (full_act quote (handle_helper s)) \<sigma>" for s
    using run by (auto simp: fair_full_run_def handle_helper_def)
  show "phase_no (f_phase t) = 4 \<and> (f_describing t < f_describing s \<or> f_describing t = f_describing s \<and> handle_helper t = handle_helper s)
      \<or> phase_no (f_phase t) = 5" if "full_inv quote s" "phase_no (f_phase s) = 4" "full_step quote s t" for s t
    using that handle_keep [of quote s _ _ t] by (auto simp: phase_no_eqs full_step_def)
  show "phase_no (f_phase t) = 4 \<and> f_describing t < f_describing s \<or> phase_no (f_phase t) = 5"
    if "full_inv quote s" "phase_no (f_phase s) = 4" "full_act quote (handle_helper s) s t" for s t
    using that(3,2) by cases (auto simp: phase_no_eqs handle_helper_def split: if_splits)
  show "enabled (full_act quote (handle_helper s)) s \<or> phase_no (f_phase s) = 5"
    if inv: "full_inv quote s" and ph: "phase_no (f_phase s) = 4" for s
  proof (cases "f_describing s")
    case 0
    have "f_producing s = []" using no_senders(2) [OF inv] ph by simp
    with 0 ph full_act.close_flags [of s _ quote] show ?thesis
      by (auto simp: phase_no_eqs enabled_def handle_helper_def)
  next
    case (Suc n)
    with full_act.ping_return [of s n quote] show ?thesis by (auto simp: enabled_def handle_helper_def)
  qed
qed

subsection \<open>The goroutines\<close>

lemma end_keep:
  assumes inv: "full_inv quote s" and ph: "f_phase s = ClientClosed n" and act: "full_act quote a s t"
  shows "(\<exists>n. f_phase t = ClientClosed n) \<and> (end_rank t < end_rank s
      \<or> end_rank t = end_rank s \<and> end_helper t = end_helper s) \<or> phase_no (f_phase t) = 8"
proof -
  have cl: "f_sending s = []" "f_producing s = []" "closed (f_pub s)" "f_closed s" "f_describing s = 0"
    using no_senders [OF inv] inv ph by (auto simp: full_inv_def)
  from act show ?thesis
  proof cases
    case (send_call r i p')
    with cl show ?thesis by (simp add: enqueue_begin_Inr)
  next
    case (translator_takes ev evs)
    then show ?thesis using ph by (auto simp: end_rank_def)
  qed (use ph cl in \<open>auto simp: end_rank_def\<close>)
qed

lemma end_enabled:
  assumes inv: "full_inv quote s" and ph: "f_phase s = ClientClosed n"
  shows "enabled (full_act quote (end_helper s)) s"
proof -
  consider ev where "f_settling s = Some ev" | ev where "f_settling s = None" "f_reports s = Some ev"
    | ev evs where "f_settling s = None" "f_reports s = None" "f_events s = ev # evs"
    | "f_settling s = None" "f_reports s = None" "f_events s = []" "\<not> f_translated s"
    | "f_settling s = None" "f_reports s = None" "f_events s = []" "f_translated s" "\<not> f_settled s"
    | "f_settling s = None" "f_reports s = None" "f_events s = []" "f_translated s" "f_settled s"
    by (metis list.exhaust option.exhaust)
  then show ?thesis
  proof cases
    case 1
    obtain p' where "handle_event ev (f_pub s) = Some p'" using handle_event_total by blast
    with 1 full_act.reader_settles [of s ev p' quote] show ?thesis by (auto simp: enabled_def end_helper_def)
  next
    case 2
    with full_act.hand_over [of s ev quote] show ?thesis by (auto simp: enabled_def end_helper_def)
  next
    case 3
    with full_act.translator_takes [of s ev evs quote] show ?thesis by (auto simp: enabled_def end_helper_def)
  next
    case 4
    with ph full_act.translator_ends [of s quote] show ?thesis by (auto simp: enabled_def end_helper_def)
  next
    case 5
    with full_act.reader_ends [of s quote] show ?thesis by (auto simp: enabled_def end_helper_def)
  next
    case 6
    with ph full_act.close_returns [of s n _ quote] show ?thesis by (auto simp: enabled_def end_helper_def)
  qed
qed

text \<open>What is left in the events channel is translated, handed over and settled; then \<open>Close\<close> returns.\<close>

lemma end_leads:
  assumes run: "fair_full_run quote built \<sigma>"
  shows "leads_to \<sigma> (\<lambda>s. phase_no (f_phase s) = 7) (\<lambda>s. phase_no (f_phase s) = 8)"
proof (rule full_sys.helpful_rank [where act = "full_act quote" and h = end_helper and f = end_rank])
  show "is_run (\<lambda>s. s = init_full built) (full_step quote) \<sigma>" using run by (simp add: fair_full_run_def)
  show "weakly_fair (full_act quote (end_helper s)) \<sigma>" for s
    using run by (auto simp: fair_full_run_def end_helper_def)
  show "phase_no (f_phase t) = 7 \<and> (end_rank t < end_rank s \<or> end_rank t = end_rank s \<and> end_helper t = end_helper s)
      \<or> phase_no (f_phase t) = 8" if "full_inv quote s" "phase_no (f_phase s) = 7" "full_step quote s t" for s t
    using that end_keep [of quote s _ _ t] by (auto simp: phase_no_eqs full_step_def)
  show "phase_no (f_phase t) = 7 \<and> end_rank t < end_rank s \<or> phase_no (f_phase t) = 8"
    if "full_inv quote s" "phase_no (f_phase s) = 7" "full_act quote (end_helper s) s t" for s t
    using that(3,2) by cases (auto simp: phase_no_eqs end_helper_def end_rank_def split: if_splits)
qed (use end_enabled in \<open>auto simp: phase_no_eqs\<close>)

lemma close_leads_end:
  assumes run: "fair_full_run quote built \<sigma>" and k: "1 \<le> k" "k \<le> 8"
  shows "leads_to \<sigma> (\<lambda>s. phase_no (f_phase s) = k) (\<lambda>s. phase_no (f_phase s) = 8)"
  using k(2,1)
proof (induction k rule: inc_induct)
  case base
  show ?case by (rule leads_to_weaken)
next
  case (step k)
  have "leads_to \<sigma> (\<lambda>s. phase_no (f_phase s) = k) (\<lambda>s. phase_no (f_phase s) = Suc k)"
  proof (cases "k \<in> {2, 3, 5, 6}")
    case True
    then show ?thesis by (rule phase_leads [OF run])
  next
    case False
    with step.hyps step.prems have "k = 1 \<or> k = 4 \<or> k = 7" by auto
    with lock_leads [OF run, folded phase_no_eqs(1)] handle_leads [OF run] end_leads [OF run] show ?thesis
      by (auto simp: eval_nat_numeral)
  qed
  from leads_to_trans [OF this step.IH] step.prems show ?case by simp
qed

section \<open>Properties\<close>

text \<open>
  C14: a call of \<open>Close\<close> returns. On every run in which no goroutine is starved once it can move,
  senders and pings inside the locks included, a \<open>Close\<close> that was called gets the lock of the
  publisher and that of the driver, the events the client left are translated, handed over and
  settled, and \<open>Close\<close> returns with every accepted record resolved or dropped with the client. So
  neither the locks nor the unbuffered channel between the two goroutines can block it for ever,
  whoever else still calls and whatever the client still reports.
\<close>

theorem called_close_returns:
  assumes "fair_full_run quote built \<sigma>" and "f_phase (\<sigma> n) \<noteq> NotCalled"
  shows "\<exists>m\<ge>n. (\<exists>err. f_phase (\<sigma> m) = Finished err \<and> closeErr (f_pub (\<sigma> m)) = err)
    \<and> (\<forall>i. i \<in> set (f_accepted (\<sigma> m)) \<longrightarrow> done_id (f_pub (\<sigma> m)) i \<or> i \<in> set (f_dropped (\<sigma> m)))"
proof -
  let ?k = "phase_no (f_phase (\<sigma> n))"
  have "1 \<le> ?k" "?k \<le> 8" using assms(2) by (cases "f_phase (\<sigma> n)"; simp)+
  from leads_toD [OF close_leads_end [OF assms(1) this], of n]
  obtain m err where m: "m \<ge> n" "f_phase (\<sigma> m) = Finished err" by (auto simp: phase_no_eqs)
  have "full_inv quote (\<sigma> m)" using assms(1) by (intro full_sys.run_inv [of built]) (simp add: fair_full_run_def)
  with m(2) have "closeErr (f_pub (\<sigma> m)) = err
      \<and> (\<forall>i. i \<in> set (f_accepted (\<sigma> m)) \<longrightarrow> done_id (f_pub (\<sigma> m)) i \<or> i \<in> set (f_dropped (\<sigma> m)))"
    by (auto simp: full_inv_def sys_inv_def in_flight_def)
  with m show ?thesis by blast
qed

lemma wit_full_fair: "fair_full_run wit_quote wit_built (halting wit_full)"
proof -
  let ?last = "(g_closing (Finished None))\<lparr>f_translated := True, f_settled := True\<rparr>"
  have "\<not> full_act wit_quote a ?last t" if "a \<noteq> Caller" "a \<noteq> Client" for a t
  proof
    assume "full_act wit_quote a ?last t"
    then show False by cases (use that in \<open>auto simp: g_defs\<close>)
  qed
  then have "weakly_fair (full_act wit_quote a) (halting wit_full)" if "a \<noteq> Caller" "a \<noteq> Client" for a
    using that by (intro halting_fair) (auto simp: wit_full_def enabled_def)
  moreover have "is_run (\<lambda>s. s = init_full wit_built) (full_step wit_quote) (halting wit_full)"
    by (rule halting_run [OF _ _ wit_full_steps]) (simp_all add: wit_full_def g_start_def)
  ultimately show ?thesis by (simp add: fair_full_run_def)
qed

theorem called_close_returns_witness:
  "\<exists>m\<ge>8. \<exists>err. f_phase (halting wit_full m) = Finished err"
proof -
  have "f_phase (halting wit_full 8) \<noteq> NotCalled" by (simp add: halting_def wit_full_def)
  from called_close_returns [OF wit_full_fair this] show ?thesis by blast
qed

end
