(* ===== verification/Publisher_Liveness.thy ===== *)
theory Publisher_Liveness
  imports Publisher_Properties Fairness
begin

text \<open>
  What the publisher's goroutines get done when each is scheduled fairly. The actions that must not
  starve are the report goroutine, the goroutine in \<open>Close\<close> and, for a delivery, the driver that
  reports its record; senders and the client's own errors may come at any time or never.
\<close>

section \<open>The actions\<close>

inductive read_step :: "sys \<Rightarrow> sys \<Rightarrow> bool" where
  "chan s = ev # evs \<Longrightarrow> handle_event ev (pub s) = Some p' \<Longrightarrow> read_step s (s\<lparr>pub := p', chan := evs\<rparr>)"

inductive report_step :: "nat \<Rightarrow> sys \<Rightarrow> sys \<Rightarrow> bool" for i :: nat where
  "i \<in> set (pending s) \<Longrightarrow> Token rep = DeliveryToken i \<Longrightarrow> driver_open (stage s) \<Longrightarrow>
     report_step i s (s\<lparr>pending := remove1 i (pending s), chan := chan s @ [Report rep]\<rparr>)"

text \<open>The goroutine in \<open>Close\<close>, from the drain loop to the return.\<close>

inductive close_step :: "sys \<Rightarrow> sys \<Rightarrow> bool" where
  "stage s = Draining \<Longrightarrow> length (pending s) \<le> remaining \<Longrightarrow>
     close_step s (s\<lparr>stage := Drained remaining, pub := purge_lines remaining perr (pub s)\<rparr>)"
| "stage s = Drained n \<Longrightarrow> close_step s (s\<lparr>stage := DriverClosed n, dropped := pending s, pending := []\<rparr>)"
| "stage s = DriverClosed n \<Longrightarrow> chan s = [] \<Longrightarrow>
     err = errors_Join (close_failures (int n) (fatal (pub s))) \<Longrightarrow>
     close_step s (s\<lparr>stage := Returned err, pub := (pub s)\<lparr>closeErr := err\<rparr>\<rparr>)"

inductive_simps read_step_iff: "read_step s t"
inductive_simps report_step_iff: "report_step i s t"
inductive_simps close_step_iff: "close_step s t"

definition scheduled_run :: "config \<Rightarrow> (nat \<Rightarrow> sys) \<Rightarrow> bool" where
  "scheduled_run built \<sigma> \<longleftrightarrow>
     is_run (\<lambda>s. s = init_sys built) pub_step \<sigma> \<and> weakly_fair read_step \<sigma> \<and> weakly_fair close_step \<sigma>"

text \<open>The driver's promise: no accepted record stays pending for ever.\<close>

definition reporting_driver :: "(nat \<Rightarrow> sys) \<Rightarrow> bool" where
  "reporting_driver \<sigma> \<longleftrightarrow> (\<forall>i. weakly_fair (report_step i) \<sigma>)"

definition settled_in :: "nat \<Rightarrow> sys \<Rightarrow> bool" where
  "settled_in i s \<longleftrightarrow> done_id (pub s) i \<or> i \<in> set (dropped s)"

text \<open>How many events the report goroutine reads before the one of delivery \<open>i\<close>.\<close>

definition ahead_of :: "nat \<Rightarrow> sys \<Rightarrow> nat" where
  "ahead_of i s = length (takeWhile (\<lambda>ev. event_id ev \<noteq> Some i) (chan s))"

section \<open>Lemmas\<close>

text \<open>The actions are steps of the system.\<close>

lemma action_steps:
  "read_step s t \<Longrightarrow> pub_step s t" "report_step i s t \<Longrightarrow> pub_step s t" "close_step s t \<Longrightarrow> pub_step s t"
  by (auto simp: read_step_iff report_step_iff close_step_iff intro: pub_step.intros)

interpretation pub_sys: invariant_system "\<lambda>s. s = init_sys built" pub_step sys_inv for built
  by unfold_locales (auto intro: sys_inv_init pub_step_inv)

text \<open>In a reachable state the report goroutine can take the event in front of it.\<close>

lemma read_enabled: "chan s \<noteq> [] \<Longrightarrow> enabled read_step s"
  using handle_event_total by (fastforce simp: enabled_def read_step_iff neq_Nil_conv)

lemma report_enabled: "i \<in> set (pending s) \<Longrightarrow> sys_inv s \<Longrightarrow> enabled (report_step i) s"
proof -
  assume i: "i \<in> set (pending s)" and "sys_inv s"
  then have "driver_open (stage s)" by (cases "stage s") (auto simp: sys_inv_def)
  moreover obtain rep :: report where "Token rep = DeliveryToken i"
    by (metis report.select_convs(1))
  ultimately show ?thesis using i by (auto simp: enabled_def report_step_iff)
qed

lemma close_enabled:
  "stage s = Draining \<Longrightarrow> enabled close_step s" "stage s = Drained n \<Longrightarrow> enabled close_step s"
  "stage s = DriverClosed n \<Longrightarrow> chan s = [] \<Longrightarrow> enabled close_step s"
  by (auto simp: enabled_def close_step_iff)

subsection \<open>A delivery on its way to its outcome\<close>

text \<open>A pending record stays pending until it is reported or dropped.\<close>

lemma pending_step:
  assumes "pub_step s t" and "sys_inv s" and "i \<in> set (pending s)"
  shows "i \<in> set (pending t) \<or> i \<in> set (chan_ids (chan t)) \<or> i \<in> set (dropped t)"
  using assms
proof (induction rule: pub_step.induct)
  case (report j s rep)
  then show ?case by (cases "i = j") auto
qed auto

text \<open>A report in the channel moves to the front, and is read there.\<close>

lemma ahead_append: "i \<in> set (chan_ids evs) \<Longrightarrow>
    takeWhile (\<lambda>ev. event_id ev \<noteq> Some i) (evs @ evs') = takeWhile (\<lambda>ev. event_id ev \<noteq> Some i) evs"
  by (induction evs) (auto split: option.splits)

lemma read_progress:
  assumes "sys_inv s" and "chan s = ev # evs" and "handle_event ev (pub s) = Some p'"
    and "i \<in> set (chan_ids (chan s))"
  shows "i \<in> set (chan_ids evs) \<and> ahead_of i (s\<lparr>pub := p', chan := evs\<rparr>) < ahead_of i s \<or> done_id p' i"
proof (cases "event_id ev = Some i")
  case True
  then obtain rep where ev: "ev = Report rep" and tok: "Token rep = DeliveryToken i"
    by (cases ev) (auto split: token.splits)
  have "i < length (deliveries (pub s))" "\<not> done_id (pub s) i"
    using assms(1,4) by (auto simp: sys_inv_def in_flight_def)
  from done_id_read(1) [OF assms(3) [unfolded ev] tok this] show ?thesis by simp
next
  case False
  with assms(2,4) show ?thesis by (auto simp: ahead_of_def split: option.splits)
qed

lemma chan_step:
  assumes "pub_step s t" and "sys_inv s" and "i \<in> set (chan_ids (chan s))"
  shows "(i \<in> set (chan_ids (chan t)) \<and> ahead_of i t \<le> ahead_of i s) \<or> done_id (pub t) i"
  using assms
proof (induction rule: pub_step.induct)
  case (read s ev evs p')
  with read_progress [of s ev evs p' i] show ?case by auto
qed (simp_all add: ahead_of_def ahead_append)

lemma pending_leads:
  assumes "scheduled_run built \<sigma>" and "reporting_driver \<sigma>"
  shows "leads_to \<sigma> (\<lambda>s. i \<in> set (pending s)) (\<lambda>s. i \<in> set (chan_ids (chan s)) \<or> settled_in i s)"
proof (rule pub_sys.helpful_action [of built])
  show "is_run (\<lambda>s. s = init_sys built) pub_step \<sigma>" "weakly_fair (report_step i) \<sigma>"
    using assms by (simp_all add: scheduled_run_def reporting_driver_def)
qed (auto simp: settled_in_def report_enabled report_step_iff dest: pending_step)

lemma chan_leads:
  assumes "scheduled_run built \<sigma>"
  shows "leads_to \<sigma> (\<lambda>s. i \<in> set (chan_ids (chan s))) (settled_in i)"
proof (rule pub_sys.helpful_measure [of built _ read_step _ "ahead_of i"])
  show "is_run (\<lambda>s. s = init_sys built) pub_step \<sigma>" "weakly_fair read_step \<sigma>"
    using assms by (simp_all add: scheduled_run_def)
  show "i \<in> set (chan_ids (chan t)) \<and> ahead_of i t < ahead_of i s \<or> settled_in i t"
    if "sys_inv s" "i \<in> set (chan_ids (chan s))" "read_step s t" for s t
    using that by (auto simp: settled_in_def read_step_iff dest: read_progress)
  show "enabled read_step s \<or> settled_in i s" if "sys_inv s" "i \<in> set (chan_ids (chan s))" for s
    using that read_enabled [of s] by (cases "chan s") simp_all
qed (auto simp: settled_in_def dest: chan_step)

subsection \<open>\<open>Close\<close> on its way to its return\<close>

definition is_drained :: "sys \<Rightarrow> bool" where
  "is_drained s \<longleftrightarrow> (\<exists>n. stage s = Drained n)"

definition driver_is_closed :: "sys \<Rightarrow> bool" where
  "driver_is_closed s \<longleftrightarrow> (\<exists>n. stage s = DriverClosed n)"

definition has_returned :: "sys \<Rightarrow> bool" where
  "has_returned s \<longleftrightarrow> (\<exists>err. stage s = Returned err)"

lemmas stage_pred_defs = is_drained_def driver_is_closed_def has_returned_def

text \<open>Each stage is left only for the next one; after the driver is closed the channel only shrinks.\<close>

lemma closed_stage: "sys_inv s \<Longrightarrow> stage s \<noteq> Running \<Longrightarrow> closed (pub s)"
  by (cases "stage s") (auto simp: sys_inv_def)

lemma stage_steps:
  assumes "pub_step s t" and "sys_inv s"
  shows "stage s = Draining \<Longrightarrow> stage t = Draining \<or> is_drained t"
    and "is_drained s \<Longrightarrow> is_drained t \<or> driver_is_closed t"
    and "driver_is_closed s \<Longrightarrow> driver_is_closed t \<and> length (chan t) \<le> length (chan s) \<or> has_returned t"
  using assms by (induction rule: pub_step.induct) (auto simp: stage_pred_defs dest: closed_stage)

lemma close_leads:
  assumes "scheduled_run built \<sigma>"
  shows "leads_to \<sigma> (\<lambda>s. sys_inv s \<and> closed (pub s)) has_returned"
proof -
  have run: "is_run (\<lambda>s. s = init_sys built) pub_step \<sigma>"
    and rd: "weakly_fair read_step \<sigma>" and cl: "weakly_fair close_step \<sigma>"
    using assms by (simp_all add: scheduled_run_def)
  have 1: "leads_to \<sigma> (\<lambda>s. stage s = Draining) is_drained"
    by (rule pub_sys.helpful_action [OF run cl])
      (auto dest: stage_steps(1), auto simp: close_step_iff close_enabled stage_pred_defs)
  have 2: "leads_to \<sigma> is_drained driver_is_closed"
    by (rule pub_sys.helpful_action [OF run cl])
      (auto dest: stage_steps(2), auto simp: close_step_iff close_enabled stage_pred_defs)
  let ?q = "\<lambda>s. driver_is_closed s \<and> chan s = [] \<or> has_returned s"
  have 3: "leads_to \<sigma> driver_is_closed ?q"
    by (rule pub_sys.helpful_measure [OF run rd, where f = "\<lambda>s. length (chan s)"])
      (use stage_steps(3) read_enabled in \<open>auto simp: read_step_iff driver_is_closed_def\<close>)
  have 4: "leads_to \<sigma> (\<lambda>s. driver_is_closed s \<and> chan s = []) has_returned"
    by (rule pub_sys.helpful_action [OF run cl])
      (use stage_steps(3) in fastforce, auto simp: close_step_iff close_enabled stage_pred_defs)
  have 34: "leads_to \<sigma> driver_is_closed has_returned"
    by (rule leads_to_trans [OF 3 leads_to_disj [OF 4 leads_to_weaken]])
  note 234 = leads_to_trans [OF 2 34]
  let ?any = "\<lambda>s. ((stage s = Draining \<or> is_drained s) \<or> driver_is_closed s) \<or> has_returned s"
  have "leads_to \<sigma> ?any has_returned"
    by (rule leads_to_disj [OF leads_to_disj [OF leads_to_disj [OF leads_to_trans [OF 1 234] 234] 34] leads_to_weaken])
  moreover have "?any s" if "sys_inv s" "closed (pub s)" for s
    using that by (cases "stage s") (auto simp: sys_inv_def stage_pred_defs)
  ultimately show ?thesis unfolding leads_to_def by blast
qed

section \<open>Properties\<close>

text \<open>
  C16: no delivery is left open for ever. On every run in which the report goroutine, \<open>Close\<close> and the
  driver's reports are not starved, each record that was accepted is at some later point resolved,
  or was dropped by the driver when \<open>Close\<close> shut it down; senders, client errors and a \<open>Close\<close> may
  interleave in any way.
\<close>

theorem accepted_delivery_settles:
  assumes "scheduled_run built \<sigma>" and "reporting_driver \<sigma>" and "i \<in> set (accepted (\<sigma> n))"
  shows "\<exists>m\<ge>n. done_id (pub (\<sigma> m)) i \<or> i \<in> set (dropped (\<sigma> m))"
proof -
  have "is_run (\<lambda>s. s = init_sys built) pub_step \<sigma>" using assms(1) by (simp add: scheduled_run_def)
  from pub_sys.run_inv [OF this] assms(3)
  have *: "(i \<in> set (pending (\<sigma> n)) \<or> i \<in> set (chan_ids (chan (\<sigma> n)))) \<or> settled_in i (\<sigma> n)"
    by (force simp: sys_inv_def in_flight_def settled_in_def)
  have c: "leads_to \<sigma> (\<lambda>s. i \<in> set (chan_ids (chan s))) (settled_in i)" by (rule chan_leads [OF assms(1)])
  have "leads_to \<sigma> (\<lambda>s. i \<in> set (chan_ids (chan s)) \<or> settled_in i s) (settled_in i)"
    by (rule leads_to_disj [OF c leads_to_weaken])
  note p = leads_to_trans [OF pending_leads [OF assms(1,2)] this]
  from * leads_toD [OF p, of n] leads_toD [OF c, of n] have "\<exists>m\<ge>n. settled_in i (\<sigma> m)" by blast
  then show ?thesis by (simp add: settled_in_def)
qed

definition wit_run :: "nat \<Rightarrow> sys" where
  "wit_run = halting wit_states"

lemma wit_run_scheduled: "scheduled_run wit_built wit_run" "reporting_driver wit_run"
proof -
  have last: "last wit_states = wit_returned" and ne: "wit_states \<noteq> []" by (simp_all add: wit_states_def)
  have "\<not> enabled read_step wit_returned" "\<not> enabled close_step wit_returned"
    "\<not> enabled (report_step i) wit_returned" for i
    by (auto simp: enabled_def read_step_iff close_step_iff report_step_iff wit_state_defs)
  then have fair: "weakly_fair read_step wit_run" "weakly_fair close_step wit_run"
    "weakly_fair (report_step i) wit_run" for i
    unfolding wit_run_def by (auto intro!: halting_fair simp: last ne)
  have "is_run (\<lambda>s. s = init_sys wit_built) pub_step wit_run"
    unfolding wit_run_def by (rule halting_run [OF _ _ wit_steps]) (simp_all add: wit_states_def)
  with fair show "scheduled_run wit_built wit_run" "reporting_driver wit_run"
    by (simp_all add: scheduled_run_def reporting_driver_def)
qed

lemma wit_run_states: "wit_run 2 = wit_sent" "wit_run 5 = wit_draining"
  by (simp_all add: wit_run_def halting_def wit_states_def)

theorem accepted_delivery_settles_witness:
  "\<exists>m\<ge>2. done_id (pub (wit_run m)) 0 \<or> 0 \<in> set (dropped (wit_run m))"
  by (rule accepted_delivery_settles [OF wit_run_scheduled]) (subst wit_run_states, simp add: wit_sent_def)

text \<open>
  A \<open>Close\<close> that has begun returns. With the report goroutine and the goroutine in \<open>Close\<close>
  scheduled fairly, the publisher reaches the return of \<open>Close\<close> whatever the driver reports and
  whoever still tries to send, and then every delivery ever handed out is resolved, or dropped with
  its record.
\<close>

lemma close_eventually_returns:
  assumes "scheduled_run built \<sigma>" and "closed (pub (\<sigma> n))"
  shows "\<exists>m\<ge>n. (\<exists>err. stage (\<sigma> m) = Returned err \<and> closeErr (pub (\<sigma> m)) = err)
    \<and> (\<forall>i. i \<in> set (accepted (\<sigma> m)) \<longrightarrow> done_id (pub (\<sigma> m)) i \<or> i \<in> set (dropped (\<sigma> m)))"
proof -
  have "is_run (\<lambda>s. s = init_sys built) pub_step \<sigma>" using assms(1) by (simp add: scheduled_run_def)
  note inv = pub_sys.run_inv [OF this]
  from leads_toD [OF close_leads [OF assms(1)], of n] inv assms(2)
  obtain m err where m: "m \<ge> n" "stage (\<sigma> m) = Returned err" by (auto simp: has_returned_def)
  with inv [of m] have "stage_inv (\<sigma> m) (Returned err)" by (simp add: sys_inv_def)
  with inv [of m] m show ?thesis by (intro exI [of _ m]) (force simp: sys_inv_def in_flight_def)
qed

end
