(* ===== verification/Sub_Types.thy ===== *)
theory Sub_Types
  imports Log_Codes
begin

text \<open>
  The data of the subscribe side (\<open>internal/subscribe/types/types.go\<close>): messages, failures,
  and the batch a batch handler is given, in which every message is paired with the verdict
  the handler records for it. An item pointer of the source is the item's index in the batch.
\<close>

section \<open>Messages and failures\<close>

record message =
  Topic :: string
  Partition :: int
  Offset :: int
  Timestamp :: int
  Key :: slice
  Headers :: "(string, string) gomap"
  Payload :: slice

record failure =
  Err :: "gerror option"
  Step :: int
  FCode :: string

section \<open>Batches\<close>

record batch_item =
  item_msg :: message
  item_failure :: "failure option"

record batch =
  batch_items :: "batch_item list"

definition NewBatch :: "message list \<Rightarrow> batch" where
  "NewBatch msgs = \<lparr>batch_items = map (\<lambda>m. \<lparr>item_msg = m, item_failure = None\<rparr>) msgs\<rparr>"

definition NewBatchFromBuffer :: "message list \<Rightarrow> batch" where
  "NewBatchFromBuffer msgs = \<lparr>batch_items = map (\<lambda>m. \<lparr>item_msg = m, item_failure = None\<rparr>) msgs\<rparr>"

definition Len :: "batch \<Rightarrow> nat" where
  "Len b = length (batch_items b)"

definition Items :: "batch \<Rightarrow> batch_item list" where
  "Items b = batch_items b"

definition item_Message :: "batch_item \<Rightarrow> message" where
  "item_Message item = item_msg item"

definition item_Fail :: "failure \<Rightarrow> batch_item \<Rightarrow> batch_item" where
  "item_Fail f item = item\<lparr>item_failure := Some f\<rparr>"

definition item_Failed :: "batch_item \<Rightarrow> failure option" where
  "item_Failed item = item_failure item"

text \<open>
  What a batch handler does to the batch before it returns: a sequence of \<open>Fail\<close> calls on
  items, each named by its index. An index outside the batch names no item and has no effect.
\<close>

fun apply_fails :: "(nat \<times> failure) list \<Rightarrow> batch \<Rightarrow> batch" where
  "apply_fails [] b = b"
| "apply_fails ((i, f) # fs) b =
     apply_fails fs
       (if i < length (batch_items b)
        then b\<lparr>batch_items := (batch_items b)[i := item_Fail f (batch_items b ! i)]\<rparr>
        else b)"

text \<open>The verdict a sequence of \<open>Fail\<close> calls leaves on item \<open>i\<close>: its last one.\<close>

definition verdict :: "(nat \<times> failure) list \<Rightarrow> nat \<Rightarrow> failure option" where
  "verdict fs i = map_of (rev fs) i"

section \<open>Handlers\<close>

text \<open>
  A handler acts on the world \<open>'w\<close> and returns a failure or nil, or it panics. It gets the message on
  its context and the payload; a batch handler also says which verdicts it recorded with \<open>Fail\<close>.
\<close>

datatype handler_outcome = HReturn "failure option" | HPanic string

type_synonym 'w handler = "message \<Rightarrow> slice \<Rightarrow> 'w \<Rightarrow> handler_outcome \<times> 'w"
type_synonym 'w batch_handler = "batch \<Rightarrow> 'w \<Rightarrow> ((nat \<times> failure) list \<times> handler_outcome) \<times> 'w"

section \<open>Lemmas\<close>

lemma length_apply_fails [simp]:
  "length (batch_items (apply_fails fs b)) = length (batch_items b)"
  by (induction fs b rule: apply_fails.induct) auto

lemma apply_fails_msg:
  "i < length (batch_items b) \<Longrightarrow>
     item_msg (batch_items (apply_fails fs b) ! i) = item_msg (batch_items b ! i)"
  by (induction fs b rule: apply_fails.induct) (auto simp: item_Fail_def nth_list_update)

lemma apply_fails_msgs:
  "map item_msg (batch_items (apply_fails fs b)) = map item_msg (batch_items b)"
  by (rule nth_equalityI) (simp_all add: apply_fails_msg)

lemma apply_fails_verdict:
  "i < length (batch_items b) \<Longrightarrow>
     item_failure (batch_items (apply_fails fs b) ! i) =
       (case verdict fs i of None \<Rightarrow> item_failure (batch_items b ! i) | Some f \<Rightarrow> Some f)"
proof (induction fs b rule: apply_fails.induct)
  case (1 b)
  then show ?case by (simp add: verdict_def)
next
  case (2 j f fs b)
  then show ?case
    by (auto simp: verdict_def item_Fail_def nth_list_update map_add_def split: option.splits)
qed

lemma NewBatchFromBuffer_msgs [simp]:
  "map item_msg (batch_items (NewBatchFromBuffer msgs)) = msgs"
  by (simp add: NewBatchFromBuffer_def comp_def)

lemma apply_fails_zip:
  "batch_items (apply_fails fs (NewBatchFromBuffer msgs)) =
     map (\<lambda>(i, m). \<lparr>item_msg = m, item_failure = verdict fs i\<rparr>) (zip [0..<length msgs] msgs)"
proof (rule nth_equalityI)
  show "length (batch_items (apply_fails fs (NewBatchFromBuffer msgs))) =
    length (map (\<lambda>(i, m). \<lparr>item_msg = m, item_failure = verdict fs i\<rparr>) (zip [0..<length msgs] msgs))"
    by (simp add: NewBatchFromBuffer_def)
next
  fix i
  assume "i < length (batch_items (apply_fails fs (NewBatchFromBuffer msgs)))"
  then have i: "i < length msgs" by (simp add: NewBatchFromBuffer_def)
  then show "batch_items (apply_fails fs (NewBatchFromBuffer msgs)) ! i =
    map (\<lambda>(i, m). \<lparr>item_msg = m, item_failure = verdict fs i\<rparr>) (zip [0..<length msgs] msgs) ! i"
    using apply_fails_msg [of i "NewBatchFromBuffer msgs" fs]
      apply_fails_verdict [of i "NewBatchFromBuffer msgs" fs]
    by (auto simp: NewBatchFromBuffer_def split: option.splits intro!: batch_item.equality)
qed

end
