(* ===== verification/Strategies.thy ===== *)
theory Strategies
  imports Sub_Types Log_Codes
begin

text \<open>
  The contract of an error strategy (\<open>ErrorStrategy\<close> in \<open>internal/subscribe/types/types.go\<close>) and
  the two strategies that need no producer: skip and fail-fast
  (\<open>internal/subscribe/strategy/skip.go\<close>, \<open>fail_fast.go\<close>).

  What the subscriber relies on is the locale \<open>error_strategy\<close>: when \<open>HandleError\<close> of a strategy
  that is ready returns nil, every message it was given is resolved, for what "resolved" means to
  that strategy, and stays so. Handing over a batch item by item, or as a whole, then resolves every failed message.
\<close>

section \<open>Skip\<close>

text \<open>The messages the strategy has written off, with the line it logged for each and the logger it went to.\<close>

record skip_strategy =
  skip_logger :: logger
  skipped :: "(message \<times> logger \<times> logline) list"

definition NewSkipStrategy :: "logger \<Rightarrow> skip_strategy" where
  "NewSkipStrategy l = \<lparr>skip_logger = l, skipped = []\<rparr>"

definition skip_HandleError ::
  "message list \<Rightarrow> failure \<Rightarrow> skip_strategy \<Rightarrow> gerror option \<times> skip_strategy" where
  "skip_HandleError msgs f s =
     (None, s\<lparr>skipped := skipped s @ map (\<lambda>m. (m, skip_logger s, (Warn, Some MessageSkipped))) msgs\<rparr>)"

definition skip_SetLogger :: "logger \<Rightarrow> skip_strategy \<Rightarrow> skip_strategy" where
  "skip_SetLogger l s = s\<lparr>skip_logger := l\<rparr>"

definition skip_Name :: string where
  "skip_Name = ''skip''"

section \<open>Fail-fast\<close>

record fail_fast_strategy =
  ff_logger :: logger
  ff_log :: "(logger \<times> logline) list"

definition NewFailFastStrategy :: fail_fast_strategy where
  "NewFailFastStrategy = \<lparr>ff_logger = Nop, ff_log = []\<rparr>"

definition fail_fast_SetLogger :: "logger \<Rightarrow> fail_fast_strategy \<Rightarrow> fail_fast_strategy" where
  "fail_fast_SetLogger l s = s\<lparr>ff_logger := l\<rparr>"

definition fail_fast_Name :: string where
  "fail_fast_Name = ''fail-fast''"

text \<open>\<open>%w\<close> with a nil error prints and wraps nothing.\<close>

definition wrap_opt :: "gerror option \<Rightarrow> seg list" where
  "wrap_opt e = (case e of None \<Rightarrow> [Fmt ''%w'' []] | Some e' \<Rightarrow> [W e'])"

definition fail_fast_HandleError ::
  "message list \<Rightarrow> failure \<Rightarrow> fail_fast_strategy \<Rightarrow> gerror option \<times> fail_fast_strategy" where
  "fail_fast_HandleError msgs f s =
     (let s' = s\<lparr>ff_log := ff_log s @ [(ff_logger s, (Error, None))]\<rparr>
      in case msgs of
           m # _ \<Rightarrow>
             (Some (Errorf ([Txt ''fail-fast: handler error on topic='', Txt (Topic m),
                Txt '' partition='', Txt (itoa (Partition m)), Txt '' offset='', Txt (itoa (Offset m)),
                Txt '': ''] @ wrap_opt (Err f))), s')
         | [] \<Rightarrow> (Some (Errorf (Txt ''fail-fast: handler error: '' # wrap_opt (Err f))), s'))"

section \<open>The contract\<close>

text \<open>
  Handing over failed messages one call at a time, stopping at the first error, as
  \<open>routeBatchFailures\<close> does for items.
\<close>

fun hand_over ::
  "(message list \<Rightarrow> failure \<Rightarrow> 's \<Rightarrow> gerror option \<times> 's) \<Rightarrow> (message \<times> failure) list \<Rightarrow> 's
     \<Rightarrow> gerror option \<times> 's" where
  "hand_over HandleError [] s = (None, s)"
| "hand_over HandleError ((m, f) # rest) s =
     (case HandleError [m] f s of
        (Some err, s') \<Rightarrow> (Some err, s')
      | (None, s') \<Rightarrow> hand_over HandleError rest s')"

locale error_strategy =
  fixes HandleError :: "message list \<Rightarrow> failure \<Rightarrow> 's \<Rightarrow> gerror option \<times> 's"
    and ready :: "'s \<Rightarrow> bool"
    and resolved :: "'s \<Rightarrow> message \<Rightarrow> bool"
  assumes stays_ready: "HandleError msgs f s = (r, s') \<Longrightarrow> ready s \<Longrightarrow> ready s'"
    and nil_resolves:
      "HandleError msgs f s = (None, s') \<Longrightarrow> ready s \<Longrightarrow> m \<in> set msgs \<Longrightarrow> resolved s' m"
    and stays_resolved:
      "HandleError msgs f s = (r, s') \<Longrightarrow> ready s \<Longrightarrow> resolved s m \<Longrightarrow> resolved s' m"
begin

lemma hand_over_ready: "hand_over HandleError fs s = (r, s') \<Longrightarrow> ready s \<Longrightarrow> ready s'"
proof (induction fs arbitrary: s)
  case Nil
  then show ?case by simp
next
  case (Cons x fs)
  obtain q g where x: "x = (q, g)" by (cases x)
  obtain e s1 where h: "HandleError [q] g s = (e, s1)" by fastforce
  with Cons x stays_ready [OF h] show ?case by (cases e) auto
qed

lemma hand_over_stays:
  "hand_over HandleError fs s = (r, s') \<Longrightarrow> ready s \<Longrightarrow> resolved s m \<Longrightarrow> resolved s' m"
proof (induction fs arbitrary: s)
  case Nil
  then show ?case by simp
next
  case (Cons x fs)
  obtain q g where x: "x = (q, g)" by (cases x)
  obtain e s1 where h: "HandleError [q] g s = (e, s1)" by fastforce
  from stays_resolved [OF h Cons.prems(2,3)] stays_ready [OF h Cons.prems(2)]
  have "resolved s1 m" "ready s1" .
  with Cons x h show ?case by (cases e) auto
qed

lemma hand_over_resolves:
  "hand_over HandleError fs s = (None, s') \<Longrightarrow> ready s \<Longrightarrow> (m, f) \<in> set fs \<Longrightarrow> resolved s' m"
proof (induction fs arbitrary: s)
  case Nil
  then show ?case by simp
next
  case (Cons x fs)
  obtain q g where x: "x = (q, g)" by (cases x)
  obtain e s1 where h: "HandleError [q] g s = (e, s1)" by fastforce
  with Cons.prems x have e: "e = None" and rest: "hand_over HandleError fs s1 = (None, s')"
    by (cases e; simp)+
  from stays_ready [OF h Cons.prems(2)] have rd: "ready s1" .
  show ?case
  proof (cases "(m, f) = x")
    case True
    with x h e Cons.prems(2) have "resolved s1 m" using nil_resolves [of "[q]" g s s1 m] by simp
    with rest rd show ?thesis by (rule hand_over_stays)
  next
    case False
    with Cons.prems(3) have "(m, f) \<in> set fs" by simp
    with rest rd show ?thesis by (rule Cons.IH)
  qed
qed

end

section \<open>Lemmas\<close>

interpretation skip: error_strategy skip_HandleError "\<lambda>_. True"
    "\<lambda>s m. m \<in> fst ` set (skipped s)"
  by unfold_locales (auto simp: skip_HandleError_def image_Un image_image)

lemma fail_fast_never_nil: "fst (fail_fast_HandleError msgs f s) \<noteq> None"
  by (cases msgs) (simp_all add: fail_fast_HandleError_def Let_def)

text \<open>Fail-fast resolves nothing: it never returns nil.\<close>

interpretation fail_fast: error_strategy fail_fast_HandleError "\<lambda>_. True" "\<lambda>s m. False"
proof unfold_locales
  show False if "fail_fast_HandleError msgs f s = (None, s')" for msgs f s s'
    using fail_fast_never_nil [of msgs f s] that by simp
qed

lemma fail_fast_wraps:
  "Err f = Some e \<Longrightarrow> \<exists>err s'. fail_fast_HandleError msgs f s = (Some err, s') \<and>
     (errors_Is e t \<longrightarrow> errors_Is err t)"
  by (cases msgs) (simp_all add: fail_fast_HandleError_def Let_def wrap_opt_def)

end
