(* ===== verification/Go_Time.thy ===== *)
theory Go_Time
  imports Prelude
begin

text \<open>
  What the library uses of Go's \<open>time\<close> package to write and read a retry time. A
  \<open>time.Time\<close> is the number of nanoseconds since the zero \<open>Time\<close>, January 1 of year 1 UTC, so
  \<open>IsZero\<close> is equality with 0; its zone only matters when it is formatted, and is the UTC
  offset in seconds that \<open>Format\<close> is given. \<open>Format(time.RFC3339)\<close> prints to the second.
  \<open>time.Parse(time.RFC3339, _)\<close> first tries the strict reader \<open>parseRFC3339\<close>, modelled here,
  and falls back to the general layout parser for anything that reader refuses; the fallback
  is a parameter of \<open>parse_time\<close>, since text written by \<open>Format\<close> never reaches it.
\<close>

type_synonym gtime = int

section \<open>The calendar\<close>

definition leap :: "int \<Rightarrow> bool" where
  "leap y \<longleftrightarrow> y mod 4 = 0 \<and> (y mod 100 \<noteq> 0 \<or> y mod 400 = 0)"

definition days_before_year :: "int \<Rightarrow> int" where
  "days_before_year y = 365 * (y - 1) + (y - 1) div 4 - (y - 1) div 100 + (y - 1) div 400"

definition month_lens :: "int \<Rightarrow> int list" where
  "month_lens y = [31, if leap y then 29 else 28, 31, 30, 31, 30, 31, 31, 30, 31, 30, 31]"

definition days_of_date :: "int \<Rightarrow> int \<Rightarrow> int \<Rightarrow> int" where
  "days_of_date y m d =
     days_before_year y + sum_list (take (nat (m - 1)) (month_lens y)) + (d - 1)"

definition year_of_days :: "int \<Rightarrow> int" where
  "year_of_days n =
     (let y = (400 * n) div 146097 + 1
      in if n < days_before_year y then y - 1
         else if days_before_year (y + 1) \<le> n then y + 1 else y)"

fun month_day :: "int list \<Rightarrow> int \<Rightarrow> int \<Rightarrow> int \<times> int" where
  "month_day [] m r = (m, r + 1)"
| "month_day (l # ls) m r = (if r < l then (m, r + 1) else month_day ls (m + 1) (r - l))"

definition date_of_days :: "int \<Rightarrow> int \<times> int \<times> int" where
  "date_of_days n =
     (let y = year_of_days n; (m, d) = month_day (month_lens y) 1 (n - days_before_year y)
      in (y, m, d))"

definition days_in_month :: "int \<Rightarrow> int \<Rightarrow> int" where
  "days_in_month y m = month_lens y ! nat (m - 1)"

section \<open>Formatting and parsing\<close>

definition pad :: "nat \<Rightarrow> nat \<Rightarrow> string" where
  "pad w n = (let s = nat_dec n in replicate (w - length s) (digit_char 0) @ s)"

definition append_int :: "nat \<Rightarrow> int \<Rightarrow> string" where
  "append_int w x = (if x < 0 then ''-'' else []) @ pad w (nat \<bar>x\<bar>)"

definition format_zone :: "int \<Rightarrow> string" where
  "format_zone off =
     (if off = 0 then ''Z''
      else let zone = go_div off 60; a = \<bar>zone\<bar>
           in (if zone < 0 then ''-'' else ''+'')
                @ append_int 2 (a div 60) @ '':'' @ append_int 2 (a mod 60))"

definition format_RFC3339 :: "int \<Rightarrow> gtime \<Rightarrow> string" where
  "format_RFC3339 off t =
     (let local = t div Second + off; (y, m, d) = date_of_days (local div 86400);
          sod = local mod 86400
      in append_int 4 y @ ''-'' @ append_int 2 m @ ''-'' @ append_int 2 d @ ''T''
           @ append_int 2 (sod div 3600) @ '':'' @ append_int 2 (sod mod 3600 div 60) @ '':''
           @ append_int 2 (sod mod 60) @ format_zone off)"

definition sub_str :: "string \<Rightarrow> nat \<Rightarrow> nat \<Rightarrow> string" where
  "sub_str s a b = take (b - a) (drop a s)"

definition parse_range :: "string \<Rightarrow> int \<Rightarrow> int \<Rightarrow> int option" where
  "parse_range s lo hi =
     (case parse_digits 0 s of
        None \<Rightarrow> None
      | Some n \<Rightarrow> if int n < lo \<or> hi < int n then None else Some (int n))"

definition is_digit :: "char \<Rightarrow> bool" where
  "is_digit c \<longleftrightarrow> digit_val c \<noteq> None"

text \<open>The fractional second: \<open>.\<close> and digits, of which nine count.\<close>

definition parse_fraction :: "string \<Rightarrow> int \<times> string" where
  "parse_fraction s =
     (case s of
        c # d # r \<Rightarrow>
          if c = CHR ''.'' \<and> is_digit d
          then let ds = takeWhile is_digit (d # r); used = take 9 ds
               in (int (the (parse_digits 0 used)) * 10 ^ (9 - length used),
                   dropWhile is_digit (d # r))
          else (0, s)
      | _ \<Rightarrow> (0, s))"

definition parse_zone :: "string \<Rightarrow> int option" where
  "parse_zone s =
     (if s = ''Z'' then Some 0
      else if length s \<noteq> 6 then None
      else case (parse_range (sub_str s 1 3) 0 23, parse_range (sub_str s 4 6) 0 59) of
             (Some hr, Some mm) \<Rightarrow>
               if (s ! 0 = CHR ''-'' \<or> s ! 0 = CHR ''+'') \<and> s ! 3 = CHR '':''
               then Some ((if s ! 0 = CHR ''-'' then - 1 else 1) * ((hr * 60 + mm) * 60))
               else None
           | _ \<Rightarrow> None)"

definition parse_RFC3339 :: "string \<Rightarrow> gtime option" where
  "parse_RFC3339 s =
     (if length s < 19 then None
      else case (parse_range (sub_str s 0 4) 0 9999, parse_range (sub_str s 5 7) 1 12) of
        (Some y, Some m) \<Rightarrow>
          (case (parse_range (sub_str s 8 10) 1 (days_in_month y m),
                 parse_range (sub_str s 11 13) 0 23,
                 parse_range (sub_str s 14 16) 0 59,
                 parse_range (sub_str s 17 19) 0 59) of
             (Some d, Some hh, Some mi, Some se) \<Rightarrow>
               if s ! 4 = CHR ''-'' \<and> s ! 7 = CHR ''-'' \<and> s ! 10 = CHR ''T''
                  \<and> s ! 13 = CHR '':'' \<and> s ! 16 = CHR '':''
               then (let (nsec, z) = parse_fraction (drop 19 s)
                     in case parse_zone z of
                          None \<Rightarrow> None
                        | Some off \<Rightarrow>
                            Some ((days_of_date y m d * 86400 + hh * 3600 + mi * 60 + se - off)
                                    * Second + nsec))
               else None
           | _ \<Rightarrow> None)
      | _ \<Rightarrow> None)"

definition parse_time :: "(string \<Rightarrow> gtime option) \<Rightarrow> string \<Rightarrow> gtime option" where
  "parse_time fallback s =
     (case parse_RFC3339 s of Some t \<Rightarrow> Some t | None \<Rightarrow> fallback s)"

text \<open>Zone offsets a process runs under: whole minutes, less than a day.\<close>

definition valid_offset :: "int \<Rightarrow> bool" where
  "valid_offset off \<longleftrightarrow> off mod 60 = 0 \<and> \<bar>off\<bar> < 86400"

section \<open>The calendar is a bijection\<close>

lemma div_pred:
  fixes y k :: int
  assumes "0 < k"
  shows "y div k = (y - 1) div k + (if y mod k = 0 then 1 else 0)"
proof (cases "y mod k = 0")
  case True
  then have "y - 1 = k * (y div k - 1) + (k - 1)"
    using mult_div_mod_eq [of k y] by (simp add: algebra_simps)
  then have "(y - 1) div k = y div k - 1"
    using assms by (intro int_div_pos_eq [where r = "k - 1"]) simp_all
  with True show ?thesis by simp
next
  case False
  have "y - 1 = k * (y div k) + (y mod k - 1)"
    using mult_div_mod_eq [of k y] by (simp add: algebra_simps)
  moreover have "0 < y mod k" using False assms pos_mod_sign [of k y] by linarith
  moreover have "y mod k - 1 < k" using pos_mod_bound [OF assms, of y] by linarith
  ultimately have "(y - 1) div k = y div k"
    by (intro int_div_pos_eq [where r = "y mod k - 1"]) simp_all
  with False show ?thesis by simp
qed

lemma mod_400: "(y::int) mod 400 = 0 \<Longrightarrow> y mod 100 = 0" "(y::int) mod 100 = 0 \<Longrightarrow> y mod 4 = 0"
  using mod_mod_cancel [of 100 400 y] mod_mod_cancel [of 4 100 y] by simp_all

lemma leap_count:
  fixes a b c y :: int
  assumes "R \<Longrightarrow> Q" and "Q \<Longrightarrow> P"
  shows "365 * y + (a + (if P then 1 else 0)) - (b + (if Q then 1 else 0)) + (c + (if R then 1 else 0))
    = 365 * (y - 1) + a - b + c + (if P \<and> (\<not> Q \<or> R) then 366 else 365)"
  using assms by (cases P; cases Q; cases R) simp_all

lemma days_before_year_Suc:
  "days_before_year (y + 1) = days_before_year y + (if leap y then 366 else 365)"
proof -
  define a b c where "a = (y - 1) div 4" and "b = (y - 1) div 100" and "c = (y - 1) div 400"
  define P Q R where "P \<longleftrightarrow> y mod 4 = 0" and "Q \<longleftrightarrow> y mod 100 = 0" and "R \<longleftrightarrow> y mod 400 = 0"
  have d: "y div 4 = a + (if P then 1 else 0)" "y div 100 = b + (if Q then 1 else 0)"
    "y div 400 = c + (if R then 1 else 0)"
    unfolding a_def b_def c_def P_def Q_def R_def by (rule div_pred [OF zero_less_numeral])+
  have pq: "R \<Longrightarrow> Q" "Q \<Longrightarrow> P" unfolding P_def Q_def R_def by (erule mod_400)+
  have "days_before_year (y + 1) = 365 * y + y div 4 - y div 100 + y div 400"
    by (simp only: days_before_year_def add_diff_cancel_right')
  also have "\<dots> = 365 * (y - 1) + a - b + c + (if P \<and> (\<not> Q \<or> R) then 366 else 365)"
    unfolding d by (rule leap_count [OF pq])
  finally show ?thesis
    unfolding days_before_year_def leap_def a_def b_def c_def P_def Q_def R_def .
qed

lemma sum_month_lens: "sum_list (month_lens y) = (if leap y then 366 else 365)"
  by (simp add: month_lens_def)

lemma div_bounds:
  fixes j k :: int
  assumes "0 < k"
  shows "k * (j div k) \<le> j \<and> j < k * (j div k) + k"
  using mult_div_mod_eq [of k j] pos_mod_bound [OF assms, of j] pos_mod_sign [OF assms, of j]
  by linarith

lemma days_before_year_bounds:
  "146097 * j - 700 \<le> 400 * days_before_year (j + 1)
     \<and> 400 * days_before_year (j + 1) \<le> 146097 * j + 396"
proof -
  have *: "146097 * j - 700 \<le> 400 * (365 * j + a - b + c) \<and> 400 * (365 * j + a - b + c) \<le> 146097 * j + 396"
    if "4 * a \<le> j" "j < 4 * a + 4" "100 * b \<le> j" "j < 100 * b + 100"
      "400 * c \<le> j" "j < 400 * c + 400" for a b c :: int
    using that by (simp add: algebra_simps)
  have "days_before_year (j + 1) = 365 * j + j div 4 - j div 100 + j div 400"
    by (simp only: days_before_year_def add_diff_cancel_right')
  then show ?thesis
    using * div_bounds [of 4 j] div_bounds [of 100 j] div_bounds [of 400 j] by simp
qed

text \<open>The year estimate is off by at most one.\<close>

lemma year_of_days:
  "days_before_year (year_of_days n) \<le> n \<and> n < days_before_year (year_of_days n + 1)"
proof -
  define k where "k = (400 * n) div 146097"
  have k: "146097 * k \<le> 400 * n" "400 * n < 146097 * k + 146097"
    unfolding k_def using div_bounds [of 146097 "400 * n"] by simp_all
  have "days_before_year k \<le> n" "n < days_before_year (k + 3)"
    using days_before_year_bounds [of "k - 1"] days_before_year_bounds [of "k + 2"] k
    by (simp_all add: algebra_simps)
  moreover have "year_of_days n =
      (if n < days_before_year (k + 1) then k else if days_before_year (k + 2) \<le> n then k + 2 else k + 1)"
    unfolding year_of_days_def Let_def k_def [symmetric] by (simp add: add.commute)
  moreover have "k + 1 + 1 = k + 2" "k + 2 + 1 = k + 3" by simp_all
  ultimately show ?thesis by (simp only: not_less not_le split: if_split) (simp add: not_less not_le)
qed

lemma month_day_sound:
  assumes "month_day ls m0 r = (m, d)" and "0 \<le> r" and "r < sum_list ls"
  shows "m0 \<le> m \<and> m < m0 + int (length ls) \<and> 1 \<le> d \<and> d \<le> ls ! nat (m - m0)
    \<and> r = sum_list (take (nat (m - m0)) ls) + (d - 1)"
  using assms
proof (induction ls m0 r rule: month_day.induct)
  case (1 m0 r)
  then show ?case by simp
next
  case (2 l ls m0 r)
  show ?case
  proof (cases "r < l")
    case True
    with "2.prems" show ?thesis by auto
  next
    case False
    with 2 have ih: "m0 + 1 \<le> m \<and> m < m0 + 1 + int (length ls) \<and> 1 \<le> d
        \<and> d \<le> ls ! nat (m - (m0 + 1)) \<and> r - l = sum_list (take (nat (m - (m0 + 1))) ls) + (d - 1)"
      by simp
    then have "nat (m - m0) = Suc (nat (m - (m0 + 1)))" by linarith
    with ih show ?thesis by simp
  qed
qed

lemma date_of_days:
  assumes "date_of_days n = (y, m, d)"
  shows "y = year_of_days n" and "1 \<le> m" and "m \<le> 12" and "1 \<le> d" and "d \<le> days_in_month y m"
    and "days_of_date y m d = n"
proof -
  let ?r = "n - days_before_year (year_of_days n)"
  have md: "month_day (month_lens y) 1 ?r = (m, d)" and y: "y = year_of_days n"
    using assms by (auto simp: date_of_days_def Let_def split: prod.splits)
  have "0 \<le> ?r" "?r < sum_list (month_lens y)"
    using year_of_days [of n] days_before_year_Suc [of y] by (simp_all add: y sum_month_lens)
  from month_day_sound [OF md this]
  show "y = year_of_days n" "1 \<le> m" "m \<le> 12" "1 \<le> d" "d \<le> days_in_month y m"
    "days_of_date y m d = n"
    using y by (auto simp: days_in_month_def days_of_date_def month_lens_def)
qed

lemma days_in_month_le: "1 \<le> m \<Longrightarrow> m \<le> 12 \<Longrightarrow> days_in_month y m \<le> 31"
proof -
  assume "1 \<le> m" "m \<le> 12"
  then have "nat (m - 1) < length (month_lens y)" by (simp add: month_lens_def)
  then have "days_in_month y m \<in> set (month_lens y)" by (simp add: days_in_month_def)
  then show ?thesis by (auto simp: month_lens_def split: if_splits)
qed

section \<open>Reading back what was formatted\<close>

lemma length_nat_dec: "n < 10 ^ w \<Longrightarrow> 0 < w \<Longrightarrow> length (nat_dec n) \<le> w"
proof (induction n arbitrary: w rule: nat_dec.induct)
  case (1 n)
  show ?case
  proof (cases "n < 10")
    case True
    with "1.prems" show ?thesis by (simp add: nat_dec.simps [of n])
  next
    case False
    then obtain v where v: "w = Suc v" "0 < v"
      using "1.prems" by (cases w; cases "w - 1") auto
    then have "n div 10 < 10 ^ v" using "1.prems" by (simp add: div_less_iff_less_mult mult.commute)
    with "1.IH" [OF False _ v(2)] False v show ?thesis by (simp add: nat_dec.simps [of n])
  qed
qed

lemma parse_digits_zeros: "parse_digits 0 (replicate k (digit_char 0) @ s) = parse_digits 0 s"
  by (induction k) simp_all

lemma parse_digits_pad [simp]: "parse_digits 0 (pad w n) = Some n"
  by (simp add: pad_def Let_def parse_digits_zeros parse_digits_nat_dec)

lemma length_pad: "n < 10 ^ w \<Longrightarrow> 0 < w \<Longrightarrow> length (pad w n) = w"
  using length_nat_dec [of n w] by (simp add: pad_def Let_def)

text \<open>A field of known width is read back from the text it was written into.\<close>

lemma field:
  assumes "0 \<le> x" and "x < 10 ^ w" and "0 < w"
  shows "length (append_int w x) = w"
    and "lo \<le> x \<Longrightarrow> x \<le> hi \<Longrightarrow> parse_range (append_int w x) lo hi = Some x"
proof -
  have "nat x < 10 ^ w" using assms by (simp add: nat_less_iff)
  then show "length (append_int w x) = w" using assms by (simp add: append_int_def length_pad)
  show "lo \<le> x \<Longrightarrow> x \<le> hi \<Longrightarrow> parse_range (append_int w x) lo hi = Some x"
    using assms by (simp add: append_int_def parse_range_def)
qed

lemma div_le_of_less:
  fixes k s n :: int
  assumes "0 < k" and "s < k * (n + 1)"
  shows "s div k \<le> n"
proof -
  have "k * (s div k) < k * (n + 1)" using div_bounds [OF assms(1), of s] assms(2) by linarith
  then have "s div k < n + 1" using assms(1) by (simp only: mult_less_cancel_left_pos)
  then show ?thesis by simp
qed

lemma two_digits:
  assumes "lo \<le> x" and "x \<le> hi" and "0 \<le> lo" and "hi \<le> 99"
  shows "length (append_int 2 x) = 2 \<and> parse_range (append_int 2 x) lo hi = Some x"
  using field [of x 2] assms by simp

lemma four_digits:
  assumes "0 \<le> x" and "x \<le> 9999"
  shows "length (append_int 4 x) = 4" and "parse_range (append_int 4 x) 0 9999 = Some x"
  using field [of x 4] assms by simp_all

lemma hms:
  fixes x s :: int
  assumes "s = x mod 86400"
  shows "x div 86400 * 86400 + s div 3600 * 3600 + s mod 3600 div 60 * 60 + s mod 60 = x"
proof -
  have "s mod 3600 mod 60 = s mod 60" by (rule mod_mod_cancel) simp
  then have "s mod 3600 div 60 * 60 + s mod 60 = s mod 3600"
    using div_mult_mod_eq [of "s mod 3600" 60] by simp
  then show ?thesis
    using div_mult_mod_eq [of s 3600] div_mult_mod_eq [of x 86400] assms by linarith
qed

lemma parse_zone_format_zone:
  assumes "valid_offset off"
  shows "parse_zone (format_zone off) = Some off"
proof (cases "off = 0")
  case True
  then show ?thesis by (simp add: format_zone_def parse_zone_def)
next
  case False
  define a where "a = \<bar>go_div off 60\<bar>"
  have a: "a = \<bar>off\<bar> div 60" using False by (simp add: a_def go_div_def abs_mult sgn_if)
  have dvd: "60 * a = \<bar>off\<bar>" using assms
    by (simp add: a valid_offset_def mod_eq_0_iff_dvd)
  have h: "0 \<le> a div 60" "a div 60 \<le> 23" and m: "0 \<le> a mod 60" "a mod 60 \<le> 59"
    using assms dvd by (auto simp: valid_offset_def)
  let ?h = "append_int 2 (a div 60)" and ?m = "append_int 2 (a mod 60)"
  have H: "length ?h = 2 \<and> parse_range ?h 0 23 = Some (a div 60)"
    and M: "length ?m = 2 \<and> parse_range ?m 0 59 = Some (a mod 60)"
    by (rule two_digits [OF h] two_digits [OF m]; simp)+
  note len = H M
  have neg: "go_div off 60 < 0 \<longleftrightarrow> off < 0"
    using dvd a False by (auto simp: go_div_def sgn_if zero_less_mult_iff)
  let ?sg = "if off < 0 then CHR ''-'' else CHR ''+''"
  have eq: "format_zone off = ?sg # ?h @ CHR '':'' # ?m"
    using False by (simp add: format_zone_def Let_def a_def [symmetric] neg)
  have "sub_str (format_zone off) 1 3 = ?h" "sub_str (format_zone off) 4 6 = ?m"
    using len by (simp_all add: eq sub_str_def)
  moreover have "(format_zone off) ! 3 = CHR '':''" "(format_zone off) ! 0 = ?sg"
    using len by (simp_all add: eq nth_append)
  moreover have "length (format_zone off) = 6" using len by (simp add: eq)
  moreover have "(a div 60 * 60 + a mod 60) * 60 = \<bar>off\<bar>" using dvd by simp
  ultimately show ?thesis using False len
    by (auto simp: parse_zone_def)
qed

lemma format_zone_no_fraction: "parse_fraction (format_zone off) = (0, format_zone off)"
  by (auto simp: format_zone_def parse_fraction_def Let_def split: list.splits)

lemma parse_RFC3339_format:
  assumes off: "valid_offset off"
    and yr: "0 \<le> year_of_days ((t div Second + off) div 86400)"
      "year_of_days ((t div Second + off) div 86400) \<le> 9999"
  shows "parse_RFC3339 (format_RFC3339 off t) = Some (t div Second * Second)"
proof -
  define lo where "lo = t div Second + off"
  obtain y m d where dt: "date_of_days (lo div 86400) = (y, m, d)" by (cases "date_of_days (lo div 86400)")
  note D = date_of_days [OF dt]
  have y: "0 \<le> y" "y \<le> 9999" using yr D(1) by (simp_all add: lo_def)
  define sod where "sod = lo mod 86400"
  have sod: "0 \<le> sod" "sod < 86400" by (simp_all add: sod_def)
  let ?Y = "append_int 4 y" and ?M = "append_int 2 m" and ?D = "append_int 2 d"
    and ?h = "append_int 2 (sod div 3600)" and ?i = "append_int 2 (sod mod 3600 div 60)"
    and ?s = "append_int 2 (sod mod 60)" and ?z = "format_zone off"
  have hh: "0 \<le> sod div 3600" "sod div 3600 \<le> 23" and mi: "0 \<le> sod mod 3600 div 60" "sod mod 3600 div 60 \<le> 59"
    and se: "0 \<le> sod mod 60" "sod mod 60 \<le> 59"
    using sod div_le_of_less [of 3600 sod 23] div_le_of_less [of 60 "sod mod 3600" 59]
    by (simp_all add: pos_imp_zdiv_nonneg_iff)
  have dm: "days_in_month y m \<le> 99" using days_in_month_le [OF D(2,3), of y] by linarith
  have M: "length ?M = 2 \<and> parse_range ?M 1 12 = Some m"
    and Dd: "length ?D = 2 \<and> parse_range ?D 1 (days_in_month y m) = Some d"
    and H: "length ?h = 2 \<and> parse_range ?h 0 23 = Some (sod div 3600)"
    and I: "length ?i = 2 \<and> parse_range ?i 0 59 = Some (sod mod 3600 div 60)"
    and S: "length ?s = 2 \<and> parse_range ?s 0 59 = Some (sod mod 60)"
    by (rule two_digits [OF D(2,3)] two_digits [OF D(4,5) _ dm] two_digits [OF hh] two_digits [OF mi]
        two_digits [OF se]; simp)+
  note len = four_digits(1) [OF y] M Dd H I S
  have eq: "format_RFC3339 off t = ?Y @ ''-'' @ ?M @ ''-'' @ ?D @ ''T'' @ ?h @ '':'' @ ?i @ '':'' @ ?s @ ?z"
    by (simp add: format_RFC3339_def Let_def lo_def [symmetric] dt sod_def)
  have sub: "sub_str (format_RFC3339 off t) 0 4 = ?Y" "sub_str (format_RFC3339 off t) 5 7 = ?M"
    "sub_str (format_RFC3339 off t) 8 10 = ?D" "sub_str (format_RFC3339 off t) 11 13 = ?h"
    "sub_str (format_RFC3339 off t) 14 16 = ?i" "sub_str (format_RFC3339 off t) 17 19 = ?s"
    "drop 19 (format_RFC3339 off t) = ?z"
    by (simp_all add: eq sub_str_def len)
  have "format_RFC3339 off t ! 4 = CHR ''-''" "format_RFC3339 off t ! 7 = CHR ''-''"
    "format_RFC3339 off t ! 10 = CHR ''T''" "format_RFC3339 off t ! 13 = CHR '':''"
    "format_RFC3339 off t ! 16 = CHR '':''" "\<not> length (format_RFC3339 off t) < 19"
    by (simp_all add: eq len nth_append)
  moreover have "days_of_date y m d * 86400 + sod div 3600 * 3600 + sod mod 3600 div 60 * 60 + sod mod 60 = lo"
    using D(6) sod_def by (simp add: hms)
  ultimately show ?thesis
    by (simp add: parse_RFC3339_def sub len four_digits(2) [OF y] format_zone_no_fraction parse_zone_format_zone [OF off] lo_def)
qed

end
