(* ===== verification/Retry_Headers.thy ===== *)
theory Retry_Headers
  imports Sub_Types Go_Time
begin

text \<open>
  The headers a retry or DLQ record carries (\<open>internal/subscribe/metadata/headers.go\<close>) and the
  wait for a retry time (\<open>metadata/wait.go\<close>). \<open>time.Now()\<close> is the argument \<open>now\<close>, and \<open>zone\<close>
  gives the UTC offset of the process's local zone at an instant. A nil \<open>*Message\<close> is \<open>None\<close>; a
  nil header map reads as the empty one.
\<close>

section \<open>Header keys\<close>

definition HeaderRetryAttempt :: string where "HeaderRetryAttempt = ''easykafka.retry.attempt''"
definition HeaderRetryTime :: string where "HeaderRetryTime = ''easykafka.retry.time''"
definition HeaderRetryStep :: string where "HeaderRetryStep = ''easykafka.retry.step''"
definition HeaderErrorCode :: string where "HeaderErrorCode = ''easykafka.error.code''"
definition HeaderErrorMessage :: string where "HeaderErrorMessage = ''easykafka.error.message''"
definition HeaderOriginalTopic :: string where "HeaderOriginalTopic = ''easykafka.original.topic''"
definition HeaderOriginalPartition :: string where
  "HeaderOriginalPartition = ''easykafka.original.partition''"
definition HeaderOriginalOffset :: string where
  "HeaderOriginalOffset = ''easykafka.original.offset''"
definition HeaderFailedAt :: string where "HeaderFailedAt = ''easykafka.failed.at''"

lemmas header_defs [go_eval] =
  HeaderRetryAttempt_def HeaderRetryTime_def HeaderRetryStep_def HeaderErrorCode_def
  HeaderErrorMessage_def HeaderOriginalTopic_def HeaderOriginalPartition_def
  HeaderOriginalOffset_def HeaderFailedAt_def

section \<open>Reading the headers\<close>

definition GetRetryAttempt :: "message option \<Rightarrow> int" where
  "GetRetryAttempt msg =
     (case msg of
        None \<Rightarrow> 0
      | Some m \<Rightarrow>
          (case map_of (Headers m) HeaderRetryAttempt of
             None \<Rightarrow> 0
           | Some val \<Rightarrow> (case atoi val of None \<Rightarrow> 0 | Some attempt \<Rightarrow> attempt)))"

definition GetRetryTime :: "(string \<Rightarrow> gtime option) \<Rightarrow> message option \<Rightarrow> gtime" where
  "GetRetryTime fallback msg =
     (case msg of
        None \<Rightarrow> 0
      | Some m \<Rightarrow>
          (case map_of (Headers m) HeaderRetryTime of
             None \<Rightarrow> 0
           | Some val \<Rightarrow> (case parse_time fallback val of None \<Rightarrow> 0 | Some t \<Rightarrow> t)))"

definition GetRetryStep :: "message option \<Rightarrow> int" where
  "GetRetryStep msg =
     (case msg of
        None \<Rightarrow> 0
      | Some m \<Rightarrow>
          (case map_of (Headers m) HeaderRetryStep of
             None \<Rightarrow> 0
           | Some val \<Rightarrow> (case parse_int 32 val of None \<Rightarrow> 0 | Some step \<Rightarrow> step)))"

definition header_or_empty :: "message \<Rightarrow> string \<Rightarrow> string" where
  "header_or_empty m k = (case map_of (Headers m) k of None \<Rightarrow> [] | Some v \<Rightarrow> v)"

definition GetErrorCode :: "message option \<Rightarrow> string" where
  "GetErrorCode msg = (case msg of None \<Rightarrow> [] | Some m \<Rightarrow> header_or_empty m HeaderErrorCode)"

definition GetOriginalTopic :: "message option \<Rightarrow> string" where
  "GetOriginalTopic msg = (case msg of None \<Rightarrow> [] | Some m \<Rightarrow> header_or_empty m HeaderOriginalTopic)"

section \<open>Building the headers\<close>

definition isRetryHeader :: "string \<Rightarrow> bool" where
  "isRetryHeader key \<longleftrightarrow>
     key = HeaderRetryAttempt \<or> key = HeaderRetryTime \<or> key = HeaderRetryStep
     \<or> key = HeaderErrorCode \<or> key = HeaderErrorMessage
     \<or> key = HeaderOriginalTopic \<or> key = HeaderOriginalPartition \<or> key = HeaderOriginalOffset
     \<or> key = HeaderFailedAt"

definition resolveStep :: "message \<Rightarrow> failure \<Rightarrow> int" where
  "resolveStep msg f = (if Step f \<noteq> 0 then Step f else GetRetryStep (Some msg))"

definition classifyError :: "gerror option \<Rightarrow> string" where
  "classifyError err = (case err of None \<Rightarrow> [] | Some _ \<Rightarrow> ''HANDLER_ERROR'')"

definition resolveErrorCode :: "failure \<Rightarrow> string" where
  "resolveErrorCode f = (if FCode f \<noteq> [] then FCode f else classifyError (Err f))"

definition resolveOriginalHeader :: "message \<Rightarrow> string \<Rightarrow> string \<Rightarrow> string" where
  "resolveOriginalHeader msg key current =
     (let orig = header_or_empty msg key in if orig \<noteq> [] then orig else current)"

definition resolveOriginalTopic :: "message \<Rightarrow> string" where
  "resolveOriginalTopic msg = resolveOriginalHeader msg HeaderOriginalTopic (Topic msg)"

definition errorMessage :: "verb_fmt \<Rightarrow> gerror option \<Rightarrow> string" where
  "errorMessage quote err = (case err of None \<Rightarrow> [] | Some e \<Rightarrow> error_text quote e)"

record clock =
  Now :: gtime
  zone :: "gtime \<Rightarrow> int"
  quote :: verb_fmt

definition Format_RFC3339 :: "clock \<Rightarrow> gtime \<Rightarrow> string" where
  "Format_RFC3339 c t = format_RFC3339 (zone c t) t"

definition buildFailureHeaders ::
  "clock \<Rightarrow> message \<Rightarrow> int \<Rightarrow> failure \<Rightarrow> (string, string) gomap" where
  "buildFailureHeaders c msg attempt f =
     (let headers = filter (\<lambda>(k, v). \<not> isRetryHeader k) (Headers msg);
          headers = map_set HeaderRetryAttempt (itoa attempt) headers;
          step = resolveStep msg f;
          headers = (if step \<noteq> 0 then map_set HeaderRetryStep (itoa step) headers else headers);
          headers = map_set HeaderErrorCode (resolveErrorCode f) headers;
          headers = map_set HeaderErrorMessage (errorMessage (quote c) (Err f)) headers;
          headers = map_set HeaderOriginalTopic (resolveOriginalTopic msg) headers;
          headers = map_set HeaderOriginalPartition
            (resolveOriginalHeader msg HeaderOriginalPartition (itoa (Partition msg))) headers;
          headers = map_set HeaderOriginalOffset
            (resolveOriginalHeader msg HeaderOriginalOffset (itoa (Offset msg))) headers
      in map_set HeaderFailedAt (Format_RFC3339 c (Now c)) headers)"

definition BuildRetryHeaders ::
  "clock \<Rightarrow> message \<Rightarrow> int \<Rightarrow> gtime \<Rightarrow> failure \<Rightarrow> (string, string) gomap" where
  "BuildRetryHeaders c msg attempt retryTime f =
     map_set HeaderRetryTime (Format_RFC3339 c retryTime) (buildFailureHeaders c msg attempt f)"

definition BuildDLQHeaders ::
  "clock \<Rightarrow> message \<Rightarrow> int \<Rightarrow> failure \<Rightarrow> (string, string) gomap" where
  "BuildDLQHeaders c msg attempt f = buildFailureHeaders c msg attempt f"

section \<open>Waiting for the retry time\<close>

text \<open>What ends the \<open>select\<close>: the timer, or the context, with its error.\<close>

datatype wake = TimerFired | CtxDone gerror

definition WaitUntilRetryTime ::
  "(string \<Rightarrow> gtime option) \<Rightarrow> gtime \<Rightarrow> wake \<Rightarrow> message option \<Rightarrow> gerror option" where
  "WaitUntilRetryTime fallback now wake msg =
     (let due = GetRetryTime fallback msg
      in if due = 0 then None
         else let wait = time_sub due now
              in if wait \<le> 0 then None
                 else case wake of TimerFired \<Rightarrow> None | CtxDone e \<Rightarrow> Some e)"

section \<open>Hops\<close>

text \<open>
  One republication: the record the retry strategy writes for \<open>msg\<close> is consumed again from the
  topic it was written to, at a position of its own, with the headers it was given.
\<close>

record hop =
  hop_clock :: clock
  hop_attempt :: int
  hop_time :: "gtime option"
  hop_failure :: failure
  hop_topic :: string
  hop_partition :: int
  hop_offset :: int

definition republish :: "hop \<Rightarrow> message \<Rightarrow> message" where
  "republish h msg =
     msg\<lparr>Topic := hop_topic h, Partition := hop_partition h, Offset := hop_offset h,
         Headers := (case hop_time h of
           Some t \<Rightarrow> BuildRetryHeaders (hop_clock h) msg (hop_attempt h) t (hop_failure h)
         | None \<Rightarrow> BuildDLQHeaders (hop_clock h) msg (hop_attempt h) (hop_failure h))\<rparr>"

section \<open>A concrete message\<close>

definition wit_msg :: message where
  "wit_msg = \<lparr>Topic = ''orders'', Partition = 3, Offset = 41, Timestamp = 0, Key = Some ''k1'',
     Headers = [(''trace'', ''abc''), (''easykafka.retry.step'', ''2'')], Payload = Some ''p''\<rparr>"

definition wit_clock :: clock where
  "wit_clock = \<lparr>Now = 63000000000 * Second, zone = (\<lambda>_. 3600), quote = (\<lambda>_ s. s)\<rparr>"

definition wit_failure :: failure where
  "wit_failure = \<lparr>Err = Some (Plain ''boom''), Step = 0, FCode = []\<rparr>"

section \<open>Lemmas\<close>

lemma header_keys_distinct [simp]:
  "distinct [HeaderRetryAttempt, HeaderRetryTime, HeaderRetryStep, HeaderErrorCode, HeaderErrorMessage,
     HeaderOriginalTopic, HeaderOriginalPartition, HeaderOriginalOffset, HeaderFailedAt]"
  by (simp add: header_defs)

lemma header_keys_neq:
  "HeaderRetryAttempt \<noteq> HeaderRetryTime" "HeaderRetryAttempt \<noteq> HeaderRetryStep"
  "HeaderRetryAttempt \<noteq> HeaderErrorCode" "HeaderRetryAttempt \<noteq> HeaderErrorMessage"
  "HeaderRetryAttempt \<noteq> HeaderOriginalTopic" "HeaderRetryAttempt \<noteq> HeaderOriginalPartition"
  "HeaderRetryAttempt \<noteq> HeaderOriginalOffset" "HeaderRetryAttempt \<noteq> HeaderFailedAt"
  "HeaderRetryTime \<noteq> HeaderRetryStep" "HeaderRetryTime \<noteq> HeaderErrorCode"
  "HeaderRetryTime \<noteq> HeaderErrorMessage" "HeaderRetryTime \<noteq> HeaderOriginalTopic"
  "HeaderRetryTime \<noteq> HeaderOriginalPartition" "HeaderRetryTime \<noteq> HeaderOriginalOffset"
  "HeaderRetryTime \<noteq> HeaderFailedAt" "HeaderRetryStep \<noteq> HeaderErrorCode"
  "HeaderRetryStep \<noteq> HeaderErrorMessage" "HeaderRetryStep \<noteq> HeaderOriginalTopic"
  "HeaderRetryStep \<noteq> HeaderOriginalPartition" "HeaderRetryStep \<noteq> HeaderOriginalOffset"
  "HeaderRetryStep \<noteq> HeaderFailedAt" "HeaderErrorCode \<noteq> HeaderErrorMessage"
  "HeaderErrorCode \<noteq> HeaderOriginalTopic" "HeaderErrorCode \<noteq> HeaderOriginalPartition"
  "HeaderErrorCode \<noteq> HeaderOriginalOffset" "HeaderErrorCode \<noteq> HeaderFailedAt"
  "HeaderErrorMessage \<noteq> HeaderOriginalTopic" "HeaderErrorMessage \<noteq> HeaderOriginalPartition"
  "HeaderErrorMessage \<noteq> HeaderOriginalOffset" "HeaderErrorMessage \<noteq> HeaderFailedAt"
  "HeaderOriginalTopic \<noteq> HeaderOriginalPartition" "HeaderOriginalTopic \<noteq> HeaderOriginalOffset"
  "HeaderOriginalTopic \<noteq> HeaderFailedAt" "HeaderOriginalPartition \<noteq> HeaderOriginalOffset"
  "HeaderOriginalPartition \<noteq> HeaderFailedAt" "HeaderOriginalOffset \<noteq> HeaderFailedAt"
  using header_keys_distinct by auto

lemmas header_keys_simps [simp] = header_keys_neq header_keys_neq [symmetric]

lemma isRetryHeader_keys [simp]:
  "isRetryHeader HeaderRetryAttempt" "isRetryHeader HeaderRetryTime" "isRetryHeader HeaderRetryStep"
  "isRetryHeader HeaderErrorCode" "isRetryHeader HeaderErrorMessage"
  "isRetryHeader HeaderOriginalTopic" "isRetryHeader HeaderOriginalPartition"
  "isRetryHeader HeaderOriginalOffset" "isRetryHeader HeaderFailedAt"
  by (simp_all add: isRetryHeader_def)

text \<open>Every key of the headers built for a failure, and its value.\<close>

lemma map_of_buildFailureHeaders:
  "map_of (buildFailureHeaders c msg attempt f) =
     (\<lambda>k. if isRetryHeader k then None else map_of (Headers msg) k)
       (HeaderRetryAttempt \<mapsto> itoa attempt,
        HeaderRetryStep := (if resolveStep msg f \<noteq> 0 then Some (itoa (resolveStep msg f)) else None),
        HeaderErrorCode \<mapsto> resolveErrorCode f,
        HeaderErrorMessage \<mapsto> errorMessage (quote c) (Err f),
        HeaderOriginalTopic \<mapsto> resolveOriginalTopic msg,
        HeaderOriginalPartition \<mapsto>
          resolveOriginalHeader msg HeaderOriginalPartition (itoa (Partition msg)),
        HeaderOriginalOffset \<mapsto> resolveOriginalHeader msg HeaderOriginalOffset (itoa (Offset msg)),
        HeaderFailedAt \<mapsto> Format_RFC3339 c (Now c))"
  by (rule ext) (simp add: buildFailureHeaders_def Let_def map_of_set map_of_filter_key)

lemma map_of_BuildRetryHeaders:
  "map_of (BuildRetryHeaders c msg attempt t f) =
     (map_of (buildFailureHeaders c msg attempt f))(HeaderRetryTime \<mapsto> Format_RFC3339 c t)"
  by (simp add: BuildRetryHeaders_def map_of_set)

lemma wf_buildFailureHeaders: "wf_map (Headers msg) \<Longrightarrow> wf_map (buildFailureHeaders c msg attempt f)"
  by (simp add: buildFailureHeaders_def Let_def wf_map_filter)

lemma wf_BuildRetryHeaders: "wf_map (Headers msg) \<Longrightarrow> wf_map (BuildRetryHeaders c msg attempt t f)"
  by (simp add: BuildRetryHeaders_def wf_buildFailureHeaders)

lemma GetRetryStep_int32: "is_int32 (GetRetryStep msg)"
proof -
  have "is_int32 step" if "parse_int 32 val = Some step" for val step
    using parse_int_range [OF that] by (simp add: is_int32_def)
  then show ?thesis
    by (auto simp: GetRetryStep_def is_int32_def split: option.splits)
qed

lemma GetRetryAttempt_int64: "is_int64 (GetRetryAttempt msg)"
proof -
  have "is_int64 a" if "atoi val = Some a" for val a
    using parse_int_range [of 64 val a] that by (simp add: is_int64_def atoi_def)
  then show ?thesis
    by (auto simp: GetRetryAttempt_def is_int64_def split: option.splits)
qed

lemma resolveOriginalHeader_carried:
  "map_of (Headers m') key = Some v \<Longrightarrow> v \<noteq> [] \<Longrightarrow> resolveOriginalHeader m' key cur = v"
  by (simp add: resolveOriginalHeader_def header_or_empty_def)

lemma republish_lookup:
  "map_of (Headers (republish h msg)) k =
     (if k = HeaderRetryTime then map_option (Format_RFC3339 (hop_clock h)) (hop_time h)
      else map_of (buildFailureHeaders (hop_clock h) msg (hop_attempt h) (hop_failure h)) k)"
  by (simp add: republish_def BuildDLQHeaders_def map_of_BuildRetryHeaders map_of_buildFailureHeaders
      split: option.split)

lemma republish_original:
  assumes "map_of (Headers msg) HeaderOriginalTopic = Some t" "t \<noteq> []"
    and "map_of (Headers msg) HeaderOriginalPartition = Some p" "p \<noteq> []"
    and "map_of (Headers msg) HeaderOriginalOffset = Some x" "x \<noteq> []"
  shows "map_of (Headers (republish h msg)) HeaderOriginalTopic = Some t
    \<and> map_of (Headers (republish h msg)) HeaderOriginalPartition = Some p
    \<and> map_of (Headers (republish h msg)) HeaderOriginalOffset = Some x"
  using assms
  by (simp add: republish_lookup map_of_buildFailureHeaders resolveOriginalTopic_def
      resolveOriginalHeader_carried)

lemma fold_republish_original:
  assumes "map_of (Headers msg) HeaderOriginalTopic = Some t" "t \<noteq> []"
    and "map_of (Headers msg) HeaderOriginalPartition = Some p" "p \<noteq> []"
    and "map_of (Headers msg) HeaderOriginalOffset = Some x" "x \<noteq> []"
  shows "map_of (Headers (fold republish hs msg)) HeaderOriginalTopic = Some t
    \<and> map_of (Headers (fold republish hs msg)) HeaderOriginalPartition = Some p
    \<and> map_of (Headers (fold republish hs msg)) HeaderOriginalOffset = Some x"
  using assms
proof (induction hs arbitrary: msg)
  case Nil
  then show ?case by simp
next
  case (Cons h hs)
  from republish_original [OF Cons.prems, of h] Cons.prems Cons.IH [of "republish h msg"]
  show ?case by simp
qed

lemma republished_header_kept:
  "\<not> isRetryHeader k \<Longrightarrow> map_of (Headers (fold republish hs msg)) k = map_of (Headers msg) k"
proof (induction hs arbitrary: msg)
  case Nil
  then show ?case by simp
next
  case (Cons h hs)
  have "map_of (Headers (republish h msg)) k = map_of (Headers msg) k"
    using Cons.prems by (auto simp: republish_lookup map_of_buildFailureHeaders)
  with Cons show ?case by simp
qed

lemma dom_republish:
  "dom (map_of (Headers (republish h m))) =
     {k \<in> dom (map_of (Headers m)). \<not> isRetryHeader k}
     \<union> {HeaderRetryAttempt, HeaderErrorCode, HeaderErrorMessage, HeaderOriginalTopic,
         HeaderOriginalPartition, HeaderOriginalOffset, HeaderFailedAt}
     \<union> (if resolveStep m (hop_failure h) = 0 then {} else {HeaderRetryStep})
     \<union> (if hop_time h = None then {} else {HeaderRetryTime})"
  by (rule set_eqI) (auto simp: dom_def republish_lookup map_of_buildFailureHeaders split: if_splits)

section \<open>Properties\<close>

text \<open>
  C29: a consumer of the retry topic reads back what the failure wrote: the attempt, the
  step the handler reported or else the one the record arrived with (a resume point is never
  lost), and the error code, \<open>HANDLER_ERROR\<close> when the handler gave none.
\<close>

theorem retry_headers_roundtrip:
  assumes "is_int64 attempt" and "is_int32 (Step f)" and "Err f \<noteq> None"
    and "Headers m' = BuildRetryHeaders c msg attempt t f"
  shows "GetRetryAttempt (Some m') = attempt
    \<and> GetRetryStep (Some m') = (if Step f \<noteq> 0 then Step f else GetRetryStep (Some msg))
    \<and> GetErrorCode (Some m') = (if FCode f \<noteq> [] then FCode f else ''HANDLER_ERROR'')"
proof -
  have lookup: "map_of (Headers m') k = ((map_of (buildFailureHeaders c msg attempt f))
      (HeaderRetryTime \<mapsto> Format_RFC3339 c t)) k" for k
    by (simp add: assms(4) map_of_BuildRetryHeaders)
  have "is_int32 (resolveStep msg f)"
    using assms(2) GetRetryStep_int32 by (simp add: resolveStep_def)
  then have step: "parse_int 32 (itoa (resolveStep msg f)) = Some (resolveStep msg f)"
    by (intro parse_int_itoa) (simp_all add: is_int32_def)
  have "GetRetryStep (Some m') = resolveStep msg f"
    using step by (simp add: GetRetryStep_def lookup map_of_buildFailureHeaders)
  moreover have "GetRetryAttempt (Some m') = attempt"
    using assms(1) by (simp add: GetRetryAttempt_def lookup map_of_buildFailureHeaders atoi_itoa)
  moreover have "GetErrorCode (Some m') = (if FCode f \<noteq> [] then FCode f else ''HANDLER_ERROR'')"
    using assms(3) by (auto simp: GetErrorCode_def header_or_empty_def lookup
        map_of_buildFailureHeaders resolveErrorCode_def classifyError_def)
  ultimately show ?thesis by (simp add: resolveStep_def)
qed

theorem retry_headers_roundtrip_witness:
  "GetRetryStep (Some (wit_msg\<lparr>Headers := BuildRetryHeaders wit_clock wit_msg 1 0 wit_failure\<rparr>)) = 2
   \<and> GetRetryAttempt (Some (wit_msg\<lparr>Headers := BuildRetryHeaders wit_clock wit_msg 1 0 wit_failure\<rparr>)) = 1"
proof -
  have "GetRetryStep (Some wit_msg) = 2"
    by (simp add: GetRetryStep_def wit_msg_def header_defs parse_int_def parse_uint_def Let_def
        digit_val_def)
  then show ?thesis
    using retry_headers_roundtrip [of 1 wit_failure
        "wit_msg\<lparr>Headers := BuildRetryHeaders wit_clock wit_msg 1 0 wit_failure\<rparr>" wit_clock wit_msg 0]
    by (simp add: wit_failure_def is_int64_def is_int32_def)
qed

text \<open>
  C30: the retry time survives the trip through the header text to the second: a consumer of the
  retry topic reads the time that was computed, cut to whole seconds, in whatever zone the two
  processes run and whatever the general layout parser would do with other text.
\<close>

theorem retry_time_roundtrip:
  assumes "valid_offset (zone c t)"
    and "0 \<le> year_of_days ((t div Second + zone c t) div 86400)"
    and "year_of_days ((t div Second + zone c t) div 86400) \<le> 9999"
    and "Headers m' = BuildRetryHeaders c msg attempt t f"
  shows "GetRetryTime fallback (Some m') = t div Second * Second"
  using parse_RFC3339_format [OF assms(1-3)]
  by (simp add: GetRetryTime_def assms(4) map_of_BuildRetryHeaders Format_RFC3339_def parse_time_def)

theorem retry_time_roundtrip_witness:
  "GetRetryTime (\<lambda>_. None)
     (Some (wit_msg\<lparr>Headers := BuildRetryHeaders wit_clock wit_msg 1 (63000000000 * Second + 5) wit_failure\<rparr>))
   = 63000000000 * Second"
proof -
  have "zone wit_clock x = 3600" for x by (simp add: wit_clock_def)
  then show ?thesis
    using retry_time_roundtrip [of wit_clock "63000000000 * Second + 5"
        "wit_msg\<lparr>Headers := BuildRetryHeaders wit_clock wit_msg 1 (63000000000 * Second + 5) wit_failure\<rparr>"
        wit_msg 1 wit_failure "\<lambda>_. None"]
    by (simp add: valid_offset_def Second_def year_of_days_def days_before_year_def)
qed

text \<open>
  C31: however often a message is republished, on the retry topic or to the DLQ, the record
  still names the topic, partition and offset it was first consumed from.
\<close>

theorem origin_preserved:
  assumes "Topic msg \<noteq> []"
    and "\<forall>k\<in>{HeaderOriginalTopic, HeaderOriginalPartition, HeaderOriginalOffset}.
      map_of (Headers msg) k = None"
  shows "map_of (Headers (fold republish (h # hs) msg)) HeaderOriginalTopic = Some (Topic msg)
    \<and> map_of (Headers (fold republish (h # hs) msg)) HeaderOriginalPartition = Some (itoa (Partition msg))
    \<and> map_of (Headers (fold republish (h # hs) msg)) HeaderOriginalOffset = Some (itoa (Offset msg))"
proof -
  have "map_of (Headers (republish h msg)) HeaderOriginalTopic = Some (Topic msg)
    \<and> map_of (Headers (republish h msg)) HeaderOriginalPartition = Some (itoa (Partition msg))
    \<and> map_of (Headers (republish h msg)) HeaderOriginalOffset = Some (itoa (Offset msg))"
    using assms(2) by (simp add: republish_lookup map_of_buildFailureHeaders resolveOriginalTopic_def
        resolveOriginalHeader_def header_or_empty_def)
  then show ?thesis
    using fold_republish_original [of "republish h msg"] assms(1) by simp
qed

theorem origin_preserved_witness:
  "map_of (Headers (fold republish
     [\<lparr>hop_clock = wit_clock, hop_attempt = 1, hop_time = Some 5, hop_failure = wit_failure,
       hop_topic = ''orders.retry'', hop_partition = 0, hop_offset = 7\<rparr>,
      \<lparr>hop_clock = wit_clock, hop_attempt = 2, hop_time = None, hop_failure = wit_failure,
       hop_topic = ''orders.dlq'', hop_partition = 1, hop_offset = 9\<rparr>] wit_msg)) HeaderOriginalTopic
   = Some ''orders''"
  using origin_preserved [of wit_msg
     "\<lparr>hop_clock = wit_clock, hop_attempt = 1, hop_time = Some 5, hop_failure = wit_failure,
       hop_topic = ''orders.retry'', hop_partition = 0, hop_offset = 7\<rparr>"
     "[\<lparr>hop_clock = wit_clock, hop_attempt = 2, hop_time = None, hop_failure = wit_failure,
       hop_topic = ''orders.dlq'', hop_partition = 1, hop_offset = 9\<rparr>]"]
  by (simp add: wit_msg_def header_defs)

text \<open>
  C32: the application's own headers survive every republication. The library's headers are the nine of
  \<open>isRetryHeader\<close>; a header under any other key, one that begins with \<open>easykafka.\<close> included, reaches the
  retry and the DLQ record unchanged however often the message was republished before, no other such
  header appears, every record names its attempt, error and origin, and only a record for the retry topic
  carries a retry time, even when the message arrived with one.
\<close>

theorem application_headers_kept:
  "(\<forall>k. \<not> isRetryHeader k \<longrightarrow> map_of (Headers (fold republish hs msg)) k = map_of (Headers msg) k)
   \<and> (\<forall>h. dom (map_of (Headers (fold republish (hs @ [h]) msg))) =
        {k \<in> dom (map_of (Headers msg)). \<not> isRetryHeader k}
        \<union> {HeaderRetryAttempt, HeaderErrorCode, HeaderErrorMessage, HeaderOriginalTopic,
            HeaderOriginalPartition, HeaderOriginalOffset, HeaderFailedAt}
        \<union> (if resolveStep (fold republish hs msg) (hop_failure h) = 0 then {} else {HeaderRetryStep})
        \<union> (if hop_time h = None then {} else {HeaderRetryTime}))"
proof -
  have kept: "\<not> isRetryHeader k \<Longrightarrow> map_of (Headers (fold republish hs msg)) k = map_of (Headers msg) k" for k
    using republished_header_kept .
  have "dom (map_of (Headers (republish h (fold republish hs msg)))) =
      {k \<in> dom (map_of (Headers (fold republish hs msg))). \<not> isRetryHeader k}
      \<union> {HeaderRetryAttempt, HeaderErrorCode, HeaderErrorMessage, HeaderOriginalTopic,
          HeaderOriginalPartition, HeaderOriginalOffset, HeaderFailedAt}
      \<union> (if resolveStep (fold republish hs msg) (hop_failure h) = 0 then {} else {HeaderRetryStep})
      \<union> (if hop_time h = None then {} else {HeaderRetryTime})" for h
    by (rule dom_republish)
  moreover have "{k \<in> dom (map_of (Headers (fold republish hs msg))). \<not> isRetryHeader k} =
      {k \<in> dom (map_of (Headers msg)). \<not> isRetryHeader k}"
    using kept by (auto simp: dom_def)
  ultimately show ?thesis using kept by simp
qed

theorem application_headers_kept_witness:
  "map_of (Headers (fold republish
     [\<lparr>hop_clock = wit_clock, hop_attempt = 1, hop_time = Some 5, hop_failure = wit_failure,
       hop_topic = ''orders.retry'', hop_partition = 0, hop_offset = 7\<rparr>,
      \<lparr>hop_clock = wit_clock, hop_attempt = 2, hop_time = None, hop_failure = wit_failure,
       hop_topic = ''orders.dlq'', hop_partition = 1, hop_offset = 9\<rparr>]
     (wit_msg\<lparr>Headers := [(''trace'', ''abc''), (''easykafka.tenant'', ''t1'')]\<rparr>))) ''easykafka.tenant'' = Some ''t1''"
proof -
  have "\<not> isRetryHeader ''easykafka.tenant''" by (simp add: isRetryHeader_def header_defs)
  then show ?thesis
    using application_headers_kept [of
        "[\<lparr>hop_clock = wit_clock, hop_attempt = 1, hop_time = Some 5, hop_failure = wit_failure,
           hop_topic = ''orders.retry'', hop_partition = 0, hop_offset = 7\<rparr>,
          \<lparr>hop_clock = wit_clock, hop_attempt = 2, hop_time = None, hop_failure = wit_failure,
           hop_topic = ''orders.dlq'', hop_partition = 1, hop_offset = 9\<rparr>]"
        "wit_msg\<lparr>Headers := [(''trace'', ''abc''), (''easykafka.tenant'', ''t1'')]\<rparr>"]
    by simp
qed

end
