(* ===== verification/Retry_Strategy.thy ===== *)
theory Retry_Strategy
  imports Publisher Strategies Retry_Headers
begin

text \<open>
  The retry strategy (\<open>internal/subscribe/strategy/retry.go\<close>) and the configuration its publisher
  inherits from the consumer (\<open>publisher_config.go\<close>).

  The producer behind the strategy's publisher is the argument \<open>produce\<close> over a state \<open>'w\<close>; the
  clock readings made for the \<open>k\<close>-th message of a call are \<open>tick k\<close>; \<open>settled i\<close> is delivery
  \<open>i\<close> as the report goroutine leaves it when it closes \<open>done\<close>, which is what a wait that ignores
  cancellation returns. Float arithmetic is the argument \<open>F\<close>: the conversions, the product and
  \<open>math.Pow\<close>.
\<close>

section \<open>Configuration\<close>

record retry_config =
  RetryTopic :: string
  DLQTopic :: string
  MaxAttempts :: int
  InitialDelay :: duration
  MaxDelay :: duration
  Multiplier :: float64
  CustomBackoff :: "(int \<Rightarrow> duration) option"
  OnDeliveryError :: "(DeliveryError \<Rightarrow> bool) option"
  rNewProducer :: "factory option"

type_synonym retry_option = "retry_config \<Rightarrow> gerror + retry_config"

definition WithRetryTopic :: "string \<Rightarrow> retry_option" where
  "WithRetryTopic t c =
     (if t = [] then Inl (Plain ''retry topic cannot be empty'') else Inr (c\<lparr>RetryTopic := t\<rparr>))"

definition WithDLQTopic :: "string \<Rightarrow> retry_option" where
  "WithDLQTopic t c =
     (if t = [] then Inl (Plain ''DLQ topic cannot be empty'') else Inr (c\<lparr>DLQTopic := t\<rparr>))"

definition WithMaxAttempts :: "int \<Rightarrow> retry_option" where
  "WithMaxAttempts n c =
     (if n \<le> 0 then Inl (Plain ''max attempts must be positive'') else Inr (c\<lparr>MaxAttempts := n\<rparr>))"

definition WithInitialDelay :: "duration \<Rightarrow> retry_option" where
  "WithInitialDelay d c =
     (if d \<le> 0 then Inl (Plain ''initial delay must be positive'') else Inr (c\<lparr>InitialDelay := d\<rparr>))"

definition WithMaxDelay :: "duration \<Rightarrow> retry_option" where
  "WithMaxDelay d c =
     (if d \<le> 0 then Inl (Plain ''max delay must be positive'') else Inr (c\<lparr>MaxDelay := d\<rparr>))"

text \<open>Comparisons of floats: every comparison with NaN is false.\<close>

fun float_less :: "float64 \<Rightarrow> float64 \<Rightarrow> bool" where
  "float_less NaN _ = False"
| "float_less _ NaN = False"
| "float_less (Inf neg) (Inf neg') = (neg \<and> \<not> neg')"
| "float_less (Inf neg) (Fin _) = neg"
| "float_less (Fin _) (Inf neg) = (\<not> neg)"
| "float_less (Fin p) (Fin q) = (p < q)"

fun float_ge :: "float64 \<Rightarrow> float64 \<Rightarrow> bool" where
  "float_ge NaN _ = False"
| "float_ge _ NaN = False"
| "float_ge x y = (\<not> float_less x y)"

definition WithBackoffMultiplier :: "float64 \<Rightarrow> retry_option" where
  "WithBackoffMultiplier m c =
     (if float_less m (Fin 1) then Inl (Plain ''backoff multiplier must be >= 1.0'')
      else Inr (c\<lparr>Multiplier := m\<rparr>))"

definition WithCustomBackoff :: "(int \<Rightarrow> duration) option \<Rightarrow> retry_option" where
  "WithCustomBackoff fn c =
     (case fn of None \<Rightarrow> Inl (Plain ''custom backoff function cannot be nil'')
      | Some _ \<Rightarrow> Inr (c\<lparr>CustomBackoff := fn\<rparr>))"

definition retry_WithDeliveryErrorFunc :: "(DeliveryError \<Rightarrow> bool) option \<Rightarrow> retry_option" where
  "retry_WithDeliveryErrorFunc fn c =
     (case fn of None \<Rightarrow> Inl (Plain ''delivery error function cannot be nil'')
      | Some _ \<Rightarrow> Inr (c\<lparr>OnDeliveryError := fn\<rparr>))"

definition retry_WithProducerFactory :: "factory option \<Rightarrow> retry_option" where
  "retry_WithProducerFactory f c =
     (case f of None \<Rightarrow> Inl (Plain ''producer factory cannot be nil'')
      | Some _ \<Rightarrow> Inr (c\<lparr>rNewProducer := f\<rparr>))"

definition default_retry_config :: retry_config where
  "default_retry_config =
     \<lparr>RetryTopic = [], DLQTopic = [], MaxAttempts = 3, InitialDelay = Second, MaxDelay = 30 * Second,
      Multiplier = Fin 2, CustomBackoff = None, OnDeliveryError = None, rNewProducer = None\<rparr>"

fun apply_retry_options :: "retry_option list \<Rightarrow> retry_config \<Rightarrow> gerror + retry_config" where
  "apply_retry_options [] c = Inr c"
| "apply_retry_options (opt # opts) c =
     (case opt c of
        Inl err \<Rightarrow> Inl (Errorf [Txt ''invalid retry option: '', W err])
      | Inr c' \<Rightarrow> apply_retry_options opts c')"

record retry_strategy =
  rconfig :: retry_config
  rLogger :: logger
  rpublisher :: "publisher option"
  retryWriter :: "(slice, slice) writer option"
  dlqWriter :: "(slice, slice) writer option"
  inUse :: bool
  rlog :: "logline list"

definition NewRetryStrategy :: "retry_option list \<Rightarrow> gerror + retry_strategy" where
  "NewRetryStrategy opts =
     (case apply_retry_options opts default_retry_config of
        Inl err \<Rightarrow> Inl err
      | Inr cfg \<Rightarrow>
          if RetryTopic cfg = [] then Inl (Plain ''retry topic is required (use WithRetryTopic)'')
          else if DLQTopic cfg = [] then Inl (Plain ''DLQ topic is required (use WithDLQTopic)'')
          else Inr \<lparr>rconfig = cfg, rLogger = Nop, rpublisher = None, retryWriter = None, dlqWriter = None,
                    inUse = False, rlog = []\<rparr>)"

definition retry_SetLogger :: "logger \<Rightarrow> retry_strategy \<Rightarrow> retry_strategy" where
  "retry_SetLogger l r = r\<lparr>rLogger := l\<rparr>"

definition retry_Name :: string where
  "retry_Name = ''retry''"

definition retry_Config :: "retry_strategy \<Rightarrow> retry_config" where
  "retry_Config r = rconfig r"

definition closeTimeout :: duration where
  "closeTimeout = 10 * Second"

section \<open>The publisher's configuration\<close>

definition consumerOnlyPrefixes :: "string list" where
  "consumerOnlyPrefixes =
     [''group.'', ''fetch.'', ''queued.'', ''auto.'', ''enable.auto.'', ''offset.store.'']"

definition consumerOnlyKeys :: "string list" where
  "consumerOnlyKeys =
     [''session.timeout.ms'', ''heartbeat.interval.ms'', ''max.poll.interval.ms'',
      ''coordinator.query.interval.ms'', ''partition.assignment.strategy'',
      ''max.partition.fetch.bytes'', ''isolation.level'', ''consume.callback.max.messages'',
      ''enable.partition.eof'', ''check.crcs'']"

definition isConsumerOnly :: "string \<Rightarrow> bool" where
  "isConsumerOnly key \<longleftrightarrow>
     key \<in> set consumerOnlyKeys \<or> list_ex (\<lambda>p. prefix p key) consumerOnlyPrefixes"

definition PublisherConfig :: "config_map \<Rightarrow> config_map" where
  "PublisherConfig kc =
     filter (\<lambda>(key, value). \<not> (prefix ''go.'' key \<or> isConsumerOnly key)
                            \<and> ManagedKeyReason key = None) kc"

section \<open>Initialize and Close\<close>

record 'w init_config =
  ic_Brokers :: "string list"
  ic_ConsumerGroup :: string
  ic_Handler :: "'w handler option"
  ic_Logger :: logger
  ic_KafkaConfig :: config_map

definition initialize_options :: "retry_config \<Rightarrow> 'h init_config \<Rightarrow> option_fn option list" where
  "initialize_options rc ic =
     [Some (WithBrokers (ic_Brokers ic)), Some (WithKafkaConfig (Some (PublisherConfig (ic_KafkaConfig ic)))),
      Some (WithLogger (ic_Logger ic))]
     @ (case OnDeliveryError rc of None \<Rightarrow> [] | Some fn \<Rightarrow> [Some (WithDeliveryErrorFunc (Some fn))])
     @ (case rNewProducer rc of None \<Rightarrow> [] | Some fn \<Rightarrow> [Some (WithProducerFactory (Some fn))])"

definition retry_topic_of :: "string \<Rightarrow> (slice, slice) topic" where
  "retry_topic_of name =
     \<lparr>Name = name, EncodeKey = Some BytesKey, EncodeValue = Some RawValue, THeaders = []\<rparr>"

text \<open>
  \<open>Initialize\<close> once the claim of the strategy has succeeded. \<open>None\<close> is a panic of \<open>Bind\<close>; otherwise
  the error, the strategy and the new producer's state.
\<close>

definition initialize_claimed ::
  "(float64 \<Rightarrow> int) \<Rightarrow> (factory \<Rightarrow> driver_config \<Rightarrow> gerror + 'w) \<Rightarrow> 'h init_config \<Rightarrow> retry_strategy
     \<Rightarrow> (gerror option \<times> retry_strategy \<times> 'w option) option" where
  "initialize_claimed conv newProducer ic r =
     (case New conv newProducer (initialize_options (rconfig r) ic) of
        Inl err \<Rightarrow>
          Some (Some (Errorf [Txt ''failed to create the retry/DLQ publisher: '', W err]),
                r\<lparr>inUse := False, rLogger := ic_Logger ic\<rparr>, None)
      | Inr (p, w) \<Rightarrow>
          (case Bind (retry_topic_of (RetryTopic (rconfig r))) p of
             Inl _ \<Rightarrow> None
           | Inr (rw, p1) \<Rightarrow>
               (case Bind (retry_topic_of (DLQTopic (rconfig r))) p1 of
                  Inl _ \<Rightarrow> None
                | Inr (dw, p2) \<Rightarrow>
                    Some (None,
                      r\<lparr>rLogger := ic_Logger ic, rpublisher := Some p2, retryWriter := Some rw,
                        dlqWriter := Some dw, rlog := rlog r @ [(Info, None)]\<rparr>, Some w))))"

text \<open>The claim itself is one atomic compare-and-swap.\<close>

definition Initialize ::
  "(float64 \<Rightarrow> int) \<Rightarrow> (factory \<Rightarrow> driver_config \<Rightarrow> gerror + 'w) \<Rightarrow> 'h init_config \<Rightarrow> retry_strategy
     \<Rightarrow> (gerror option \<times> retry_strategy \<times> 'w option) option" where
  "Initialize conv newProducer ic r =
     (if inUse r then Some (Some (SentinelErr ErrStrategyInUse), r, None)
      else initialize_claimed conv newProducer ic (r\<lparr>inUse := True\<rparr>))"

text \<open>\<open>withTimeout d\<close> is \<open>context.WithTimeout(context.Background(), d)\<close>.\<close>

definition retry_Close ::
  "nat \<Rightarrow> 'w producer_ops \<Rightarrow> (duration \<Rightarrow> 'w close_ctx) \<Rightarrow> retry_strategy \<Rightarrow> 'w
     \<Rightarrow> (gerror option \<times> retry_strategy \<times> 'w) option" where
  "retry_Close fuel P withTimeout r w =
     (case rpublisher r of
        None \<Rightarrow> Some (None, r\<lparr>inUse := False\<rparr>, w)
      | Some p \<Rightarrow>
          map_option (\<lambda>(err, p', w'). (err, r\<lparr>rpublisher := Some p', inUse := False\<rparr>, w'))
            (publisher_Close fuel P (withTimeout closeTimeout) p w))"

section \<open>Backoff\<close>

record float_ops =
  f_of_int :: "int \<Rightarrow> float64"
  f_mul :: "float64 \<Rightarrow> float64 \<Rightarrow> float64"
  f_pow :: "float64 \<Rightarrow> float64 \<Rightarrow> float64"
  f_conv :: "float64 \<Rightarrow> int"

text \<open>
  \<open>time.Duration(f)\<close> truncates towards zero; outside the range of the type the result is the
  implementation's, \<open>f_conv\<close>.
\<close>

definition float_to_int64 :: "float_ops \<Rightarrow> float64 \<Rightarrow> int" where
  "float_to_int64 F x =
     (case x of
        Fin q \<Rightarrow> (let t = (if q \<ge> 0 then \<lfloor>q\<rfloor> else \<lceil>q\<rceil>) in if is_int64 t then t else f_conv F x)
      | _ \<Rightarrow> f_conv F x)"

definition computeBackoff :: "float_ops \<Rightarrow> retry_config \<Rightarrow> int \<Rightarrow> duration" where
  "computeBackoff F c attempt =
     (case CustomBackoff c of
        Some fn \<Rightarrow> fn attempt
      | None \<Rightarrow>
          (let delay = f_mul F (f_of_int F (InitialDelay c))
                         (f_pow F (Multiplier c) (f_of_int F (wrap64 (attempt - 1))))
           in if float_ge delay (f_of_int F (MaxDelay c)) then MaxDelay c
              else float_to_int64 F delay))"

section \<open>Handling a failure\<close>

definition sortedHeaders :: "(string, string) gomap \<Rightarrow> header list" where
  "sortedHeaders headers =
     map (\<lambda>k. \<lparr>HKey = k, HValue = Some (case map_of headers k of None \<Rightarrow> [] | Some v \<Rightarrow> v)\<rparr>)
       (sort (map fst headers))"

type_synonym 'w produce_fn = "record_t \<Rightarrow> token \<Rightarrow> 'w \<Rightarrow> gerror option \<times> 'w"

definition send ::
  "'w produce_fn \<Rightarrow> (slice, slice) writer \<Rightarrow> message \<Rightarrow> (string, string) gomap \<Rightarrow> publisher \<Rightarrow> 'w
     \<Rightarrow> (gerror + nat) \<times> publisher \<times> 'w" where
  "send produce wr msg headers p w =
     (if Payload msg = None then SendDelete produce wr (Key msg) (sortedHeaders headers) p w
      else Send produce wr (Key msg) (Payload msg) (sortedHeaders headers) p w)"

record tick =
  tick_now :: gtime
  tick_clock :: clock

definition sendToRetryQueue ::
  "'w produce_fn \<Rightarrow> float_ops \<Rightarrow> retry_config \<Rightarrow> (slice, slice) writer \<Rightarrow> tick \<Rightarrow> message
     \<Rightarrow> failure \<Rightarrow> int \<Rightarrow> publisher \<Rightarrow> 'w \<Rightarrow> (gerror + nat) \<times> publisher \<times> 'w" where
  "sendToRetryQueue produce F c wr tk msg f attempt p w =
     (let delay = computeBackoff F c attempt; retryTime = tick_now tk + delay
      in send produce wr msg (BuildRetryHeaders (tick_clock tk) msg attempt retryTime f) p w)"

definition sendToDLQ ::
  "'w produce_fn \<Rightarrow> (slice, slice) writer \<Rightarrow> tick \<Rightarrow> message \<Rightarrow> failure \<Rightarrow> int \<Rightarrow> publisher \<Rightarrow> 'w
     \<Rightarrow> (gerror + nat) \<times> publisher \<times> 'w" where
  "sendToDLQ produce wr tk msg f attempt p w =
     send produce wr msg (BuildDLQHeaders (tick_clock tk) msg attempt f) p w"

record retry_write =
  w_delivery :: nat
  w_msg :: message
  w_attempt :: int
  w_toDLQ :: bool

definition next_attempt :: "message \<Rightarrow> int" where
  "next_attempt msg = wrap64 (GetRetryAttempt (Some msg) + 1)"

definition is_permanent :: "failure \<Rightarrow> bool" where
  "is_permanent f = (case Err f of None \<Rightarrow> False | Some e \<Rightarrow> errors_Is e ErrPermanent)"

text \<open>
  The sending half of \<open>HandleError\<close>: every record is sent before any is awaited. The two writers
  come from \<open>Initialize\<close>. The result is the error of a send that failed locally, or the writes.
\<close>

fun send_all ::
  "'w produce_fn \<Rightarrow> float_ops \<Rightarrow> retry_config \<Rightarrow> (slice, slice) writer \<Rightarrow> (slice, slice) writer
     \<Rightarrow> failure \<Rightarrow> (nat \<Rightarrow> tick) \<Rightarrow> message list \<Rightarrow> retry_write list \<Rightarrow> logline list \<Rightarrow> publisher \<Rightarrow> 'w
     \<Rightarrow> (gerror + retry_write list) \<times> logline list \<times> publisher \<times> 'w" where
  "send_all produce F c rw dw f tk [] writes lg p w = (Inr writes, lg, p, w)"
| "send_all produce F c rw dw f tk (msg # msgs) writes lg p w =
     (let attempt = next_attempt msg; permanent = is_permanent f; lg = lg @ [(Warn, None)]
      in if permanent \<or> attempt \<ge> MaxAttempts c
         then
           (let code = (if permanent then DLQPermanent else DLQMaxAttempts);
                lg = lg @ [(Error, Some code)]
            in case sendToDLQ produce dw (tk (length writes)) msg f attempt p w of
                 (Inl err, p', w') \<Rightarrow>
                   (Inl (Errorf [Txt ''DLQ write failed: '', W err]), lg @ [(Error, Some DLQWriteFailed)], p', w')
               | (Inr i, p', w') \<Rightarrow>
                   send_all produce F c rw dw f tk msgs
                     (writes @ [\<lparr>w_delivery = i, w_msg = msg, w_attempt = attempt, w_toDLQ = True\<rparr>])
                     lg p' w')
         else
           (case sendToRetryQueue produce F c rw (tk (length writes)) msg f attempt p w of
              (Inl err, p', w') \<Rightarrow>
                (Inl (Errorf [Txt ''retry queue write failed: '', W err]),
                 lg @ [(Error, Some RetryWriteFailed)], p', w')
            | (Inr i, p', w') \<Rightarrow>
                send_all produce F c rw dw f tk msgs
                  (writes @ [\<lparr>w_delivery = i, w_msg = msg, w_attempt = attempt, w_toDLQ = False\<rparr>])
                  lg p' w'))"

fun await_loop ::
  "(nat \<Rightarrow> delivery) \<Rightarrow> publisher \<Rightarrow> retry_write list \<Rightarrow> gerror list \<Rightarrow> logline list
     \<Rightarrow> gerror list \<times> logline list" where
  "await_loop settled p [] failures lg = (failures, lg)"
| "await_loop settled p (wr # wrs) failures lg =
     (case snd (Wait (deliveries p ! w_delivery wr) (DeliveryDone (settled (w_delivery wr)))) of
        Some err \<Rightarrow>
          await_loop settled p wrs (failures @ [err])
            (lg @ [(Error, Some (if w_toDLQ wr then DLQWriteFailed else RetryWriteFailed))])
      | None \<Rightarrow> await_loop settled p wrs failures (lg @ [(Info, None)]))"

definition awaitWrites ::
  "(nat \<Rightarrow> delivery) \<Rightarrow> publisher \<Rightarrow> retry_write list \<Rightarrow> logline list \<Rightarrow> gerror option \<times> logline list" where
  "awaitWrites settled p writes lg =
     (let (failures, lg) = await_loop settled p writes [] lg
      in if length failures > 0
         then (Some (Errorf [Txt ''retry or DLQ write not acknowledged: '', W (Join failures)]), lg)
         else (None, lg))"

text \<open>
  \<open>HandleError\<close>. The writers are set together with the publisher, so past the first check both
  are there.
\<close>

definition retry_HandleError ::
  "'w produce_fn \<Rightarrow> float_ops \<Rightarrow> (nat \<Rightarrow> tick) \<Rightarrow> (nat \<Rightarrow> delivery) \<Rightarrow> message list \<Rightarrow> failure
     \<Rightarrow> retry_strategy \<times> 'w \<Rightarrow> gerror option \<times> retry_strategy \<times> 'w" where
  "retry_HandleError produce F tk settled msgs f s =
     (let (r, w) = s
      in case rpublisher r of
           None \<Rightarrow>
             (Some (Plain ''retry strategy not initialized; call Initialize() first''), r, w)
         | Some p \<Rightarrow>
             (case send_all produce F (rconfig r) (the (retryWriter r)) (the (dlqWriter r)) f tk msgs []
                     (rlog r) p w of
                (Inl err, lg, p', w') \<Rightarrow> (Some err, r\<lparr>rpublisher := Some p', rlog := lg\<rparr>, w')
              | (Inr writes, lg, p', w') \<Rightarrow>
                  (let (res, lg') = awaitWrites settled p' writes lg
                   in (res, r\<lparr>rpublisher := Some p', rlog := lg'\<rparr>, w'))))"

section \<open>What a call writes\<close>

text \<open>
  The record \<open>HandleError\<close> has to write for a message: to the DLQ when the failure is permanent
  or the attempts are used up, to the retry topic otherwise, with the consumed key and payload.
\<close>

definition goes_to_dlq :: "retry_config \<Rightarrow> failure \<Rightarrow> message \<Rightarrow> bool" where
  "goes_to_dlq c f m \<longleftrightarrow> is_permanent f \<or> next_attempt m \<ge> MaxAttempts c"

definition routed_record ::
  "float_ops \<Rightarrow> retry_config \<Rightarrow> failure \<Rightarrow> tick \<Rightarrow> message \<Rightarrow> record_t" where
  "routed_record F c f tk m =
     \<lparr>RTopic = (if goes_to_dlq c f m then DLQTopic c else RetryTopic c),
      RKey = Key m, RValue = Payload m,
      RHeaders = sortedHeaders
        (if goes_to_dlq c f m then BuildDLQHeaders (tick_clock tk) m (next_attempt m) f
         else BuildRetryHeaders (tick_clock tk) m (next_attempt m)
                (tick_now tk + computeBackoff F c (next_attempt m)) f)\<rparr>"

fun routed_records ::
  "float_ops \<Rightarrow> retry_config \<Rightarrow> failure \<Rightarrow> (nat \<Rightarrow> tick) \<Rightarrow> nat \<Rightarrow> message list \<Rightarrow> record_t list" where
  "routed_records F c f tk k [] = []"
| "routed_records F c f tk k (m # ms) = routed_record F c f (tk k) m # routed_records F c f tk (Suc k) ms"

definition bound_writer :: "string \<Rightarrow> (slice, slice) writer" where
  "bound_writer name =
     \<lparr>wName = name, wEncodeKey = BytesKey, wEncodeValue = RawValue, wHeaders = []\<rparr>"

text \<open>A strategy no consumer holds yet, or one whose writers \<open>Initialize\<close> has bound.\<close>

definition retry_ready :: "retry_strategy \<times> 'w \<Rightarrow> bool" where
  "retry_ready s \<longleftrightarrow>
     (let r = fst s
      in rpublisher r = None
         \<or> retryWriter r = Some (bound_writer (RetryTopic (rconfig r)))
           \<and> dlqWriter r = Some (bound_writer (DLQTopic (rconfig r))))"

text \<open>A message is resolved when some record that copies it was acknowledged.\<close>

definition retry_resolved :: "(nat \<Rightarrow> delivery) \<Rightarrow> retry_strategy \<times> 'w \<Rightarrow> message \<Rightarrow> bool" where
  "retry_resolved settled s m \<longleftrightarrow>
     (case rpublisher (fst s) of
        None \<Rightarrow> False
      | Some p \<Rightarrow>
          (\<exists>i < length (deliveries p).
             (let rec = d_record (deliveries p ! i)
              in RKey rec = Key m \<and> RValue rec = Payload m
                 \<and> RTopic rec \<in> {RetryTopic (rconfig (fst s)), DLQTopic (rconfig (fst s))})
             \<and> d_err (settled i) = None))"

section \<open>Lemmas\<close>

lemmas Initialize_defs = Initialize_def initialize_claimed_def

lemma length_routed_records [simp]: "length (routed_records F c f tk k ms) = length ms"
  by (induction ms arbitrary: k) auto

lemma nth_routed_records:
  "i < length ms \<Longrightarrow> routed_records F c f tk k ms ! i = routed_record F c f (tk (k + i)) (ms ! i)"
proof (induction ms arbitrary: k i)
  case Nil
  then show ?case by simp
next
  case (Cons m ms)
  then show ?case by (cases i) auto
qed

lemma send_bound:
  "send produce (bound_writer name) msg headers p w =
     enqueue produce \<lparr>RTopic = name, RKey = Key msg, RValue = Payload msg,
                     RHeaders = sortedHeaders headers\<rparr> p w"
  by (cases "Payload msg")
    (simp_all add: send_def bound_writer_def Send_def SendDelete_def writer_record_def BytesKey_def
      RawValue_def)

text \<open>Sending one message is enqueuing its routed record.\<close>

lemma send_routed:
  "(if goes_to_dlq c f m
    then sendToDLQ produce (bound_writer (DLQTopic c)) tk m f (next_attempt m) p w
    else sendToRetryQueue produce F c (bound_writer (RetryTopic c)) tk m f (next_attempt m) p w)
   = enqueue produce (routed_record F c f tk m) p w"
  by (simp add: sendToDLQ_def sendToRetryQueue_def Let_def send_bound routed_record_def)

lemma enqueue_Inr:
  assumes "enqueue produce r p w = (Inr i, p', w')"
  shows "i = length (deliveries p)" and "p' = p\<lparr>deliveries := deliveries p @ [newDelivery r]\<rparr>"
    and "\<not> closed p" and "fatal p = None" and "produce r (DeliveryToken i) w = (None, w')"
  using assms by (auto simp: enqueue_defs Let_def split: if_splits option.splits prod.splits)

lemma enqueue_Inl:
  assumes "enqueue produce r p w = (Inl e, p', w')"
  shows "p' = p \<or> p' = p\<lparr>deliveries := deliveries p @ [newDelivery r]\<rparr>"
  using assms by (auto simp: enqueue_defs Let_def split: if_splits option.splits prod.splits)

text \<open>The loop over the messages, one enqueue at a time.\<close>

abbreviation send_bound_all where
  "send_bound_all produce F c \<equiv>
     send_all produce F c (bound_writer (RetryTopic c)) (bound_writer (DLQTopic c))"

definition write_of :: "retry_config \<Rightarrow> failure \<Rightarrow> message \<Rightarrow> nat \<Rightarrow> retry_write" where
  "write_of c f m i =
     \<lparr>w_delivery = i, w_msg = m, w_attempt = next_attempt m, w_toDLQ = goes_to_dlq c f m\<rparr>"

definition send_lines :: "retry_config \<Rightarrow> failure \<Rightarrow> message \<Rightarrow> logline list" where
  "send_lines c f m =
     (Warn, None) # (if goes_to_dlq c f m
       then [(Error, Some (if is_permanent f then DLQPermanent else DLQMaxAttempts))] else [])"

lemma send_all_Cons:
  "send_bound_all produce F c f tk (m # ms) ws lg p w =
     (case enqueue produce (routed_record F c f (tk (length ws)) m) p w of
        (Inl e, p', w') \<Rightarrow>
          (Inl (Errorf [Txt (if goes_to_dlq c f m then ''DLQ write failed: ''
                             else ''retry queue write failed: ''), W e]),
           lg @ send_lines c f m
              @ [(Error, Some (if goes_to_dlq c f m then DLQWriteFailed else RetryWriteFailed))],
           p', w')
      | (Inr i, p', w') \<Rightarrow>
          send_bound_all produce F c f tk ms (ws @ [write_of c f m i]) (lg @ send_lines c f m) p' w')"
proof (cases "goes_to_dlq c f m")
  case True
  then have "sendToDLQ produce (bound_writer (DLQTopic c)) (tk (length ws)) m f (next_attempt m) p w
    = enqueue produce (routed_record F c f (tk (length ws)) m) p w"
    using send_routed [of c f m produce "tk (length ws)" p w F] by simp
  with True show ?thesis
    by (cases "is_permanent f")
      (simp_all add: Let_def goes_to_dlq_def write_of_def send_lines_def split: prod.split sum.split)
next
  case False
  then have "sendToRetryQueue produce F c (bound_writer (RetryTopic c)) (tk (length ws)) m f (next_attempt m) p w
    = enqueue produce (routed_record F c f (tk (length ws)) m) p w"
    using send_routed [of c f m produce "tk (length ws)" p w F] by simp
  with False show ?thesis
    by (simp add: Let_def goes_to_dlq_def write_of_def send_lines_def split: prod.split sum.split)
qed

declare send_all.simps(2) [simp del]

lemma send_all_ok:
  assumes "send_bound_all produce F c f tk ms ws lg p w = (Inr out, lg', p', w')"
  shows "deliveries p' = deliveries p @ map newDelivery (routed_records F c f tk (length ws) ms)
    \<and> out = ws @ map2 (write_of c f) ms [length (deliveries p) ..< length (deliveries p) + length ms]
    \<and> pconfig p' = pconfig p"
  using assms
proof (induction ms arbitrary: ws lg p w)
  case Nil
  then show ?case by simp
next
  case (Cons m ms)
  obtain q p1 w1 where e: "enqueue produce (routed_record F c f (tk (length ws)) m) p w = (q, p1, w1)"
    by (cases "enqueue produce (routed_record F c f (tk (length ws)) m) p w") auto
  with Cons.prems obtain i where q: "q = Inr i" by (cases q) (auto simp: send_all_Cons)
  note E = enqueue_Inr [OF e [unfolded q]]
  from Cons.prems e q have "send_bound_all produce F c f tk ms (ws @ [write_of c f m i])
    (lg @ send_lines c f m) p1 w1 = (Inr out, lg', p', w')" by (simp add: send_all_Cons)
  from Cons.IH [OF this] E(1,2) show ?case by (simp add: upt_rec)
qed

text \<open>Whatever a call returns, it only adds deliveries.\<close>

lemma send_all_extends:
  assumes "send_bound_all produce F c f tk ms ws lg p w = (res, lg', p', w')"
  shows "\<exists>ds. deliveries p' = deliveries p @ ds \<and> closed p' = closed p"
  using assms
proof (induction ms arbitrary: ws lg p w)
  case Nil
  then show ?case by simp
next
  case (Cons m ms)
  obtain q p1 w1 where e: "enqueue produce (routed_record F c f (tk (length ws)) m) p w = (q, p1, w1)"
    by (cases "enqueue produce (routed_record F c f (tk (length ws)) m) p w") auto
  show ?case
  proof (cases q)
    case (Inl err)
    from enqueue_Inl [OF e [unfolded Inl]] e Cons.prems Inl show ?thesis
      by (auto simp: send_all_Cons)
  next
    case (Inr i)
    note E = enqueue_Inr [OF e [unfolded Inr]]
    from Cons.prems e Inr Cons.IH [of "ws @ [write_of c f m i]" "lg @ send_lines c f m" p1 w1]
    show ?thesis by (auto simp: send_all_Cons E(2))
  qed
qed

text \<open>The wait joins the failures of the writes, in order.\<close>

definition write_error :: "(nat \<Rightarrow> delivery) \<Rightarrow> publisher \<Rightarrow> retry_write \<Rightarrow> gerror option" where
  "write_error settled p wr =
     snd (Wait (deliveries p ! w_delivery wr) (DeliveryDone (settled (w_delivery wr))))"

lemma await_loop_failures:
  "fst (await_loop settled p wrs failures lg) = failures @ List.map_filter (write_error settled p) wrs"
  by (induction wrs arbitrary: failures lg)
    (simp_all add: write_error_def List.map_filter_def split: option.split)

lemma map_filter_Nil: "List.map_filter g xs = [] \<longleftrightarrow> (\<forall>x\<in>set xs. g x = None)"
  by (induction xs) (auto simp: List.map_filter_def)

lemma awaitWrites_nil:
  "fst (awaitWrites settled p wrs lg) = None \<longleftrightarrow> (\<forall>wr\<in>set wrs. write_error settled p wr = None)"
proof -
  obtain fs lg1 where a: "await_loop settled p wrs [] lg = (fs, lg1)" by fastforce
  with await_loop_failures [of settled p wrs "[]" lg]
  have "fs = List.map_filter (write_error settled p) wrs" by simp
  with a show ?thesis by (simp add: awaitWrites_def map_filter_Nil)
qed

lemma write_error_new:
  "w_delivery wr < length (deliveries p) \<Longrightarrow> \<not> d_done (deliveries p ! w_delivery wr) \<Longrightarrow>
     write_error settled p wr = d_err (settled (w_delivery wr))"
  by (simp add: write_error_def Wait_def resolved_def)


text \<open>A publisher that is open accepts every record of a producer that refuses none.\<close>

definition accepts :: "'w produce_fn \<Rightarrow> bool" where
  "accepts produce \<longleftrightarrow> (\<forall>r tok w. fst (produce r tok w) = None)"

lemma enqueue_accepts:
  assumes "accepts produce" and "\<not> closed p" and "fatal p = None"
  shows "\<exists>i p' w'. enqueue produce r p w = (Inr i, p', w') \<and> \<not> closed p' \<and> fatal p' = None"
proof -
  obtain w' where "produce r (DeliveryToken (length (deliveries p))) w = (None, w')"
    using assms(1) by (metis accepts_def prod.collapse)
  with assms(2,3) show ?thesis by (simp add: enqueue_defs)
qed

lemma send_all_accepts:
  assumes "accepts produce" and "\<not> closed p" and "fatal p = None"
  shows "\<exists>out lg' p' w'. send_bound_all produce F c f tk ms ws lg p w = (Inr out, lg', p', w')"
  using assms(2,3)
proof (induction ms arbitrary: ws lg p w)
  case Nil
  then show ?case by simp
next
  case (Cons m ms)
  from enqueue_accepts [OF assms(1) Cons.prems] obtain i p1 w1 where
    "enqueue produce (routed_record F c f (tk (length ws)) m) p w = (Inr i, p1, w1)"
    "\<not> closed p1" "fatal p1 = None" by metis
  with Cons.IH show ?case by (simp add: send_all_Cons)
qed

lemma map_delivery_write_of:
  "length ns = length ms \<Longrightarrow> map w_delivery (map2 (write_of c f) ms ns) = ns"
  by (induction ns ms rule: list_induct2) (simp_all add: write_of_def)

lemma all_atLeastLessThan: "(\<forall>i\<in>{n ..< n + l}. P i) \<longleftrightarrow> (\<forall>k < (l::nat). P (n + k))"
  by (auto simp: Ball_def) (metis le_add_diff_inverse nat_add_left_cancel_less)

text \<open>
  \<open>HandleError\<close> of an initialised strategy, once every record is sent: the publisher holds one
  new delivery per message, and the call is nil exactly when all of them were acknowledged.
\<close>

lemma handle_sent:
  assumes ready: "retry_ready (r, w)" and pub: "rpublisher r = Some p"
    and sent: "send_bound_all produce F (rconfig r) f tk msgs [] (rlog r) p w = (Inr out, lg', p', w')"
  obtains res lg'' where
    "retry_HandleError produce F tk settled msgs f (r, w)
       = (res, r\<lparr>rpublisher := Some p', rlog := lg''\<rparr>, w')"
    "deliveries p' = deliveries p @ map newDelivery (routed_records F (rconfig r) f tk 0 msgs)"
    "res = None \<longleftrightarrow> (\<forall>k < length msgs. d_err (settled (length (deliveries p) + k)) = None)"
proof -
  note S = send_all_ok [OF sent]
  have wr: "retryWriter r = Some (bound_writer (RetryTopic (rconfig r)))"
    "dlqWriter r = Some (bound_writer (DLQTopic (rconfig r)))"
    using ready pub by (auto simp: retry_ready_def Let_def)
  obtain res lg'' where aw: "awaitWrites settled p' out lg' = (res, lg'')" by fastforce
  have h: "retry_HandleError produce F tk settled msgs f (r, w)
      = (res, r\<lparr>rpublisher := Some p', rlog := lg''\<rparr>, w')"
    using wr pub sent aw by (simp add: retry_HandleError_def)
  have "map w_delivery out = [length (deliveries p) ..< length (deliveries p) + length msgs]"
    using S map_delivery_write_of [of "[length (deliveries p) ..< length (deliveries p) + length msgs]" msgs]
    by (simp del: map_map)
  then have img: "w_delivery ` set out = {length (deliveries p) ..< length (deliveries p) + length msgs}"
    by (metis set_map set_upt)
  have we: "write_error settled p' x = d_err (settled (w_delivery x))" if "x \<in> set out" for x
  proof (rule write_error_new)
    from that img have "w_delivery x \<in> {length (deliveries p) ..< length (deliveries p) + length msgs}"
      by blast
    then show "w_delivery x < length (deliveries p')" "\<not> d_done (deliveries p' ! w_delivery x)"
      using S by (auto simp: nth_append newDelivery_def)
  qed
  have "res = None \<longleftrightarrow> (\<forall>x\<in>set out. d_err (settled (w_delivery x)) = None)"
    using awaitWrites_nil [of settled p' out lg'] aw we by simp
  also have "\<dots> \<longleftrightarrow> (\<forall>i\<in>w_delivery ` set out. d_err (settled i) = None)" by simp
  also have "\<dots> \<longleftrightarrow> (\<forall>k < length msgs. d_err (settled (length (deliveries p) + k)) = None)"
    unfolding img by (rule all_atLeastLessThan)
  finally show thesis using h S by (intro that) auto
qed


lemma handle_cases:
  assumes "retry_ready (r, w)" and "retry_HandleError produce F tk settled msgs f (r, w) = (res, r', w')"
  obtains (uninitialised) "rpublisher r = None" "res \<noteq> None" "r' = r"
  | (refused) p p' ds lg where "rpublisher r = Some p" "res \<noteq> None"
      "r' = r\<lparr>rpublisher := Some p', rlog := lg\<rparr>" "deliveries p' = deliveries p @ ds"
  | (sent) p p' lg where "rpublisher r = Some p" "r' = r\<lparr>rpublisher := Some p', rlog := lg\<rparr>"
      "deliveries p' = deliveries p @ map newDelivery (routed_records F (rconfig r) f tk 0 msgs)"
      "res = None \<longleftrightarrow> (\<forall>k < length msgs. d_err (settled (length (deliveries p) + k)) = None)"
proof (cases "rpublisher r")
  case None
  with assms(2) show ?thesis by (intro uninitialised) (auto simp: retry_HandleError_def)
next
  case (Some p)
  obtain q lg1 p1 w1 where
    sa: "send_bound_all produce F (rconfig r) f tk msgs [] (rlog r) p w = (q, lg1, p1, w1)"
    by (metis prod_cases4)
  show ?thesis
  proof (cases q)
    case (Inl err)
    have "retryWriter r = Some (bound_writer (RetryTopic (rconfig r)))"
      "dlqWriter r = Some (bound_writer (DLQTopic (rconfig r)))"
      using assms(1) Some by (auto simp: retry_ready_def Let_def)
    with assms(2) Some sa Inl have "res = Some err" "r' = r\<lparr>rpublisher := Some p1, rlog := lg1\<rparr>"
      by (auto simp: retry_HandleError_def)
    with Some send_all_extends [OF sa] show ?thesis using refused by blast
  next
    case (Inr out)
    show ?thesis
    proof (rule handle_sent [OF assms(1) Some sa [unfolded Inr], of settled])
      fix q' lg''
      assume "retry_HandleError produce F tk settled msgs f (r, w)
          = (q', r\<lparr>rpublisher := Some p1, rlog := lg''\<rparr>, w1)"
        and d: "deliveries p1 = deliveries p @ map newDelivery (routed_records F (rconfig r) f tk 0 msgs)"
        and q': "q' = None \<longleftrightarrow> (\<forall>k < length msgs. d_err (settled (length (deliveries p) + k)) = None)"
      with assms(2) have "q' = res" "r' = r\<lparr>rpublisher := Some p1, rlog := lg''\<rparr>" by simp_all
      with sent [OF Some _ d] q' show ?thesis by simp
    qed
  qed
qed

lemma retry_ready_handle:
  "retry_HandleError produce F tk settled msgs f s = (res, s') \<Longrightarrow> retry_ready s \<Longrightarrow> retry_ready s'"
proof -
  assume h: "retry_HandleError produce F tk settled msgs f s = (res, s')" and rd: "retry_ready s"
  obtain r w r' w' where s: "s = (r, w)" "s' = (r', w')" by (meson surj_pair)
  from rd h show "retry_ready s'"
    unfolding s by (rule handle_cases) (use rd [unfolded s] in \<open>auto simp: retry_ready_def Let_def\<close>)
qed

lemma retry_resolved_None: "rpublisher r = None \<Longrightarrow> \<not> retry_resolved settled (r, w) m"
  by (simp add: retry_resolved_def)

lemma retry_resolved_extend:
  assumes "retry_resolved settled (r, w) m" and "rpublisher r = Some p"
    and "deliveries p' = deliveries p @ ds"
  shows "retry_resolved settled (r\<lparr>rpublisher := Some p', rlog := lg\<rparr>, w') m"
  using assms by (auto simp: retry_resolved_def Let_def nth_append intro: trans_less_add1)

lemma routed_record_copies:
  "RKey (routed_record F c f tk m) = Key m" "RValue (routed_record F c f tk m) = Payload m"
  "RTopic (routed_record F c f tk m) = (if goes_to_dlq c f m then DLQTopic c else RetryTopic c)"
  by (simp_all add: routed_record_def)

lemma retry_nil_resolves:
  assumes "retry_HandleError produce F tk settled msgs f (r, w) = (None, r', w')"
    and "retry_ready (r, w)" and "m \<in> set msgs"
  shows "retry_resolved settled (r', w') m"
proof (rule handle_cases [OF assms(2,1)])
  fix p p' lg
  assume P: "r' = r\<lparr>rpublisher := Some p', rlog := lg\<rparr>"
    "deliveries p' = deliveries p @ map newDelivery (routed_records F (rconfig r) f tk 0 msgs)"
    "None = None \<longleftrightarrow> (\<forall>k < length msgs. d_err (settled (length (deliveries p) + k)) = None)"
  obtain k where k: "k < length msgs" "msgs ! k = m" using assms(3) by (auto simp: in_set_conv_nth)
  have "length (deliveries p) + k < length (deliveries p')" using P(2) k by simp
  moreover have "d_record (deliveries p' ! (length (deliveries p) + k)) = routed_record F (rconfig r) f (tk k) m"
    using P(2) k by (simp add: nth_append nth_routed_records newDelivery_def)
  moreover have "d_err (settled (length (deliveries p) + k)) = None" using P(3) k by simp
  ultimately show ?thesis using P(1)
    by (auto simp: retry_resolved_def Let_def routed_record_copies
        intro!: exI [of _ "length (deliveries p) + k"])
qed simp_all

text \<open>The retry strategy keeps the contract of an error strategy, for any producer and clock.\<close>

interpretation retry: error_strategy "retry_HandleError produce F tk settled" retry_ready
    "retry_resolved settled" for produce F tk settled
proof unfold_locales
  fix msgs f s r s' and m :: message
  assume h: "retry_HandleError produce F tk settled msgs f s = (r, s')" and rd: "retry_ready s"
  show "retry_ready s'" using retry_ready_handle [OF h rd] .
  assume res: "retry_resolved settled s m"
  obtain a b c d where s: "s = (a, b)" "s' = (c, d)" by (meson surj_pair)
  from rd h res show "retry_resolved settled s' m"
    unfolding s by (elim handle_cases) (auto intro: retry_resolved_extend simp: retry_resolved_None)
next
  fix msgs f s s' and m :: message
  assume "retry_HandleError produce F tk settled msgs f s = (None, s')" "retry_ready s" "m \<in> set msgs"
  then show "retry_resolved settled s' m" by (cases s; cases s') (auto intro: retry_nil_resolves)
qed

end
