(* ===== verification/Retry_Properties.thy ===== *)
theory Retry_Properties
  imports Retry_Strategy
begin

text \<open>
  What the retry strategy promises: where a failed message goes and when \<open>HandleError\<close> may return
  nil, how long a retry waits, what \<open>Initialize\<close> leaves and which inherited settings it can fail on.
\<close>

section \<open>Definitions of the statements\<close>

text \<open>
  What the backoff needs of float arithmetic: an \<open>int64\<close> converts to a finite float, positive for
  a positive number, with no float strictly between the number and its conversion; \<open>math.Pow\<close> of
  a multiplier of at least 1 is not NaN and not negative, and nor is its product with a positive
  number.
\<close>

definition float_ops_ok :: "float_ops \<Rightarrow> bool" where
  "float_ops_ok F \<longleftrightarrow>
     (\<forall>n. is_int64 n \<longrightarrow> (\<exists>q. f_of_int F n = Fin q \<and> (0 < n \<longrightarrow> 0 < q)))
     \<and> (\<forall>n q x y. is_int64 n \<longrightarrow> f_mul F x y = Fin q \<longrightarrow> float_less (Fin q) (f_of_int F n) \<longrightarrow> q \<le> of_int n)
     \<and> (\<forall>x y. float_ge x (Fin 1) \<longrightarrow> y \<noteq> NaN \<longrightarrow> float_ge (f_pow F x y) (Fin 0))
     \<and> (\<forall>p y. 0 < p \<longrightarrow> float_ge y (Fin 0) \<longrightarrow> float_ge (f_mul F (Fin p) y) (Fin 0))"

text \<open>Exact rational arithmetic is one such arithmetic.\<close>

fun exact_mul :: "float64 \<Rightarrow> float64 \<Rightarrow> float64" where
  "exact_mul (Fin p) (Fin q) = Fin (p * q)"
| "exact_mul _ _ = Inf False"

fun exact_pow :: "float64 \<Rightarrow> float64 \<Rightarrow> float64" where
  "exact_pow (Fin p) (Fin q) = Fin (p ^ nat \<lfloor>q\<rfloor>)"
| "exact_pow _ _ = Inf False"

definition exact_ops :: float_ops where
  "exact_ops = \<lparr>f_of_int = \<lambda>n. Fin (of_int n), f_mul = exact_mul, f_pow = exact_pow, f_conv = \<lambda>_. 0\<rparr>"

text \<open>
  What is documented of a NaN: \<open>math.Pow(NaN, y)\<close> is NaN except for \<open>y = 0\<close>, where it is 1; a product with
  NaN is NaN, a product with 1 is the other factor; an integer converts to 0 only when it is 0.
\<close>

definition nan_ops_ok :: "float_ops \<Rightarrow> bool" where
  "nan_ops_ok F \<longleftrightarrow>
     (\<forall>y. f_pow F NaN y = (if y = Fin 0 then Fin 1 else NaN))
     \<and> (\<forall>x. f_mul F x NaN = NaN) \<and> (\<forall>q. f_mul F (Fin q) (Fin 1) = Fin q)
     \<and> (\<forall>n. is_int64 n \<longrightarrow> (\<exists>q. f_of_int F n = Fin q \<and> (q = 0 \<longleftrightarrow> n = 0)))"

text \<open>Exact arithmetic with NaN, and the conversion as amd64 makes it.\<close>

definition nan_ops :: float_ops where
  "nan_ops =
     \<lparr>f_of_int = \<lambda>n. Fin (of_int n),
      f_mul = \<lambda>x y. if x = NaN \<or> y = NaN then NaN else exact_mul x y,
      f_pow = \<lambda>x y. if y = Fin 0 then Fin 1 else if x = NaN then NaN else exact_pow x y,
      f_conv = \<lambda>_. - (2 ^ 63)\<rparr>"


text \<open>A strategy made with two topics, and the same one holding an open publisher.\<close>

definition wit_config :: retry_config where
  "wit_config = default_retry_config\<lparr>RetryTopic := ''orders.retry'', DLQTopic := ''orders.dlq''\<rparr>"

definition wit_retry :: retry_strategy where
  "wit_retry =
     \<lparr>rconfig = wit_config, rLogger = Nop, rpublisher = Some (new_publisher defaultConfig),
      retryWriter = Some (bound_writer ''orders.retry''), dlqWriter = Some (bound_writer ''orders.dlq''),
      inUse = True, rlog = []\<rparr>"

definition wit_settled :: "gerror option \<Rightarrow> nat \<Rightarrow> delivery" where
  "wit_settled e i =
     \<lparr>d_record = \<lparr>RTopic = [], RKey = None, RValue = None, RHeaders = []\<rparr>, d_done = True,
      d_result = no_result, d_err = e\<rparr>"

definition wit_tick :: "nat \<Rightarrow> tick" where
  "wit_tick k = \<lparr>tick_now = 63000000000 * Second, tick_clock = wit_clock\<rparr>"

definition wit_produce :: "unit produce_fn" where
  "wit_produce r tok w = (None, w)"

section \<open>Lemmas\<close>

lemma wit_retry_ready: "retry_ready (wit_retry, w)"
  by (simp add: retry_ready_def wit_retry_def wit_config_def)

lemma wit_retry_publisher: "rpublisher wit_retry = Some (new_publisher defaultConfig)"
  by (simp add: wit_retry_def)

lemma wit_produce_accepts: "accepts wit_produce"
  by (simp add: accepts_def wit_produce_def)

lemma exact_ops_ok: "float_ops_ok exact_ops"
proof -
  have pow: "float_ge (exact_pow x y) (Fin 0)" if "float_ge x (Fin 1)" for x y
    using that by (cases x; cases y) (auto simp: not_less)
  have mul: "float_ge (exact_mul (Fin p) y) (Fin 0)" if "0 < p" "float_ge y (Fin 0)" for p y
    using that by (cases y) (auto simp: not_less)
  show ?thesis
    using pow mul by (auto simp: float_ops_ok_def exact_ops_def)
qed

lemma is_int64_le: "0 \<le> a \<Longrightarrow> a \<le> n \<Longrightarrow> is_int64 n \<Longrightarrow> is_int64 a"
  unfolding is_int64_def by linarith

lemma float_to_int64_range:
  assumes "float_ge x (Fin 0)" and "x = Fin q" and "q \<le> of_int n" and "is_int64 n"
  shows "0 \<le> float_to_int64 F x \<and> float_to_int64 F x \<le> n"
proof -
  have q: "0 \<le> q" using assms(1,2) by simp
  then have "0 \<le> \<lfloor>q\<rfloor>" "\<lfloor>q\<rfloor> \<le> n" using assms(3) by (simp_all add: floor_le_iff le_floor_iff)
  moreover from this assms(4) have "is_int64 \<lfloor>q\<rfloor>" by (rule is_int64_le)
  ultimately show ?thesis using q assms(2) by (simp add: float_to_int64_def)
qed

lemma Bind_retry_topic:
  "name \<noteq> [] \<Longrightarrow> Bind (retry_topic_of name) p =
     Inr (bound_writer name, (if name \<in> set (topics p) then p else p\<lparr>topics := topics p @ [name]\<rparr>))"
  by (simp add: Bind_def retry_topic_of_def topic_validate_def bound_writer_def)


lemma PublisherConfig_accepted:
  "WithKafkaConfig (Some (PublisherConfig m)) c = Inr (c\<lparr>kafkaConfig := PublisherConfig m\<rparr>)"
  by (auto simp: WithKafkaConfig_ok PublisherConfig_def)


lemma apply_retry_options_snoc:
  "apply_retry_options (opts @ [opt]) c =
     (case apply_retry_options opts c of Inl err \<Rightarrow> Inl err | Inr c' \<Rightarrow> apply_retry_options [opt] c')"
  by (induction opts arbitrary: c) (auto split: sum.split)

lemma nan_ops_documented: "nan_ops_ok nan_ops"
  by (simp add: nan_ops_ok_def nan_ops_def)


text \<open>What \<open>Initialize\<close> gives \<open>New\<close> fails only on the brokers or on the in-flight limit.\<close>

lemma initialize_options_build:
  "build_config conv (initialize_options rc ic) = Inr built \<Longrightarrow>
     kafkaConfig built = PublisherConfig (ic_KafkaConfig ic) \<and> brokers built = ic_Brokers ic
     \<and> idempotence built \<and> \<not> acksLeader built \<and> deliveryTimeout built = 30 * Second
     \<and> onDeliveryError built = OnDeliveryError rc \<and> cLogger built = ic_Logger ic
     \<and> cNewProducer built = (case rNewProducer rc of None \<Rightarrow> default_factory | Some f \<Rightarrow> f)"
  by (cases "OnDeliveryError rc"; cases "rNewProducer rc")
    (auto simp: build_config_def initialize_options_def PublisherConfig_accepted WithBrokers_def
      WithDeliveryErrorFunc_def WithLogger_def WithProducerFactory_def defaultConfig_def
      defaultDeliveryTimeout_def split: if_splits option.splits)





section \<open>Properties\<close>

text \<open>
  C4: when \<open>HandleError\<close> of the retry strategy returns nil, it has written one record per message,
  in order: to the DLQ when the failure is permanent or the attempts are used up, to the retry
  topic otherwise, with the consumed key and payload and the headers sorted by key. The broker
  acknowledged every one of them.
\<close>

theorem retry_nil_means_acknowledged:
  assumes "retry_ready (r, w)" and "rpublisher r = Some p"
    and "retry_HandleError produce F tk settled msgs f (r, w) = (None, r', w')"
  shows "\<exists>p'. rpublisher r' = Some p'
    \<and> map d_record (deliveries p')
        = map d_record (deliveries p) @ routed_records F (rconfig r) f tk 0 msgs
    \<and> (\<forall>k < length msgs. d_err (settled (length (deliveries p) + k)) = None)"
  using assms(1,3)
  by (rule handle_cases) (use assms(2) in \<open>auto simp: newDelivery_def comp_def\<close>)

theorem retry_nil_means_acknowledged_witness:
  "\<exists>p'. rpublisher (fst (snd (retry_HandleError wit_produce exact_ops wit_tick (wit_settled None)
        [wit_msg] wit_failure (wit_retry, ())))) = Some p'
     \<and> map d_record (deliveries p') = [routed_record exact_ops wit_config wit_failure (wit_tick 0) wit_msg]"
proof -
  obtain res r' w' where h: "retry_HandleError wit_produce exact_ops wit_tick (wit_settled None)
      [wit_msg] wit_failure (wit_retry, ()) = (res, r', w')" by (metis prod_cases3)
  obtain out lg p1 w1 where "send_bound_all wit_produce exact_ops (rconfig wit_retry) wit_failure wit_tick
      [wit_msg] [] (rlog wit_retry) (new_publisher defaultConfig) () = (Inr out, lg, p1, w1)"
    using send_all_accepts [OF wit_produce_accepts, of "new_publisher defaultConfig"]
    by (simp add: new_publisher_def) metis
  from handle_sent [OF wit_retry_ready _ this, of "wit_settled None"] h have "res = None"
    by (simp add: wit_retry_def wit_settled_def) (metis (no_types, lifting) prod.inject)
  from retry_nil_means_acknowledged [OF wit_retry_ready _ h [unfolded this]] h show ?thesis
    by (auto simp: wit_retry_def new_publisher_def)
qed

text \<open>
  C7: as long as the publisher is open and its producer takes every record, \<open>HandleError\<close> returns
  nil exactly when every record it wrote is acknowledged: one lost acknowledgement in a batch
  fails the call, whichever it is, and nothing else does.
\<close>

theorem retry_nil_iff_acknowledged:
  assumes "retry_ready (r, w)" and "rpublisher r = Some p" and "\<not> closed p" and "fatal p = None"
    and "accepts produce"
  shows "fst (retry_HandleError produce F tk settled msgs f (r, w)) = None \<longleftrightarrow>
    (\<forall>k < length msgs. d_err (settled (length (deliveries p) + k)) = None)"
proof -
  obtain out lg' p' w' where
    "send_bound_all produce F (rconfig r) f tk msgs [] (rlog r) p w = (Inr out, lg', p', w')"
    using send_all_accepts [OF assms(5,3,4)] by metis
  from handle_sent [OF assms(1,2) this, of settled] show ?thesis by (metis fst_conv)
qed

theorem retry_nil_iff_acknowledged_witness:
  "fst (retry_HandleError wit_produce exact_ops wit_tick (wit_settled (Some (Plain ''lost''))) [wit_msg]
          wit_failure (wit_retry, ())) \<noteq> None"
  using retry_nil_iff_acknowledged [of wit_retry "()" "new_publisher defaultConfig" wit_produce
      exact_ops wit_tick "wit_settled (Some (Plain ''lost''))" "[wit_msg]" wit_failure]
    wit_retry_ready [of "()"] wit_produce_accepts wit_retry_publisher
  by (simp add: wit_settled_def del: not_None_eq) (auto simp: new_publisher_def)

text \<open>
  C28: the computed backoff lies between 0 and the configured maximum for every attempt, also
  where the exponential overflows the range of a duration or of a float, as long as the
  multiplier is a number of at least 1.
\<close>

theorem backoff_bounded:
  assumes "float_ops_ok F" and "CustomBackoff c = None" and "float_ge (Multiplier c) (Fin 1)"
    and "0 < InitialDelay c" and "is_int64 (InitialDelay c)"
    and "0 < MaxDelay c" and "is_int64 (MaxDelay c)"
  shows "0 \<le> computeBackoff F c attempt \<and> computeBackoff F c attempt \<le> MaxDelay c"
proof -
  note F = assms(1) [unfolded float_ops_ok_def]
  define y where "y = f_pow F (Multiplier c) (f_of_int F (wrap64 (attempt - 1)))"
  define delay where "delay = f_mul F (f_of_int F (InitialDelay c)) y"
  obtain p where p: "f_of_int F (InitialDelay c) = Fin p" "0 < p" using F assms(4,5) by metis
  obtain t where t: "f_of_int F (MaxDelay c) = Fin t" using F assms(7) by metis
  have "f_of_int F (wrap64 (attempt - 1)) \<noteq> NaN" using F is_int64_wrap64 by (metis float64.distinct(3))
  with F assms(3) have "float_ge y (Fin 0)" by (simp add: y_def)
  with F p have pos: "float_ge delay (Fin 0)" by (simp add: delay_def)
  show ?thesis
  proof (cases "float_ge delay (f_of_int F (MaxDelay c))")
    case True
    with assms(2,6) show ?thesis by (simp add: computeBackoff_def delay_def y_def)
  next
    case False
    then have "\<exists>q. delay = Fin q \<and> float_less (Fin q) (f_of_int F (MaxDelay c))"
      using pos t by (cases delay) auto
    then obtain q where q: "delay = Fin q" "q \<le> of_int (MaxDelay c)"
      using F assms(7) by (metis delay_def)
    from float_to_int64_range [OF pos q assms(7)] False assms(2) show ?thesis
      by (simp add: computeBackoff_def delay_def y_def)
  qed
qed

theorem backoff_bounded_witness:
  "0 \<le> computeBackoff exact_ops wit_config 60 \<and> computeBackoff exact_ops wit_config 60 \<le> 30 * Second"
  using backoff_bounded [OF exact_ops_ok, of wit_config 60]
  by (simp add: wit_config_def default_retry_config_def Second_def is_int64_def)

text \<open>
  C39: a multiplier that is not a number escapes the cap. Added to any options \<open>NewRetryStrategy\<close> accepts,
  \<open>WithBackoffMultiplier(NaN)\<close> is accepted too; the first retry still waits the initial delay, capped, and
  from the second on the backoff is whatever the conversion of NaN yields, whatever the initial and the
  maximum delay are.
\<close>

theorem nan_multiplier_escapes_cap:
  assumes "nan_ops_ok F" and "NewRetryStrategy opts = Inr r" and "CustomBackoff (rconfig r) = None"
    and "is_int64 (InitialDelay (rconfig r))"
  shows "\<exists>r'. NewRetryStrategy (opts @ [WithBackoffMultiplier NaN]) = Inr r'
    \<and> InitialDelay (rconfig r') = InitialDelay (rconfig r) \<and> MaxDelay (rconfig r') = MaxDelay (rconfig r)
    \<and> computeBackoff F (rconfig r') 1 =
        (if float_ge (f_of_int F (InitialDelay (rconfig r))) (f_of_int F (MaxDelay (rconfig r)))
         then MaxDelay (rconfig r) else float_to_int64 F (f_of_int F (InitialDelay (rconfig r))))
    \<and> (\<forall>attempt. 2 \<le> attempt \<and> is_int64 attempt \<longrightarrow> computeBackoff F (rconfig r') attempt = f_conv F NaN)"
proof -
  note F = assms(1) [unfolded nan_ops_ok_def]
  let ?c = "(rconfig r)\<lparr>Multiplier := NaN\<rparr>"
  obtain q where q: "f_of_int F (InitialDelay (rconfig r)) = Fin q" using F assms(4) by metis
  have "is_int64 0" by (simp add: is_int64_def)
  then have "f_of_int F (wrap64 0) = Fin 0" using F by (metis wrap64_id)
  then have one: "computeBackoff F ?c 1 =
      (if float_ge (Fin q) (f_of_int F (MaxDelay (rconfig r))) then MaxDelay (rconfig r) else float_to_int64 F (Fin q))"
    using F q assms(3) by (simp add: computeBackoff_def)
  have later: "computeBackoff F ?c n = f_conv F NaN" if "2 \<le> n" "is_int64 n" for n
  proof -
    have n: "is_int64 (n - 1)" "n - 1 \<noteq> 0" using that by (simp_all add: is_int64_def)
    with F obtain p where "f_of_int F (n - 1) = Fin p" "p \<noteq> 0" by blast
    with n(1) have "f_of_int F (wrap64 (n - 1)) \<noteq> Fin 0" by simp
    then have "f_pow F NaN (f_of_int F (wrap64 (n - 1))) = NaN" using F by simp
    with F assms(3) show ?thesis by (simp add: computeBackoff_def float_to_int64_def)
  qed
  have "NewRetryStrategy (opts @ [WithBackoffMultiplier NaN]) = Inr (r\<lparr>rconfig := ?c\<rparr>)"
    using assms(2) by (auto simp: NewRetryStrategy_def apply_retry_options_snoc WithBackoffMultiplier_def
        split: sum.splits if_splits)
  with one later q show ?thesis by (intro exI [of _ "r\<lparr>rconfig := ?c\<rparr>"]) simp
qed

theorem nan_multiplier_escapes_cap_witness:
  "\<exists>r'. NewRetryStrategy [WithRetryTopic ''orders.retry'', WithDLQTopic ''orders.dlq'', WithBackoffMultiplier NaN] = Inr r'
     \<and> computeBackoff nan_ops (rconfig r') 1 = Second \<and> computeBackoff nan_ops (rconfig r') 2 = - (2 ^ 63)"
proof -
  let ?opts = "[WithRetryTopic ''orders.retry'', WithDLQTopic ''orders.dlq'']"
  obtain r where r: "NewRetryStrategy ?opts = Inr r" "rconfig r = wit_config"
    by (simp add: NewRetryStrategy_def WithRetryTopic_def WithDLQTopic_def wit_config_def default_retry_config_def)
  from nan_multiplier_escapes_cap [OF nan_ops_documented r(1)] r(2) obtain r' where
    "NewRetryStrategy (?opts @ [WithBackoffMultiplier NaN]) = Inr r'"
    "computeBackoff nan_ops (rconfig r') 1 = (if float_ge (f_of_int nan_ops Second) (f_of_int nan_ops (30 * Second))
       then 30 * Second else float_to_int64 nan_ops (f_of_int nan_ops Second))"
    "computeBackoff nan_ops (rconfig r') 2 = f_conv nan_ops NaN"
    by (auto simp: wit_config_def default_retry_config_def is_int64_def Second_def)
  then show ?thesis by (simp add: nan_ops_def float_to_int64_def Second_def is_int64_def)
qed

text \<open>
  C26: \<open>Initialize\<close> never panics on a strategy \<open>NewRetryStrategy\<close> made. While another consumer
  holds the strategy it is refused and left as it was, its logger included; a publisher that cannot
  be made leaves it free; otherwise it is ready, in use, it and its publisher log where the new
  consumer logs, and its publisher keeps the consumer's settings with idempotence, full
  acknowledgement and the 30 s delivery timeout.
\<close>

theorem initialize_outcome:
  assumes "RetryTopic (rconfig r) \<noteq> []" and "DLQTopic (rconfig r) \<noteq> []"
  shows "\<exists>err r' w. Initialize conv newProducer ic r = Some (err, r', w)
    \<and> rconfig r' = rconfig r
    \<and> (inUse r \<longrightarrow> err = Some (SentinelErr ErrStrategyInUse) \<and> r' = r)
    \<and> (\<not> inUse r \<and> err \<noteq> None \<longrightarrow> r' = r\<lparr>rLogger := ic_Logger ic\<rparr>)
    \<and> (err = None \<longrightarrow> inUse r' \<and> w \<noteq> None \<and> rLogger r' = ic_Logger ic
        \<and> (\<exists>p. rpublisher r' = Some p \<and> \<not> closed p \<and> fatal p = None
             \<and> kafkaConfig (pconfig p) = PublisherConfig (ic_KafkaConfig ic)
             \<and> brokers (pconfig p) = ic_Brokers ic \<and> idempotence (pconfig p)
             \<and> cLogger (pconfig p) = ic_Logger ic \<and> \<not> acksLeader (pconfig p) \<and> deliveryTimeout (pconfig p) = 30 * Second)
        \<and> retry_ready (r', ()))"
proof (cases "inUse r")
  case True
  then show ?thesis by (simp add: Initialize_defs)
next
  case False
  show ?thesis
  proof (cases "New conv newProducer (initialize_options (rconfig r) ic)")
    case (Inl err)
    with False show ?thesis by (simp add: Initialize_defs)
  next
    case (Inr pw)
    obtain p w where pw: "pw = (p, w)" by fastforce
    with Inr obtain built where b: "build_config conv (initialize_options (rconfig r) ic) = Inr built"
      and p: "p = new_publisher built"
      by (auto simp: New_def split: sum.splits)
    from initialize_options_build [OF b] Inr pw p False assms show ?thesis
      by (simp add: Initialize_defs Bind_retry_topic retry_ready_def new_publisher_def)
  qed
qed

definition wit_init :: "unit init_config" where
  "wit_init = \<lparr>ic_Brokers = [''b:9092''], ic_ConsumerGroup = ''g'', ic_Handler = None, ic_Logger = 1, ic_KafkaConfig = []\<rparr>"

theorem initialize_outcome_witness:
  "fst (the (Initialize (\<lambda>_. 0) (\<lambda>_ _. Inr ()) wit_init wit_retry)) = Some (SentinelErr ErrStrategyInUse)"
  using initialize_outcome [of wit_retry "\<lambda>_. 0" "\<lambda>_ _. Inr ()" wit_init]
  by (auto simp: wit_retry_def wit_config_def)



end
