(* ===== verification/Strategy_Sharing.thy ===== *)
theory Strategy_Sharing
  imports Retry_Properties Fairness
begin

text \<open>
  One retry strategy given to several consumers, each started on a goroutine of its own. The claim in
  \<open>Initialize\<close> is one atomic step; everything else a consumer does with the strategy, from making the
  publisher to closing it and giving the claim back, interleaves with the steps of the others.
\<close>

section \<open>States and steps\<close>

text \<open>Where a consumer is with the strategy; \<open>Gone\<close> is the error \<open>Initialize\<close> or \<open>Close\<close> returned.\<close>

datatype claim = Waiting | Claimed | Holding | Releasing "gerror option" | Gone "gerror option"

record 'w share =
  sh_strategy :: retry_strategy
  sh_producer :: 'w
  sh_claim :: "nat \<Rightarrow> claim"

definition init_share :: "retry_strategy \<Rightarrow> 'w \<Rightarrow> 'w share" where
  "init_share r w = \<lparr>sh_strategy = r, sh_producer = w, sh_claim = (\<lambda>_. Waiting)\<rparr>"

fun owns :: "claim \<Rightarrow> bool" where
  "owns Claimed = True"
| "owns Holding = True"
| "owns (Releasing _) = True"
| "owns _ = False"

text \<open>\<open>share_act k\<close> is a step of consumer \<open>k\<close>. \<open>shut\<close> and \<open>release\<close> are the two halves of \<open>Close\<close>.\<close>

inductive share_act :: "nat \<Rightarrow> 'w share \<Rightarrow> 'w share \<Rightarrow> bool" for k :: nat where
  claim:
    "sh_claim s k = Waiting \<Longrightarrow> \<not> inUse (sh_strategy s) \<Longrightarrow>
     share_act k s (s\<lparr>sh_strategy := (sh_strategy s)\<lparr>inUse := True\<rparr>, sh_claim := (sh_claim s)(k := Claimed)\<rparr>)"
| refused:
    "sh_claim s k = Waiting \<Longrightarrow> inUse (sh_strategy s) \<Longrightarrow>
     share_act k s (s\<lparr>sh_claim := (sh_claim s)(k := Gone (Some (SentinelErr ErrStrategyInUse)))\<rparr>)"
| failed:
    "sh_claim s k = Claimed \<Longrightarrow>
     initialize_claimed conv newProducer (ic :: 'w init_config) (sh_strategy s) = Some (Some e, r', w' :: 'w option) \<Longrightarrow>
     share_act k s (s\<lparr>sh_strategy := r', sh_claim := (sh_claim s)(k := Gone (Some e))\<rparr>)"
| ready:
    "sh_claim s k = Claimed \<Longrightarrow>
     initialize_claimed conv newProducer (ic :: 'w init_config) (sh_strategy s) = Some (None, r', Some w') \<Longrightarrow>
     share_act k s (s\<lparr>sh_strategy := r', sh_producer := w', sh_claim := (sh_claim s)(k := Holding)\<rparr>)"
| set_logger:
    "sh_claim s k = Holding \<Longrightarrow> share_act k s (s\<lparr>sh_strategy := retry_SetLogger l (sh_strategy s)\<rparr>)"
| handle_error:
    "sh_claim s k = Holding \<Longrightarrow>
     retry_HandleError produce F tk settled msgs f (sh_strategy s, sh_producer s) = (e, r', w') \<Longrightarrow>
     share_act k s (s\<lparr>sh_strategy := r', sh_producer := w'\<rparr>)"
| shut:
    "sh_claim s k = Holding \<Longrightarrow> rpublisher (sh_strategy s) = Some p \<Longrightarrow>
     publisher_Close fuel P C p (sh_producer s) = Some (e, p', w') \<Longrightarrow>
     share_act k s (s\<lparr>sh_strategy := (sh_strategy s)\<lparr>rpublisher := Some p'\<rparr>, sh_producer := w',
                      sh_claim := (sh_claim s)(k := Releasing e)\<rparr>)"
| release:
    "sh_claim s k = Releasing e \<Longrightarrow>
     share_act k s (s\<lparr>sh_strategy := (sh_strategy s)\<lparr>inUse := False\<rparr>, sh_claim := (sh_claim s)(k := Gone e)\<rparr>)"

definition share_step :: "'w share \<Rightarrow> 'w share \<Rightarrow> bool" where
  "share_step s t \<longleftrightarrow> (\<exists>k. share_act k s t)"

definition open_publisher :: "retry_strategy \<Rightarrow> bool" where
  "open_publisher r \<longleftrightarrow> (\<exists>p. rpublisher r = Some p \<and> \<not> closed p)"

text \<open>
  At most one consumer owns the strategy, and the strategy is in use exactly then; its holder finds
  an open publisher and the writers bound to the two topics.
\<close>

definition share_inv :: "'w share \<Rightarrow> bool" where
  "share_inv s \<longleftrightarrow>
     (\<exists>owner. (\<forall>k. owns (sh_claim s k) \<longleftrightarrow> owner = Some k) \<and> inUse (sh_strategy s) = (owner \<noteq> None))
     \<and> retry_ready (sh_strategy s, ())
     \<and> (\<forall>k. sh_claim s k = Holding \<longrightarrow> open_publisher (sh_strategy s))"

section \<open>Lemmas\<close>

text \<open>The two halves of \<open>Close\<close> and of \<open>Initialize\<close> make up the whole.\<close>

lemma retry_Close_halves:
  "rpublisher r = Some p \<Longrightarrow> retry_Close fuel P withTimeout r w =
     map_option (\<lambda>(err, p', w'). (err, (r\<lparr>rpublisher := Some p'\<rparr>)\<lparr>inUse := False\<rparr>, w'))
       (publisher_Close fuel P (withTimeout closeTimeout) p w)"
  by (simp add: retry_Close_def)

lemma initialize_claimed_cases:
  assumes "initialize_claimed conv newProducer ic r = Some (e, r', w')"
  shows "e \<noteq> None \<Longrightarrow> r' = r\<lparr>inUse := False, rLogger := ic_Logger ic\<rparr>"
    and "e = None \<Longrightarrow> inUse r' = inUse r \<and> open_publisher r' \<and> retry_ready (r', ())"
  using assms
  by (auto simp: initialize_claimed_def retry_ready_def Let_def Bind_def retry_topic_of_def bound_writer_def
      topic_validate_def open_publisher_def New_def new_publisher_def
      split: sum.splits prod.splits if_splits option.splits)

lemma HandleError_keeps:
  assumes "retry_HandleError produce F tk settled msgs f (r, w) = (e, r', w')" and "retry_ready (r, ())"
    and "open_publisher r"
  shows "inUse r' = inUse r \<and> open_publisher r' \<and> retry_ready (r', ())"
proof -
  obtain p where p: "rpublisher r = Some p" "\<not> closed p" using assms(3) by (auto simp: open_publisher_def)
  with assms(2) have wr: "retryWriter r = Some (bound_writer (RetryTopic (rconfig r)))"
    "dlqWriter r = Some (bound_writer (DLQTopic (rconfig r)))" by (simp_all add: retry_ready_def Let_def)
  obtain q lg p' w1 where sa: "send_bound_all produce F (rconfig r) f tk msgs [] (rlog r) p w = (q, lg, p', w1)"
    by (metis prod_cases4)
  then have "\<not> closed p'" using send_all_extends [OF sa] p(2) by blast
  moreover have "\<exists>lg'. r' = r\<lparr>rpublisher := Some p', rlog := lg'\<rparr>"
    using assms(1) p wr sa by (auto simp: retry_HandleError_def split: sum.splits prod.splits)
  ultimately show ?thesis using wr by (auto simp: open_publisher_def retry_ready_def)
qed

lemma share_inv_owned:
  "share_inv s \<Longrightarrow> owns (sh_claim s k) \<Longrightarrow>
     inUse (sh_strategy s) \<and> (\<forall>j. owns (sh_claim s j) \<longleftrightarrow> j = k) \<and> retry_ready (sh_strategy s, ())
     \<and> (sh_claim s k = Holding \<longrightarrow> open_publisher (sh_strategy s))"
  by (auto simp: share_inv_def)

text \<open>How the invariant is shown of a step: the consumer that steps owns the strategy afterwards, or nobody does.\<close>

lemma share_inv_ownedI:
  assumes "\<And>j. owns (sh_claim t j) \<longleftrightarrow> j = k" and "inUse (sh_strategy t)" and "retry_ready (sh_strategy t, ())"
    and "sh_claim t k = Holding \<Longrightarrow> open_publisher (sh_strategy t)"
  shows "share_inv t"
proof -
  have "open_publisher (sh_strategy t)" if "sh_claim t j = Holding" for j
    using assms(1) [of j] assms(4) that by simp
  with assms(1-3) show ?thesis by (auto simp: share_inv_def intro!: exI [of _ "Some k"])
qed

lemma share_inv_freeI:
  assumes "\<And>j. \<not> owns (sh_claim t j)" and "\<not> inUse (sh_strategy t)" and "retry_ready (sh_strategy t, ())"
  shows "share_inv t"
proof -
  have "sh_claim t j \<noteq> Holding" for j using assms(1) [of j] by auto
  with assms show ?thesis by (auto simp: share_inv_def intro!: exI [of _ None])
qed

lemma share_inv_unused: "share_inv s \<Longrightarrow> \<not> inUse (sh_strategy s) \<Longrightarrow> \<not> owns (sh_claim s k)"
  by (auto simp: share_inv_def)

lemma retry_ready_frame [simp]:
  "retry_ready (r\<lparr>inUse := b\<rparr>, u) = retry_ready (r, u)" "retry_ready (r\<lparr>rLogger := l\<rparr>, u) = retry_ready (r, u)"
  "rpublisher r = Some p \<Longrightarrow> retry_ready (r\<lparr>rpublisher := Some p'\<rparr>, u) = retry_ready (r, u)"
  by (simp_all add: retry_ready_def Let_def)

lemma share_act_inv:
  assumes "share_act k s t" and inv: "share_inv s"
  shows "share_inv t"
  using assms(1)
proof cases
  case claim
  have "retry_ready (sh_strategy s, ())" using inv by (simp add: share_inv_def)
  with claim share_inv_unused [OF inv] show ?thesis
    by (intro share_inv_ownedI [of _ k]) auto
next
  case refused
  then obtain ow where ow: "inUse (sh_strategy s)" "owns (sh_claim s ow)" using inv by (auto simp: share_inv_def)
  with refused have "ow \<noteq> k" by auto
  with ow refused share_inv_owned [OF inv, of ow] show ?thesis by (intro share_inv_ownedI [of _ ow]) auto
next
  case (failed conv newProducer ic e r' w')
  note o = share_inv_owned [OF inv, of k]
  have "r' = (sh_strategy s)\<lparr>inUse := False, rLogger := ic_Logger ic\<rparr>"
    using initialize_claimed_cases(1) [OF failed(3)] by simp
  with failed o show ?thesis
    by (intro share_inv_freeI) auto
next
  case (ready conv newProducer ic r' w')
  with share_inv_owned [OF inv, of k] initialize_claimed_cases(2) [OF ready(3)] show ?thesis
    by (intro share_inv_ownedI [of _ k]) auto
next
  case (set_logger l)
  with share_inv_owned [OF inv, of k] show ?thesis
    by (intro share_inv_ownedI [of _ k]) (auto simp: retry_SetLogger_def open_publisher_def)
next
  case (handle_error produce F tk settled msgs f e r' w')
  note o = share_inv_owned [OF inv, of k]
  with handle_error HandleError_keeps [OF handle_error(3)] show ?thesis
    by (intro share_inv_ownedI [of _ k]) auto
next
  case (shut p fuel P C e p' w')
  with share_inv_owned [OF inv, of k] show ?thesis
    by (intro share_inv_ownedI [of _ k]) auto
next
  case (release e)
  with share_inv_owned [OF inv, of k] show ?thesis
    by (intro share_inv_freeI) auto
qed

interpretation share_sys: invariant_system "\<lambda>s. \<exists>r w. s = init_share r w \<and> \<not> inUse r \<and> retry_ready (r, ())"
    share_step share_inv
proof unfold_locales
  show "share_inv s" if "\<exists>r w. s = init_share r w \<and> \<not> inUse r \<and> retry_ready (r, ())" for s :: "'w share"
    using that by (auto simp: init_share_def intro: share_inv_freeI)
qed (auto simp: share_step_def intro: share_act_inv)

lemma share_runs_inv:
  assumes "share_step\<^sup>*\<^sup>* (init_share r w) s" and "\<not> inUse r" and "retry_ready (r, ())"
  shows "share_inv s"
  using assms(1)
proof (induction rule: rtranclp_induct)
  case base
  from assms(2,3) show ?case by (intro share_sys.inv_init) auto
next
  case (step s t)
  then show ?case by (auto intro: share_sys.inv_step)
qed

lemma NewRetryStrategy_free:
  "NewRetryStrategy opts = Inr r \<Longrightarrow> \<not> inUse r \<and> retry_ready (r, ())"
  by (auto simp: NewRetryStrategy_def retry_ready_def split: sum.splits if_splits)

text \<open>A consumer that does not own the strategy has two steps: it claims a free one, or is refused.\<close>

lemma other_act:
  assumes "share_act j s t" and "\<not> owns (sh_claim s j)" and "inUse (sh_strategy s)"
  shows "t = s\<lparr>sh_claim := (sh_claim s)(j := Gone (Some (SentinelErr ErrStrategyInUse)))\<rparr>"
  using assms(1) by cases (use assms(2,3) in auto)

section \<open>Properties\<close>

text \<open>
  C15: a retry strategy shared by several consumers belongs to one of them at a time, however their
  goroutines interleave. While a consumer owns the strategy, from its claim in \<open>Initialize\<close> to the end
  of \<open>Close\<close>, a step of any other leaves the strategy, its publisher and the producer untouched and
  gets \<open>ErrStrategyInUse\<close>; the one that holds it finds an open publisher with the writers bound to the
  retry and DLQ topics; and once no consumer owns it, it is free to be claimed again.
\<close>

theorem strategy_has_one_owner:
  assumes "NewRetryStrategy opts = Inr r" and "share_step\<^sup>*\<^sup>* (init_share r w) s"
  shows "(owns (sh_claim s k) \<and> j \<noteq> k \<longrightarrow> \<not> owns (sh_claim s j)
       \<and> (share_act j s t \<longrightarrow>
            t = s\<lparr>sh_claim := (sh_claim s)(j := Gone (Some (SentinelErr ErrStrategyInUse)))\<rparr>))
    \<and> (sh_claim s k = Holding \<longrightarrow> (\<exists>p. rpublisher (sh_strategy s) = Some p \<and> \<not> closed p)
         \<and> retryWriter (sh_strategy s) = Some (bound_writer (RetryTopic (rconfig (sh_strategy s))))
         \<and> dlqWriter (sh_strategy s) = Some (bound_writer (DLQTopic (rconfig (sh_strategy s)))))
    \<and> (inUse (sh_strategy s) \<longleftrightarrow> (\<exists>i. owns (sh_claim s i)))"
proof -
  have inv: "share_inv s" using share_runs_inv [OF assms(2)] NewRetryStrategy_free [OF assms(1)] by blast
  note own = share_inv_owned [OF inv]
  have "\<not> owns (sh_claim s j) \<and> (share_act j s t \<longrightarrow>
      t = s\<lparr>sh_claim := (sh_claim s)(j := Gone (Some (SentinelErr ErrStrategyInUse)))\<rparr>)"
    if "owns (sh_claim s k)" "j \<noteq> k"
    using own [OF that(1)] that(2) other_act [of j s t] by blast
  moreover have "(\<exists>p. rpublisher (sh_strategy s) = Some p \<and> \<not> closed p)
      \<and> retryWriter (sh_strategy s) = Some (bound_writer (RetryTopic (rconfig (sh_strategy s))))
      \<and> dlqWriter (sh_strategy s) = Some (bound_writer (DLQTopic (rconfig (sh_strategy s))))"
    if "sh_claim s k = Holding"
    using own [of k] that by (auto simp: open_publisher_def retry_ready_def Let_def)
  moreover have "inUse (sh_strategy s) \<longleftrightarrow> (\<exists>i. owns (sh_claim s i))"
    using inv by (auto simp: share_inv_def)
  ultimately show ?thesis by blast
qed

definition wit_options :: "retry_option list" where
  "wit_options = [WithRetryTopic ''orders.retry'', WithDLQTopic ''orders.dlq'']"

definition wit_new :: retry_strategy where
  "wit_new = \<lparr>rconfig = wit_config, rLogger = Nop, rpublisher = None, retryWriter = None, dlqWriter = None,
     inUse = False, rlog = []\<rparr>"

definition wit_ic :: "unit init_config" where
  "wit_ic = \<lparr>ic_Brokers = [''b:9092''], ic_ConsumerGroup = ''g'', ic_Handler = None, ic_Logger = 1, ic_KafkaConfig = []\<rparr>"

definition wit_started :: "(gerror option \<times> retry_strategy \<times> unit option) option" where
  "wit_started = initialize_claimed (\<lambda>_. 0) (\<lambda>_ _. Inr ()) wit_ic (wit_new\<lparr>inUse := True\<rparr>)"

lemma wit_started_ready: "\<exists>r'. wit_started = Some (None, r', Some ())"
proof -
  have "map_option (\<lambda>(e, _, w). (e, w)) wit_started = Some (None, Some ())" by code_simp
  then show ?thesis by (auto split: prod.splits)
qed

theorem strategy_has_one_owner_witness:
  "\<exists>r s. NewRetryStrategy wit_options = Inr r \<and> share_step\<^sup>*\<^sup>* (init_share r ()) s
     \<and> sh_claim s 0 = Holding \<and> \<not> owns (sh_claim s 1)
     \<and> (\<exists>p. rpublisher (sh_strategy s) = Some p \<and> \<not> closed p)"
proof -
  obtain r' where r': "wit_started = Some (None, r', Some ())" using wit_started_ready by blast
  let ?a = "(init_share wit_new ())\<lparr>sh_strategy := wit_new\<lparr>inUse := True\<rparr>, sh_claim := (\<lambda>_. Waiting)(0 := Claimed)\<rparr>"
  let ?b = "?a\<lparr>sh_strategy := r', sh_producer := (), sh_claim := (sh_claim ?a)(0 := Holding)\<rparr>"
  have "share_act 0 (init_share wit_new ()) ?a"
    using share_act.claim [of "init_share wit_new ()" 0] by (simp add: init_share_def wit_new_def)
  then have a: "share_step (init_share wit_new ()) ?a" unfolding share_step_def by blast
  have "share_act 0 ?a ?b"
    using share_act.ready [of ?a 0 "\<lambda>_. 0" "\<lambda>_ _. Inr ()" wit_ic r' "()"] r' by (simp add: wit_started_def)
  then have b: "share_step ?a ?b" unfolding share_step_def by blast
  have run: "share_step\<^sup>*\<^sup>* (init_share wit_new ()) ?b"
    using converse_rtranclp_into_rtranclp [where r = share_step, OF a r_into_rtranclp [where r = share_step, OF b]] .
  have new: "NewRetryStrategy wit_options = Inr wit_new"
    by (simp add: NewRetryStrategy_def wit_options_def WithRetryTopic_def WithDLQTopic_def wit_new_def wit_config_def
        default_retry_config_def)
  from strategy_has_one_owner [OF new run, of 0 1 ?b] new run show ?thesis
    by (intro exI [of _ wit_new] exI [of _ ?b]) auto
qed

end
