(* ===== verification/Subscribe_Driver.thy ===== *)
theory Subscribe_Driver
  imports Publish_Driver Sub_Types
begin

text \<open>
  The subscribe driver (\<open>internal/subscribe/subscribedriver/consumer.go\<close>): the one consumer of the
  client library behind the \<open>Consumer\<close> interface. The client is the argument \<open>K\<close>, a record of its
  methods over a state \<open>'k\<close>; \<open>kfk.NewConsumer\<close> is \<open>newClient\<close> and \<open>ConfigMap.SetKey\<close> is \<open>SetKey\<close>.

  The client serves rebalances inside \<open>Poll\<close>: the model's \<open>kc_Poll\<close> returns the rebalance events it
  served, in order, and the driver runs its callback on each before it looks at the polled event.
  The hook the subscriber registers touches the subscriber's buffer only, so \<open>driver_Poll\<close> returns
  how often it was invoked and the subscriber's model runs it.
\<close>

section \<open>The client library\<close>

datatype rebalance = AssignedPartitions "(string \<times> int) list" | RevokedPartitions "(string \<times> int) list"

record 'k kfk_consumer =
  kc_SubscribeTopics :: "string list \<Rightarrow> 'k \<Rightarrow> gerror option \<times> 'k"
  kc_Poll :: "int \<Rightarrow> 'k \<Rightarrow> (rebalance list \<times> kfk_event option) \<times> 'k"
  kc_Assign :: "(string \<times> int) list \<Rightarrow> 'k \<Rightarrow> gerror option \<times> 'k"
  kc_Unassign :: "'k \<Rightarrow> gerror option \<times> 'k"
  kc_StoreOffsets :: "(string \<times> int \<times> int) list \<Rightarrow> 'k
     \<Rightarrow> ((string \<times> int \<times> gerror option) list \<times> gerror option) \<times> 'k"
  kc_Commit :: "'k \<Rightarrow> (gerror + nat) \<times> 'k"
  kc_Close :: "'k \<Rightarrow> (rebalance list \<times> gerror option) \<times> 'k"

section \<open>The driver's state\<close>

record consumer_config =
  CBrokers :: "string list"
  CTopic :: string
  CGroupID :: string
  CKafkaConfig :: config_map
  CommitInterval :: duration
  CLogger :: logger

record 'k consumer =
  kafkaConsumer :: "'k option"
  cconfig :: config_map
  cbrokers :: "string list"
  ctopic :: string
  cgroupID :: string
  klogger :: logger
  autoCommit :: bool
  brokerConnected :: bool
  onRevoke :: bool
  clog :: "logline list"

definition clog_add :: "level \<Rightarrow> logcode option \<Rightarrow> 'k consumer \<Rightarrow> 'k consumer" where
  "clog_add l c d = d\<lparr>clog := clog d @ [(l, c)]\<rparr>"

definition SetOnRevoke :: "'k consumer \<Rightarrow> 'k consumer" where
  "SetOnRevoke d = d\<lparr>onRevoke := True\<rparr>"

section \<open>New\<close>

definition pinned_settings :: "consumer_config \<Rightarrow> (string \<times> goval) list" where
  "pinned_settings config =
     (let autoCommit = CommitInterval config > 0
      in [(''bootstrap.servers'', VString (join_with '','' (CBrokers config))),
          (''group.id'', VString (CGroupID config)),
          (''auto.offset.reset'', VString ''earliest''),
          (''enable.auto.commit'', VBool autoCommit)]
         @ (if autoCommit
            then [(''auto.commit.interval.ms'', VInt (go_div (CommitInterval config) Millisecond))] else [])
         @ [(''enable.auto.offset.store'', VBool False),
            (''partition.assignment.strategy'', VString ''range,roundrobin''),
            (''reconnect.backoff.ms'', VInt 100), (''reconnect.backoff.max.ms'', VInt 10000)])"

definition New_consumer :: "set_key \<Rightarrow> consumer_config \<Rightarrow> gerror + 'k consumer" where
  "New_consumer SetKey config =
     (if length (CBrokers config) = 0 then Inl (Plain ''at least one broker is required'')
      else if CTopic config = [] then Inl (Plain ''topic cannot be empty'')
      else if CGroupID config = [] then Inl (Plain ''group ID cannot be empty'')
      else
        (case set_keys SetKey (\<lambda>k. [Txt ''setting '', Txt k]) (pinned_settings config) [] of
           Inl err \<Rightarrow> Inl err
         | Inr m \<Rightarrow>
             (case set_keys SetKey (\<lambda>k. [Txt ''setting kafka config '', Txt k]) (CKafkaConfig config) m of
                Inl err \<Rightarrow> Inl err
              | Inr m' \<Rightarrow>
                  Inr \<lparr>kafkaConsumer = None, cconfig = m', cbrokers = CBrokers config,
                       ctopic = CTopic config, cgroupID = CGroupID config, klogger = CLogger config,
                       autoCommit = CommitInterval config > 0, brokerConnected = False,
                       onRevoke = False, clog = []\<rparr>)))"

section \<open>Connecting and subscribing\<close>

definition not_connected :: gerror where
  "not_connected = Plain ''consumer not connected''"

definition Connect ::
  "(config_map \<Rightarrow> gerror + 'k) \<Rightarrow> 'k consumer \<Rightarrow> gerror option \<times> 'k consumer" where
  "Connect newClient d =
     (case kafkaConsumer d of
        Some _ \<Rightarrow> (Some (Plain ''consumer already connected''), d)
      | None \<Rightarrow>
          (case newClient (cconfig d) of
             Inl err \<Rightarrow> (Some (Errorf [Txt ''failed to create kafka consumer: '', W err]), d)
           | Inr k \<Rightarrow> (None, clog_add Info None (d\<lparr>kafkaConsumer := Some k, brokerConnected := True\<rparr>))))"

definition SubscribeToTopic :: "'k kfk_consumer \<Rightarrow> 'k consumer \<Rightarrow> gerror option \<times> 'k consumer" where
  "SubscribeToTopic K d =
     (case kafkaConsumer d of
        None \<Rightarrow> (Some not_connected, d)
      | Some k \<Rightarrow>
          (case kc_SubscribeTopics K [ctopic d] k of
             (Some err, k') \<Rightarrow>
               (Some (Errorf [Txt ''failed to subscribe to topic '', Txt (ctopic d), Txt '': '', W err]),
                d\<lparr>kafkaConsumer := Some k'\<rparr>)
           | (None, k') \<Rightarrow> (None, clog_add Info None (d\<lparr>kafkaConsumer := Some k'\<rparr>))))"

section \<open>Offsets\<close>

definition isNotAssigned :: "gerror \<Rightarrow> bool" where
  "isNotAssigned err = (case errors_As_kfk err of None \<Rightarrow> False | Some k \<Rightarrow> kfkCode k = KfkState)"

definition classifyStoreErr :: "gerror \<Rightarrow> string \<Rightarrow> int \<Rightarrow> gerror" where
  "classifyStoreErr err topic part =
     (if isNotAssigned err
      then Errorf [W (SentinelErr ErrPartitionRevoked), Txt '': '', Txt topic, Txt ''['',
             Txt (itoa part), Txt '']'']
      else Errorf [Txt ''failed to store offset for '', Txt topic, Txt ''['', Txt (itoa part),
             Txt '']: '', W err])"

definition StoreOffset ::
  "'k kfk_consumer \<Rightarrow> string \<Rightarrow> int \<Rightarrow> int \<Rightarrow> 'k consumer \<Rightarrow> gerror option \<times> 'k consumer" where
  "StoreOffset K topic part offset d =
     (case kafkaConsumer d of
        None \<Rightarrow> (Some not_connected, d)
      | Some k \<Rightarrow>
          (case kc_StoreOffsets K [(topic, part, wrap64 (offset + 1))] k of
             ((stored, storeErr), k') \<Rightarrow>
               (let d' = d\<lparr>kafkaConsumer := Some k'\<rparr>
                in case find (\<lambda>(t, p, e). e \<noteq> None) stored of
                     Some (t, p, e) \<Rightarrow> (Some (classifyStoreErr (the e) t p), d')
                   | None \<Rightarrow> (map_option (\<lambda>e. classifyStoreErr e topic part) storeErr, d'))))"

definition CommitStored :: "'k kfk_consumer \<Rightarrow> 'k consumer \<Rightarrow> gerror option \<times> 'k consumer" where
  "CommitStored K d =
     (case kafkaConsumer d of
        None \<Rightarrow> (Some not_connected, d)
      | Some k \<Rightarrow>
          (case kc_Commit K k of
             (Inr _, k') \<Rightarrow> (None, clog_add Debug None (d\<lparr>kafkaConsumer := Some k'\<rparr>))
           | (Inl err, k') \<Rightarrow>
               (let d' = d\<lparr>kafkaConsumer := Some k'\<rparr>
                in case errors_As_kfk err of
                     Some e \<Rightarrow>
                       if kfkCode e = KfkNoOffset then (None, clog_add Debug None d')
                       else (Some (Errorf [Txt ''failed to commit stored offsets: '', W err]), d')
                   | None \<Rightarrow> (Some (Errorf [Txt ''failed to commit stored offsets: '', W err]), d'))))"

definition MaybeCommitStored :: "'k kfk_consumer \<Rightarrow> 'k consumer \<Rightarrow> gerror option \<times> 'k consumer" where
  "MaybeCommitStored K d = (if autoCommit d then (None, d) else CommitStored K d)"

section \<open>Rebalances and polling\<close>

text \<open>The error the callback returns, how often the revoke hook ran, and the new state.\<close>

definition rebalanceCallback ::
  "'k kfk_consumer \<Rightarrow> rebalance \<Rightarrow> 'k consumer \<Rightarrow> (gerror option \<times> nat) \<times> 'k consumer" where
  "rebalanceCallback K ev d =
     (case kafkaConsumer d of
        None \<Rightarrow> ((None, 0), d)
      | Some k \<Rightarrow>
          (case ev of
             AssignedPartitions ps \<Rightarrow>
               (let d = clog_add Info None d; (err, k') = kc_Assign K ps k;
                    d' = d\<lparr>kafkaConsumer := Some k'\<rparr>
                in ((err, 0), if err = None then d' else clog_add Error (Some RebalanceFailed) d'))
           | RevokedPartitions ps \<Rightarrow>
               (let d = clog_add Info None d; hooks = (if onRevoke d then 1 else 0);
                    (cerr, d1) = CommitStored K d;
                    d2 = (if cerr = None then d1 else clog_add Warn (Some CommitFailed) d1);
                    (err, k') = kc_Unassign K (the (kafkaConsumer d2));
                    d3 = d2\<lparr>kafkaConsumer := Some k'\<rparr>
                in ((err, hooks), if err = None then d3 else clog_add Error (Some RebalanceFailed) d3))))"

fun serve_rebalances ::
  "'k kfk_consumer \<Rightarrow> rebalance list \<Rightarrow> 'k consumer \<Rightarrow> nat \<times> 'k consumer" where
  "serve_rebalances K [] d = (0, d)"
| "serve_rebalances K (ev # evs) d =
     (let ((_, h), d') = rebalanceCallback K ev d; (hs, d'') = serve_rebalances K evs d'
      in (h + hs, d''))"

text \<open>A message without an error names its topic; the driver dereferences it.\<close>

definition message_of :: "kfk_message \<Rightarrow> message" where
  "message_of e =
     \<lparr>Topic = the (kmTopic e), Partition = kmPartition e, Offset = kmOffset e,
      Timestamp = kmTimestamp e, Key = kmKey e,
      Headers = fold (\<lambda>h. map_set (HKey h) (case HValue h of None \<Rightarrow> [] | Some v \<Rightarrow> v)) (kmHeaders e) [],
      Payload = kmValue e\<rparr>"

definition poll_event :: "kfk_event \<Rightarrow> 'k consumer \<Rightarrow> (gerror + message option) \<times> 'k consumer" where
  "poll_event ev d =
     (case ev of
        KMessage e \<Rightarrow>
          (if kmError e \<noteq> None then (Inr None, clog_add Warn (Some KafkaErrorCode) d)
           else
             (let wasDisconnected = \<not> brokerConnected d; d' = d\<lparr>brokerConnected := True\<rparr>
              in (Inr (Some (message_of e)),
                  if wasDisconnected then clog_add Info (Some BrokerReconnected) d' else d')))
      | KError e \<Rightarrow>
          if kfkIsFatal e then (Inl (Errorf [Txt ''fatal kafka error: '', W (KfkErr e)]), d)
          else if kfkCode e = KfkTransport \<or> kfkCode e = KfkAllBrokersDown then
            (let d' = d\<lparr>brokerConnected := False\<rparr>
             in (Inr None,
                 if brokerConnected d then clog_add Warn (Some BrokerDisconnected) d'
                 else clog_add Debug None d'))
          else (Inr None, clog_add Warn (Some KafkaErrorCode) d)
      | KOffsetsCommitted err n \<Rightarrow>
          (Inr None, if err \<noteq> None then clog_add Warn (Some CommitFailed) d else clog_add Debug None d)
      | KOtherEvent \<Rightarrow> (Inr None, d))"

definition driver_Poll ::
  "'k kfk_consumer \<Rightarrow> int \<Rightarrow> 'k consumer \<Rightarrow> (nat \<times> (gerror + message option)) \<times> 'k consumer" where
  "driver_Poll K timeoutMs d =
     (case kafkaConsumer d of
        None \<Rightarrow> ((0, Inl not_connected), d)
      | Some k \<Rightarrow>
          (let ((rebs, ev), k') = kc_Poll K timeoutMs k;
               (hooks, d') = serve_rebalances K rebs (d\<lparr>kafkaConsumer := Some k'\<rparr>)
           in case ev of
                None \<Rightarrow> ((hooks, Inr None), d')
              | Some e \<Rightarrow> (let (res, d'') = poll_event e d' in ((hooks, res), d''))))"

text \<open>The client may serve a last revocation while it closes, through the same callback.\<close>

definition consumer_Close ::
  "'k kfk_consumer \<Rightarrow> 'k consumer \<Rightarrow> (nat \<times> gerror option) \<times> 'k consumer" where
  "consumer_Close K d =
     (case kafkaConsumer d of
        None \<Rightarrow> ((0, None), d)
      | Some k \<Rightarrow>
          (let ((rebs, err), k') = kc_Close K k;
               (hooks, d1) = serve_rebalances K rebs (d\<lparr>kafkaConsumer := Some k'\<rparr>);
               d' = d1\<lparr>kafkaConsumer := None\<rparr>
           in case err of
                Some e \<Rightarrow> ((hooks, Some (Errorf [Txt ''failed to close kafka consumer: '', W e])), d')
              | None \<Rightarrow> ((hooks, None), clog_add Info None d')))"

end
