(* ===== verification/Subscribe_Options.thy ===== *)
theory Subscribe_Options
  imports Subscribe_Driver Strategies Retry_Strategy
begin

text \<open>
  The subscriber's configuration and options (\<open>subscribe/options.go\<close>). Handlers and the error
  strategy act on the world \<open>'w\<close> outside the subscriber. A logger and a consumer factory are known
  by their numbers; what the factories' numbers stand for is an argument of \<open>Start\<close>, and 0 is the
  driver's own \<open>subscribedriver.New\<close>.
\<close>

section \<open>Strategies\<close>

text \<open>
  An \<open>ErrorStrategy\<close>; \<open>st_Initializable\<close> holds the two methods of \<open>Initializable\<close>, if it has them, and
  \<open>st_SetLogger\<close> the one of \<open>LoggerAware\<close>.
\<close>

record 'w strategy_ops =
  st_Name :: string
  st_HandleError :: "message list \<Rightarrow> failure \<Rightarrow> 'w \<Rightarrow> gerror option \<times> 'w"
  st_Initializable :: "(('w init_config \<Rightarrow> 'w \<Rightarrow> gerror option \<times> 'w) \<times> ('w \<Rightarrow> gerror option \<times> 'w)) option"
  st_SetLogger :: "(logger \<Rightarrow> 'w \<Rightarrow> 'w) option"

section \<open>Configuration\<close>

datatype mode = ModeUnset | ModeSingleMessage | ModeBatch

record 'w sconfig =
  STopic :: string
  SBrokers :: "string list"
  ConsumerGroup :: string
  Handler :: "'w handler option"
  BatchHandler :: "'w batch_handler option"
  Mode :: mode
  BatchSize :: int
  BatchTimeout :: duration
  PollTimeout :: duration
  AutoCommitEvery :: duration
  ErrorStrategy :: "'w strategy_ops option"
  SKafkaConfig :: "config_map option"
  SLogger :: logger
  SNewConsumer :: "factory option"

definition zero_config :: "'w sconfig" where
  "zero_config =
     \<lparr>STopic = [], SBrokers = [], ConsumerGroup = [], Handler = None, BatchHandler = None,
      Mode = ModeUnset, BatchSize = 0, BatchTimeout = 0, PollTimeout = 0, AutoCommitEvery = 0,
      ErrorStrategy = None, SKafkaConfig = None, SLogger = Nop, SNewConsumer = None\<rparr>"

text \<open>\<open>skip l\<close> is the strategy \<open>NewSkipStrategy\<close> makes with the logger \<open>l\<close>. A zero \<open>zerolog.Logger\<close> writes nothing.\<close>

definition ApplyDefaults :: "(logger \<Rightarrow> 'w strategy_ops) \<Rightarrow> 'w sconfig \<Rightarrow> 'w sconfig" where
  "ApplyDefaults skip c =
     (let c1 = (if PollTimeout c = 0 then c\<lparr>PollTimeout := 100 * Millisecond\<rparr> else c);
          c2 = (if ErrorStrategy c1 = None then c1\<lparr>ErrorStrategy := Some (skip (SLogger c1))\<rparr> else c1);
          c3 = (if SKafkaConfig c2 = None then c2\<lparr>SKafkaConfig := Some []\<rparr> else c2)
      in if SNewConsumer c3 = None then c3\<lparr>SNewConsumer := Some default_factory\<rparr> else c3)"

definition Validate :: "'w sconfig \<Rightarrow> gerror option" where
  "Validate c =
     (if STopic c = [] then Some (Plain ''topic is required'')
      else if length (SBrokers c) = 0 then Some (Plain ''at least one broker is required'')
      else if ConsumerGroup c = [] then Some (Plain ''consumer group is required'')
      else if Handler c = None \<and> BatchHandler c = None
      then Some (Plain ''exactly one of Handler or BatchHandler must be set'')
      else if Handler c \<noteq> None \<and> BatchHandler c \<noteq> None
      then Some (Plain ''only one of Handler or BatchHandler can be set'')
      else if Mode c = ModeBatch then
        (if BatchSize c \<le> 0 then Some (Plain ''batch size must be positive'')
         else if BatchTimeout c \<le> 0 then Some (Plain ''batch timeout must be positive'')
         else None)
      else None)"

section \<open>Options\<close>

type_synonym 'w sub_option = "'w sconfig \<Rightarrow> gerror + 'w sconfig"

definition WithTopic :: "string \<Rightarrow> 'w sub_option" where
  "WithTopic t c =
     (if t = [] then Inl (Plain ''topic cannot be empty'') else Inr (c\<lparr>STopic := t\<rparr>))"

definition sub_WithBrokers :: "string list \<Rightarrow> 'w sub_option" where
  "sub_WithBrokers bs c =
     (if length bs = 0 then Inl (Plain ''at least one broker must be provided'')
      else if [] \<in> set bs then Inl (Plain ''broker address cannot be empty'')
      else Inr (c\<lparr>SBrokers := bs\<rparr>))"

definition WithConsumerGroup :: "string \<Rightarrow> 'w sub_option" where
  "WithConsumerGroup g c =
     (if g = [] then Inl (Plain ''consumer group cannot be empty'') else Inr (c\<lparr>ConsumerGroup := g\<rparr>))"

definition WithHandler :: "'w handler option \<Rightarrow> 'w sub_option" where
  "WithHandler h c =
     (case h of None \<Rightarrow> Inl (Plain ''handler cannot be nil'')
      | Some _ \<Rightarrow> Inr (c\<lparr>Handler := h, Mode := ModeSingleMessage\<rparr>))"

definition WithBatchHandler :: "'w batch_handler option \<Rightarrow> 'w sub_option" where
  "WithBatchHandler h c =
     (case h of None \<Rightarrow> Inl (Plain ''batch handler cannot be nil'')
      | Some _ \<Rightarrow>
          (let c1 = c\<lparr>BatchHandler := h, Mode := ModeBatch\<rparr>;
               c2 = (if BatchSize c1 \<le> 0 then c1\<lparr>BatchSize := 100\<rparr> else c1)
           in Inr (if BatchTimeout c2 \<le> 0 then c2\<lparr>BatchTimeout := 5 * Second\<rparr> else c2)))"

definition WithErrorStrategy :: "'w strategy_ops option \<Rightarrow> 'w sub_option" where
  "WithErrorStrategy s c =
     (case s of None \<Rightarrow> Inl (Plain ''error strategy cannot be nil'')
      | Some _ \<Rightarrow> Inr (c\<lparr>ErrorStrategy := s\<rparr>))"

definition WithBatchSize :: "int \<Rightarrow> 'w sub_option" where
  "WithBatchSize n c =
     (if n \<le> 0 then Inl (Plain ''batch size must be positive'') else Inr (c\<lparr>BatchSize := n\<rparr>))"

definition WithBatchTimeout :: "duration \<Rightarrow> 'w sub_option" where
  "WithBatchTimeout t c =
     (if t \<le> 0 then Inl (Plain ''batch timeout must be positive'') else Inr (c\<lparr>BatchTimeout := t\<rparr>))"

definition WithPollTimeout :: "duration \<Rightarrow> 'w sub_option" where
  "WithPollTimeout t c =
     (if t < 10 * Millisecond then Inl (Plain ''poll timeout must be at least 10ms'')
      else Inr (c\<lparr>PollTimeout := t\<rparr>))"

definition WithAutoCommitEvery :: "duration \<Rightarrow> 'w sub_option" where
  "WithAutoCommitEvery d c =
     (if d \<le> 0 then Inl (Plain ''auto-commit interval must be positive'')
      else Inr (c\<lparr>AutoCommitEvery := d\<rparr>))"

definition sub_managedKafkaKeys :: "(string \<times> string) list" where
  "sub_managedKafkaKeys =
     [(''bootstrap.servers'', ''managed by WithBrokers''),
      (''group.id'', ''managed by WithConsumerGroup''),
      (''enable.auto.commit'', ''managed by WithAutoCommitEvery''),
      (''auto.commit.interval.ms'', ''managed by WithAutoCommitEvery''),
      (''enable.auto.offset.store'', ''managed by the library; '' @
         ''offsets are stored only after a message is processed''),
      (''partition.assignment.strategy'', ''managed by the library; '' @
         ''rebalance handling requires an eager strategy, and a cooperative one would silently drop buffered messages''),
      (''group.protocol'', ''managed by the library; '' @
         ''rebalance handling requires the classic protocol, whose revokes are eager'')]"

text \<open>The first managed key met, in the order the map is ranged over, decides the error's text.\<close>

definition sub_WithKafkaConfig :: "config_map option \<Rightarrow> 'w sub_option" where
  "sub_WithKafkaConfig kc c =
     (case kc of
        None \<Rightarrow> Inl (Plain ''kafka config cannot be nil'')
      | Some m \<Rightarrow>
          (case find (\<lambda>(k, v). map_of sub_managedKafkaKeys k \<noteq> None) m of
             Some (k, v) \<Rightarrow>
               Inl (Errorf [Txt ''kafka config key '', Quoted k, Txt '' is managed by the library ('',
                      Txt (the (map_of sub_managedKafkaKeys k)), Txt '') and cannot be overridden''])
           | None \<Rightarrow> Inr (c\<lparr>SKafkaConfig := Some m\<rparr>)))"

definition sub_WithLogger :: "logger \<Rightarrow> 'w sub_option" where
  "sub_WithLogger l c = Inr (c\<lparr>SLogger := l\<rparr>)"

definition WithConsumerFactory :: "factory option \<Rightarrow> 'w sub_option" where
  "WithConsumerFactory f c =
     (case f of None \<Rightarrow> Inl (Plain ''consumer factory cannot be nil'')
      | Some _ \<Rightarrow> Inr (c\<lparr>SNewConsumer := f\<rparr>))"

fun apply_sub_options :: "'w sub_option list \<Rightarrow> 'w sconfig \<Rightarrow> gerror + 'w sconfig" where
  "apply_sub_options [] c = Inr c"
| "apply_sub_options (opt # opts) c =
     (case opt c of
        Inl err \<Rightarrow> Inl (Errorf [Txt ''invalid option: '', W err])
      | Inr c' \<Rightarrow> apply_sub_options opts c')"

definition sub_New :: "(logger \<Rightarrow> 'w strategy_ops) \<Rightarrow> 'w sub_option list \<Rightarrow> gerror + 'w sconfig" where
  "sub_New skip options =
     (case apply_sub_options options zero_config of
        Inl err \<Rightarrow> Inl err
      | Inr cfg \<Rightarrow> (case Validate cfg of Some err \<Rightarrow> Inl err | None \<Rightarrow> Inr (ApplyDefaults skip cfg)))"

text \<open>The options by name, for statements about any use of them.\<close>

datatype 'w sub_opt =
    SoTopic string | SoBrokers "string list" | SoGroup string | SoHandler "'w handler option"
  | SoBatchHandler "'w batch_handler option" | SoStrategy "'w strategy_ops option"
  | SoBatchSize int | SoBatchTimeout duration | SoPollTimeout duration | SoAutoCommit duration
  | SoKafkaConfig "config_map option" | SoLogger logger | SoFactory "factory option"

fun sub_option_of :: "'w sub_opt \<Rightarrow> 'w sub_option" where
  "sub_option_of (SoTopic t) = WithTopic t"
| "sub_option_of (SoBrokers bs) = sub_WithBrokers bs"
| "sub_option_of (SoGroup g) = WithConsumerGroup g"
| "sub_option_of (SoHandler h) = WithHandler h"
| "sub_option_of (SoBatchHandler h) = WithBatchHandler h"
| "sub_option_of (SoStrategy s) = WithErrorStrategy s"
| "sub_option_of (SoBatchSize n) = WithBatchSize n"
| "sub_option_of (SoBatchTimeout t) = WithBatchTimeout t"
| "sub_option_of (SoPollTimeout t) = WithPollTimeout t"
| "sub_option_of (SoAutoCommit d) = WithAutoCommitEvery d"
| "sub_option_of (SoKafkaConfig kc) = sub_WithKafkaConfig kc"
| "sub_option_of (SoLogger l) = sub_WithLogger l"
| "sub_option_of (SoFactory f) = WithConsumerFactory f"

definition sconfig_inv :: "'w sconfig \<Rightarrow> bool" where
  "sconfig_inv c \<longleftrightarrow>
     (Mode c = ModeBatch \<longrightarrow> BatchHandler c \<noteq> None) \<and> (Mode c = ModeSingleMessage \<longrightarrow> Handler c \<noteq> None)
     \<and> (Mode c = ModeUnset \<longrightarrow> Handler c = None \<and> BatchHandler c = None)
     \<and> (PollTimeout c = 0 \<or> 10 * Millisecond \<le> PollTimeout c) \<and> 0 \<le> AutoCommitEvery c
     \<and> (\<forall>m. SKafkaConfig c = Some m \<longrightarrow> (\<forall>k\<in>fst ` set m. map_of sub_managedKafkaKeys k = None))"

section \<open>Lemmas\<close>

lemmas sub_option_defs =
  WithTopic_def sub_WithBrokers_def WithConsumerGroup_def WithHandler_def WithBatchHandler_def
  WithErrorStrategy_def WithBatchSize_def WithBatchTimeout_def WithPollTimeout_def
  WithAutoCommitEvery_def sub_WithLogger_def WithConsumerFactory_def

lemma sub_WithKafkaConfig_ok:
  "sub_WithKafkaConfig (Some m) c = Inr c' \<longleftrightarrow>
     (\<forall>k\<in>fst ` set m. map_of sub_managedKafkaKeys k = None) \<and> c' = c\<lparr>SKafkaConfig := Some m\<rparr>"
proof (cases "find (\<lambda>(k, v). map_of sub_managedKafkaKeys k \<noteq> None) m")
  case None
  then have "\<forall>k\<in>fst ` set m. map_of sub_managedKafkaKeys k = None" by (auto simp: find_None_iff)
  with None show ?thesis by (auto simp: sub_WithKafkaConfig_def)
next
  case (Some kv)
  from find_Some_set [OF this] have "kv \<in> set m" "map_of sub_managedKafkaKeys (fst kv) \<noteq> None"
    by (auto split: prod.splits)
  then have "\<not> (\<forall>k\<in>fst ` set m. map_of sub_managedKafkaKeys k = None)" by force
  with Some show ?thesis by (cases kv) (simp add: sub_WithKafkaConfig_def)
qed

text \<open>The fields the invariant is about, as each option leaves them.\<close>

lemma sub_option_fields:
  assumes "sub_option_of opt c = Inr c'"
  shows "Mode c' = Mode c \<and> Handler c' = Handler c \<and> BatchHandler c' = BatchHandler c
      \<or> Mode c' = ModeSingleMessage \<and> Handler c' \<noteq> None
      \<or> Mode c' = ModeBatch \<and> BatchHandler c' \<noteq> None"
    and "PollTimeout c' = PollTimeout c \<or> 10 * Millisecond \<le> PollTimeout c'"
    and "AutoCommitEvery c' = AutoCommitEvery c \<or> 0 < AutoCommitEvery c'"
    and "SKafkaConfig c' = SKafkaConfig c
      \<or> (\<exists>m. SKafkaConfig c' = Some m \<and> (\<forall>k\<in>fst ` set m. map_of sub_managedKafkaKeys k = None))"
proof -
  have kc: "\<exists>m. kc = Some m \<and> c' = c\<lparr>SKafkaConfig := Some m\<rparr>
      \<and> (\<forall>k\<in>fst ` set m. map_of sub_managedKafkaKeys k = None)" if "opt = SoKafkaConfig kc" for kc
    using assms that by (cases kc) (auto simp: sub_WithKafkaConfig_ok sub_WithKafkaConfig_def [of None])
  note splits = if_split_asm option.split_asm
  show "Mode c' = Mode c \<and> Handler c' = Handler c \<and> BatchHandler c' = BatchHandler c
      \<or> Mode c' = ModeSingleMessage \<and> Handler c' \<noteq> None
      \<or> Mode c' = ModeBatch \<and> BatchHandler c' \<noteq> None"
    using assms kc by (cases opt) (auto simp: sub_option_defs Let_def split: splits)
  show "PollTimeout c' = PollTimeout c \<or> 10 * Millisecond \<le> PollTimeout c'"
    using assms kc by (cases opt) (auto simp: sub_option_defs Let_def split: splits)
  show "AutoCommitEvery c' = AutoCommitEvery c \<or> 0 < AutoCommitEvery c'"
    using assms kc by (cases opt) (auto simp: sub_option_defs Let_def split: splits)
  show "SKafkaConfig c' = SKafkaConfig c
      \<or> (\<exists>m. SKafkaConfig c' = Some m \<and> (\<forall>k\<in>fst ` set m. map_of sub_managedKafkaKeys k = None))"
    using assms kc by (cases opt) (auto simp: sub_option_defs Let_def split: splits)
qed

lemma sub_option_inv:
  assumes "sconfig_inv c" and "sub_option_of opt c = Inr c'"
  shows "sconfig_inv c'"
proof -
  note F = sub_option_fields [OF assms(2)] and I = assms(1) [unfolded sconfig_inv_def]
  have "(Mode c' = ModeBatch \<longrightarrow> BatchHandler c' \<noteq> None) \<and> (Mode c' = ModeSingleMessage \<longrightarrow> Handler c' \<noteq> None)
      \<and> (Mode c' = ModeUnset \<longrightarrow> Handler c' = None \<and> BatchHandler c' = None)"
    using F(1) I by auto
  moreover have "PollTimeout c' = 0 \<or> 10 * Millisecond \<le> PollTimeout c'" using F(2) I by auto
  moreover have "0 \<le> AutoCommitEvery c'" using F(3) I by auto
  moreover have "\<forall>m. SKafkaConfig c' = Some m \<longrightarrow> (\<forall>k\<in>fst ` set m. map_of sub_managedKafkaKeys k = None)"
    using F(4) I by auto
  ultimately show ?thesis by (simp add: sconfig_inv_def)
qed

lemma apply_sub_options_inv:
  "sconfig_inv c \<Longrightarrow> apply_sub_options (map sub_option_of opts) c = Inr c' \<Longrightarrow> sconfig_inv c'"
proof (induction opts arbitrary: c)
  case Nil
  then show ?case by simp
next
  case (Cons opt opts)
  then show ?case by (auto split: sum.splits dest: sub_option_inv)
qed

lemma sconfig_inv_zero: "sconfig_inv zero_config"
  by (simp add: sconfig_inv_def zero_config_def)

end
