(* ===== verification/Batch_Buffer.thy ===== *)
theory Batch_Buffer
  imports Sub_Types
begin

text \<open>
  The batch buffer (\<open>internal/subscribe/batch/batch.go\<close>). \<open>time.Now()\<close> is an argument of the
  operations that read the clock, in nanoseconds; the zero \<open>time.Time\<close> is 0. The locale
  \<open>message_buffer\<close> is what the poll loop relies on: adding, flushing and dropping act on the
  buffered list alone, so over any sequence of operations every message added is flushed,
  dropped or still held, once and in order.
\<close>

section \<open>The buffer\<close>

record buffer =
  messages :: "message list"
  batchSize :: int
  timeout :: duration
  firstAdd :: int

text \<open>\<open>make\<close> panics on a negative capacity: \<open>None\<close>.\<close>

definition NewBuffer :: "int \<Rightarrow> duration \<Rightarrow> buffer option" where
  "NewBuffer sz t =
     (if sz < 0 then None
      else Some \<lparr>messages = [], batchSize = sz, timeout = t, firstAdd = 0\<rparr>)"

definition Add :: "int \<Rightarrow> message \<Rightarrow> buffer \<Rightarrow> buffer" where
  "Add now msg b =
     (let b' = (if length (messages b) = 0 then b\<lparr>firstAdd := now\<rparr> else b)
      in b'\<lparr>messages := messages b @ [msg]\<rparr>)"

definition Ready :: "buffer \<Rightarrow> bool" where
  "Ready b \<longleftrightarrow> int (length (messages b)) \<ge> batchSize b"

definition TimedOut :: "int \<Rightarrow> buffer \<Rightarrow> bool" where
  "TimedOut now b =
     (if length (messages b) = 0 then False else time_sub now (firstAdd b) \<ge> timeout b)"

definition buffer_Len :: "buffer \<Rightarrow> nat" where
  "buffer_Len b = length (messages b)"

definition Drop :: "buffer \<Rightarrow> nat \<times> buffer" where
  "Drop b = (length (messages b), b\<lparr>messages := [], firstAdd := 0\<rparr>)"

definition Flush :: "buffer \<Rightarrow> message list option \<times> buffer" where
  "Flush b =
     (if length (messages b) = 0 then (None, b)
      else (Some (messages b), b\<lparr>messages := [], firstAdd := 0\<rparr>))"

section \<open>The interface the poll loop uses\<close>

datatype buffer_op = OpAdd int message | OpFlush | OpDrop

fun added :: "buffer_op list \<Rightarrow> message list" where
  "added [] = []"
| "added (OpAdd _ m # ops) = m # added ops"
| "added (_ # ops) = added ops"

text \<open>
  A run of operations: the chunks that left the buffer, each marked as flushed (\<open>True\<close>) or
  dropped (\<open>False\<close>), and the buffer left at the end.
\<close>

fun run_ops ::
  "(int \<Rightarrow> message \<Rightarrow> 'b \<Rightarrow> 'b) \<Rightarrow> ('b \<Rightarrow> message list option \<times> 'b) \<Rightarrow> ('b \<Rightarrow> nat \<times> 'b)
     \<Rightarrow> ('b \<Rightarrow> message list) \<Rightarrow> 'b \<Rightarrow> buffer_op list \<Rightarrow> (bool \<times> message list) list \<times> 'b" where
  "run_ops add fl dr cont b [] = ([], b)"
| "run_ops add fl dr cont b (OpAdd t m # ops) = run_ops add fl dr cont (add t m b) ops"
| "run_ops add fl dr cont b (OpFlush # ops) =
     (case fl b of
        (None, b') \<Rightarrow> run_ops add fl dr cont b' ops
      | (Some ms, b') \<Rightarrow>
          (let (out, b'') = run_ops add fl dr cont b' ops in ((True, ms) # out, b'')))"
| "run_ops add fl dr cont b (OpDrop # ops) =
     (let (out, b'') = run_ops add fl dr cont (snd (dr b)) ops
      in ((False, cont b) # out, b''))"

locale message_buffer =
  fixes add :: "int \<Rightarrow> message \<Rightarrow> 'b \<Rightarrow> 'b"
    and fl :: "'b \<Rightarrow> message list option \<times> 'b"
    and dr :: "'b \<Rightarrow> nat \<times> 'b"
    and cont :: "'b \<Rightarrow> message list"
  assumes cont_add: "cont (add t m b) = cont b @ [m]"
    and fl_None: "fl b = (None, b') \<Longrightarrow> cont b = [] \<and> cont b' = []"
    and fl_Some: "fl b = (Some ms, b') \<Longrightarrow> ms = cont b \<and> ms \<noteq> [] \<and> cont b' = []"
    and dr_cont: "dr b = (n, b') \<Longrightarrow> n = length (cont b) \<and> cont b' = []"
begin

lemma conservation:
  "run_ops add fl dr cont b ops = (out, b') \<Longrightarrow>
     concat (map snd out) @ cont b' = cont b @ added ops"
proof (induction ops arbitrary: b out)
  case Nil
  then show ?case by simp
next
  case (Cons op ops)
  show ?case
  proof (cases op)
    case (OpAdd t m)
    with Cons show ?thesis by (fastforce simp: cont_add)
  next
    case OpFlush
    obtain r c where fl: "fl b = (r, c)" by fastforce
    show ?thesis
    proof (cases r)
      case None
      with fl have "cont b = []" "cont c = []" using fl_None by auto
      with Cons OpFlush fl None show ?thesis by fastforce
    next
      case (Some ms)
      with fl have "ms = cont b" "cont c = []" using fl_Some by auto
      with Cons OpFlush fl Some show ?thesis
        by (fastforce split: prod.splits)
    qed
  next
    case OpDrop
    have "cont (snd (dr b)) = []" using dr_cont [of b "fst (dr b)" "snd (dr b)"] by simp
    with Cons OpDrop show ?thesis by (fastforce split: prod.splits)
  qed
qed

lemma flushed_nonempty:
  "run_ops add fl dr cont b ops = (out, b') \<Longrightarrow> (True, ms) \<in> set out \<Longrightarrow> ms \<noteq> []"
proof (induction ops arbitrary: b out)
  case Nil
  then show ?case by simp
next
  case (Cons op ops)
  then show ?case
    by (cases op) (use fl_Some in \<open>fastforce split: prod.splits option.splits\<close>)+
qed

end

section \<open>Lemmas\<close>

lemma messages_Add [simp]: "messages (Add t m b) = messages b @ [m]"
  by (simp add: Add_def Let_def)

lemma batchSize_Add [simp]: "batchSize (Add t m b) = batchSize b"
  by (simp add: Add_def Let_def)

lemma Drop_buffer [simp]:
  "messages (snd (Drop b)) = []" "batchSize (snd (Drop b)) = batchSize b"
  "timeout (snd (Drop b)) = timeout b" "fst (Drop b) = length (messages b)"
  by (simp_all add: Drop_def)

lemma Flush_None: "Flush b = (None, b') \<longleftrightarrow> messages b = [] \<and> b' = b"
  by (auto simp: Flush_def)

lemma Flush_Some:
  "Flush b = (Some ms, b') \<longleftrightarrow>
     messages b = ms \<and> ms \<noteq> [] \<and> b' = b\<lparr>messages := [], firstAdd := 0\<rparr>"
  by (auto simp: Flush_def)

lemma Drop_nonempty_Flush: "messages b \<noteq> [] \<Longrightarrow> snd (Drop b) = snd (Flush b)"
  by (simp add: Drop_def Flush_def)

interpretation bb: message_buffer Add Flush Drop messages
  by unfold_locales (auto simp: Flush_None Flush_Some Drop_def)

end
