(* ===== verification/Subscriber.thy ===== *)
theory Subscriber
  imports Subscribe_Options Batch_Buffer
begin

text \<open>
  The subscriber (\<open>subscribe/subscriber.go\<close>): its lifecycle, the two poll loops, dispatch with panic
  recovery, the routing of failures and the storing of offsets.

  The driver's \<open>Consumer\<close> interface is the record \<open>consumer_ops\<close> over the world \<open>'w\<close>, on which
  handlers and strategies act as well; \<open>ctx.Done\<close>, \<open>time.Now\<close> and the order in which Go ranges over
  a map are in the record \<open>env\<close>. A poll also returns how often the revoke hook was invoked during
  it, and the model runs the hook that often. All of this happens on the one goroutine that called
  \<open>Start\<close>.

  The field \<open>trace\<close> is not in the code: it records what was polled, dropped, accounted for and
  stored, in order, so that the properties can speak about it. Nothing reads it.
\<close>

section \<open>State\<close>

datatype lifecycle = Created | Started | Stopping | Stopped

text \<open>The states of a subscriber in the order it goes through them.\<close>

fun lifecycle_rank :: "lifecycle \<Rightarrow> nat" where
  "lifecycle_rank Created = 0"
| "lifecycle_rank Started = 1"
| "lifecycle_rank Stopping = 2"
| "lifecycle_rank Stopped = 3"

instantiation lifecycle :: linorder
begin

definition less_eq_lifecycle :: "lifecycle \<Rightarrow> lifecycle \<Rightarrow> bool" where
  "less_eq_lifecycle a b \<longleftrightarrow> lifecycle_rank a \<le> lifecycle_rank b"

definition less_lifecycle :: "lifecycle \<Rightarrow> lifecycle \<Rightarrow> bool" where
  "less_lifecycle a b \<longleftrightarrow> lifecycle_rank a < lifecycle_rank b"

instance
proof
  fix x y :: lifecycle
  show "x \<le> y \<Longrightarrow> y \<le> x \<Longrightarrow> x = y" by (cases x; cases y) (simp_all add: less_eq_lifecycle_def)
qed (auto simp: less_eq_lifecycle_def less_lifecycle_def)

end

datatype trace_event =
    TPolled message
  | TDropped "message list"
  | TSucceeded "message list"
  | TResolved "message list" failure
  | TStore string int int "gerror option"

record subscriber =
  sstate :: lifecycle
  sbuf :: "buffer option"
  slog :: "logline list"
  trace :: "trace_event list"

record 'w consumer_ops =
  co_Connect :: "'w \<Rightarrow> gerror option \<times> 'w"
  co_SetOnRevoke :: "'w \<Rightarrow> 'w"
  co_SubscribeToTopic :: "'w \<Rightarrow> gerror option \<times> 'w"
  co_Poll :: "int \<Rightarrow> 'w \<Rightarrow> (nat \<times> (gerror + message option)) \<times> 'w"
  co_StoreOffset :: "string \<Rightarrow> int \<Rightarrow> int \<Rightarrow> 'w \<Rightarrow> gerror option \<times> 'w"
  co_CommitStored :: "'w \<Rightarrow> gerror option \<times> 'w"
  co_MaybeCommitStored :: "'w \<Rightarrow> gerror option \<times> 'w"
  co_Close :: "'w \<Rightarrow> (nat \<times> gerror option) \<times> 'w"

record 'w env =
  cons :: "'w consumer_ops"
  ctx_Done :: "'w \<Rightarrow> bool"
  clock_Now :: "'w \<Rightarrow> int \<times> 'w"
  map_order :: "((string \<times> int) \<times> int) list \<Rightarrow> ((string \<times> int) \<times> int) list"

definition new_subscriber :: subscriber where
  "new_subscriber = \<lparr>sstate = Created, sbuf = None, slog = [], trace = []\<rparr>"

definition slog_add :: "level \<Rightarrow> logcode option \<Rightarrow> subscriber \<Rightarrow> subscriber" where
  "slog_add l c s = s\<lparr>slog := slog s @ [(l, c)]\<rparr>"

definition ghost :: "trace_event \<Rightarrow> subscriber \<Rightarrow> subscriber" where
  "ghost e s = s\<lparr>trace := trace s @ [e]\<rparr>"

section \<open>Configuration of the driver\<close>

definition defaultPollTimeoutMs :: int where
  "defaultPollTimeoutMs = 100"

definition pollTimeoutMs :: "'w sconfig \<Rightarrow> int" where
  "pollTimeoutMs c =
     (let ms = go_div (PollTimeout c) Millisecond in if ms < 1 then defaultPollTimeoutMs else ms)"

definition GetConfig :: "'w sconfig \<Rightarrow> 'w sconfig" where
  "GetConfig c = c"

definition sub_driverConfig :: "'w sconfig \<Rightarrow> consumer_config" where
  "sub_driverConfig c =
     \<lparr>CBrokers = SBrokers c, CTopic = STopic c, CGroupID = ConsumerGroup c,
      CKafkaConfig = (case SKafkaConfig c of None \<Rightarrow> [] | Some m \<Rightarrow> m),
      CommitInterval = AutoCommitEvery c, CLogger = SLogger c\<rparr>"

section \<open>Dispatch\<close>

definition panic_failure :: "string \<Rightarrow> failure" where
  "panic_failure v = \<lparr>Err = Some (Errorf [Txt ''handler panic: '', Fmt ''%v'' v]), Step = 0, FCode = []\<rparr>"

definition dispatchMessage ::
  "'w handler \<Rightarrow> message \<Rightarrow> subscriber \<Rightarrow> 'w \<Rightarrow> failure option \<times> subscriber \<times> 'w" where
  "dispatchMessage h msg s w =
     (case h msg (Payload msg) w of
        (HReturn f, w') \<Rightarrow> (f, s, w')
      | (HPanic v, w') \<Rightarrow> (Some (panic_failure v), slog_add Error (Some HandlerPanic) s, w'))"

text \<open>The batch comes back with the verdicts the handler recorded, also when it panicked.\<close>

definition invokeBatchHandler ::
  "'w batch_handler \<Rightarrow> batch \<Rightarrow> subscriber \<Rightarrow> 'w \<Rightarrow> failure option \<times> batch \<times> subscriber \<times> 'w" where
  "invokeBatchHandler h polled s w =
     (case h polled w of
        ((fails, HReturn f), w') \<Rightarrow> (f, apply_fails fails polled, s, w')
      | ((fails, HPanic v), w') \<Rightarrow>
          (Some (panic_failure v), apply_fails fails polled, slog_add Error (Some HandlerPanic) s, w'))"

definition withReason :: "failure \<Rightarrow> subscriber \<Rightarrow> failure \<times> subscriber" where
  "withReason f s =
     (case Err f of
        Some _ \<Rightarrow> (f, s)
      | None \<Rightarrow> (f\<lparr>Err := Some (SentinelErr ErrUnspecified)\<rparr>, slog_add Warn (Some FailureWithoutError) s))"

text \<open>One call of the strategy, under a failure that has a reason.\<close>

definition hand_to_strategy ::
  "'w strategy_ops \<Rightarrow> message list \<Rightarrow> failure \<Rightarrow> subscriber \<Rightarrow> 'w \<Rightarrow> gerror option \<times> subscriber \<times> 'w" where
  "hand_to_strategy st msgs f s w =
     (let (f', s1) = withReason f s; (err, w') = st_HandleError st msgs f' w
      in (err, (if err = None then ghost (TResolved msgs f') s1 else s1), w'))"

fun route_items ::
  "'w strategy_ops \<Rightarrow> batch_item list \<Rightarrow> subscriber \<Rightarrow> 'w \<Rightarrow> gerror option \<times> subscriber \<times> 'w" where
  "route_items st [] s w = (None, s, w)"
| "route_items st (item # items) s w =
     (case item_Failed item of
        None \<Rightarrow> route_items st items (ghost (TSucceeded [item_Message item]) s) w
      | Some f \<Rightarrow>
          (case hand_to_strategy st [item_Message item] f s w of
             (Some err, s', w') \<Rightarrow> (Some err, s', w')
           | (None, s', w') \<Rightarrow> route_items st items s' w'))"

definition routeBatchFailures ::
  "'w strategy_ops \<Rightarrow> message list \<Rightarrow> batch \<Rightarrow> failure option \<Rightarrow> subscriber \<Rightarrow> 'w
     \<Rightarrow> gerror option \<times> subscriber \<times> 'w" where
  "routeBatchFailures st msgs polled whole s w =
     (case whole of
        Some f \<Rightarrow> hand_to_strategy st msgs f s w
      | None \<Rightarrow> route_items st (Items polled) s w)"

section \<open>Storing offsets\<close>

fun highest_offsets ::
  "message list \<Rightarrow> ((string \<times> int), int) gomap \<Rightarrow> ((string \<times> int), int) gomap" where
  "highest_offsets [] hi = hi"
| "highest_offsets (m # ms) hi =
     (let tp = (Topic m, Partition m)
      in highest_offsets ms
           (case map_of hi tp of
              None \<Rightarrow> map_set tp (Offset m) hi
            | Some off \<Rightarrow> if Offset m > off then map_set tp (Offset m) hi else hi))"

definition store_offset ::
  "'w consumer_ops \<Rightarrow> string \<Rightarrow> int \<Rightarrow> int \<Rightarrow> subscriber \<Rightarrow> 'w \<Rightarrow> gerror option \<times> subscriber \<times> 'w" where
  "store_offset C topic part offset s w =
     (let (err, w') = co_StoreOffset C topic part offset w
      in (err, ghost (TStore topic part offset err) s, w'))"

fun store_each ::
  "'w consumer_ops \<Rightarrow> ((string \<times> int) \<times> int) list \<Rightarrow> gerror option \<Rightarrow> subscriber \<Rightarrow> 'w
     \<Rightarrow> gerror option \<times> subscriber \<times> 'w" where
  "store_each C [] fatalErr s w = (fatalErr, s, w)"
| "store_each C (((t, p), offset) # rest) fatalErr s w =
     (case store_offset C t p offset s w of
        (None, s', w') \<Rightarrow> store_each C rest fatalErr s' w'
      | (Some err, s', w') \<Rightarrow>
          if errors_Is err ErrPartitionRevoked then store_each C rest fatalErr (slog_add Debug None s') w'
          else store_each C rest (Some (join_err fatalErr err)) s' w')"

definition storeHighestOffsetPerPartition ::
  "'w env \<Rightarrow> message list \<Rightarrow> subscriber \<Rightarrow> 'w \<Rightarrow> gerror option \<times> subscriber \<times> 'w" where
  "storeHighestOffsetPerPartition E msgs s w =
     store_each (cons E) (map_order E (highest_offsets msgs [])) None s w"

definition maybe_commit :: "'w consumer_ops \<Rightarrow> subscriber \<Rightarrow> 'w \<Rightarrow> subscriber \<times> 'w" where
  "maybe_commit C s w =
     (let (err, w') = co_MaybeCommitStored C w
      in (if err = None then s else slog_add Warn (Some CommitFailed) s, w'))"

definition dispatchBatch ::
  "'w env \<Rightarrow> 'w sconfig \<Rightarrow> message list \<Rightarrow> subscriber \<Rightarrow> 'w \<Rightarrow> gerror option \<times> subscriber \<times> 'w" where
  "dispatchBatch E c msgs s w =
     (let (whole, polled, s1, w1) = invokeBatchHandler (the (BatchHandler c)) (NewBatchFromBuffer msgs) s w
      in case routeBatchFailures (the (ErrorStrategy c)) msgs polled whole s1 w1 of
           (Some err, s2, w2) \<Rightarrow>
             (Some (Errorf [Txt ''error strategy: '', W err]),
              slog_add Error (Some StoppedByStrategy) s2, w2)
         | (None, s2, w2) \<Rightarrow>
             (let (fatalErr, s3, w3) = storeHighestOffsetPerPartition E msgs s2 w2;
                  (s4, w4) = maybe_commit (cons E) s3 w3
              in case fatalErr of
                   Some err \<Rightarrow>
                     (Some (Errorf [Txt ''store offset: '', W err]),
                      slog_add Error (Some OffsetStoreFailed) s4, w4)
                 | None \<Rightarrow> (None, s4, w4)))"

section \<open>The poll loops\<close>

text \<open>The revoke hook: in batch mode, discard the buffer.\<close>

definition revoke_hook :: "subscriber \<Rightarrow> subscriber" where
  "revoke_hook s =
     (case sbuf s of
        None \<Rightarrow> s
      | Some b \<Rightarrow>
          (let (dropped, b') = Drop b; s' = ghost (TDropped (messages b)) (s\<lparr>sbuf := Some b'\<rparr>)
           in if dropped > 0 then slog_add Debug None s' else s'))"

text \<open>\<open>Poll\<close>, with the hook run as often as the driver invoked it.\<close>

definition poll ::
  "'w env \<Rightarrow> 'w sconfig \<Rightarrow> subscriber \<Rightarrow> 'w \<Rightarrow> (gerror + message option) \<times> subscriber \<times> 'w" where
  "poll E c s w =
     (let ((hooks, res), w') = co_Poll (cons E) (pollTimeoutMs c) w;
          s' = (revoke_hook ^^ hooks) s
      in (res, (case res of Inr (Some m) \<Rightarrow> ghost (TPolled m) s' | _ \<Rightarrow> s'), w'))"

text \<open>
  One turn of a loop's body: the loop's error so far, the state and the world after it. A \<open>break\<close>
  of the source comes after the state was set to stopping, so the loop ends at its next test.
\<close>

definition stop_with :: "gerror \<Rightarrow> subscriber \<Rightarrow> 'w \<Rightarrow> gerror option \<times> subscriber \<times> 'w" where
  "stop_with err s w = (Some err, s\<lparr>sstate := Stopping\<rparr>, w)"

text \<open>The end of a single-message turn: the message is accounted for, store it and commit.\<close>

definition finish_message ::
  "'w env \<Rightarrow> message \<Rightarrow> subscriber \<Rightarrow> 'w \<Rightarrow> gerror option \<times> subscriber \<times> 'w" where
  "finish_message E msg s w =
     (case store_offset (cons E) (Topic msg) (Partition msg) (Offset msg) s w of
        (Some err, s', w') \<Rightarrow>
          if \<not> errors_Is err ErrPartitionRevoked
          then stop_with (Errorf [Txt ''store offset: '', W err])
                 (slog_add Error (Some OffsetStoreFailed) s') w'
          else (None, slog_add Debug None s', w')
      | (None, s', w') \<Rightarrow> (let (s'', w'') = maybe_commit (cons E) s' w' in (None, s'', w'')))"

definition single_body ::
  "'w env \<Rightarrow> 'w sconfig \<Rightarrow> subscriber \<Rightarrow> 'w \<Rightarrow> gerror option \<times> subscriber \<times> 'w" where
  "single_body E c s w =
     (if ctx_Done E w then (None, s\<lparr>sstate := Stopping\<rparr>, w)
      else
        (case poll E c s w of
           (Inl err, s1, w1) \<Rightarrow>
             stop_with (Errorf [Txt ''polling error: '', W err]) (slog_add Error (Some PollFatal) s1) w1
         | (Inr None, s1, w1) \<Rightarrow> (None, s1, w1)
         | (Inr (Some msg), s1, w1) \<Rightarrow>
             (case dispatchMessage (the (Handler c)) msg s1 w1 of
                (None, s2, w2) \<Rightarrow> finish_message E msg (ghost (TSucceeded [msg]) s2) w2
              | (Some f, s2, w2) \<Rightarrow>
                  (case hand_to_strategy (the (ErrorStrategy c)) [msg] f s2 w2 of
                     (Some err, s3, w3) \<Rightarrow>
                       stop_with (Errorf [Txt ''error strategy: '', W err])
                         (slog_add Error (Some StoppedByStrategy) s3) w3
                   | (None, s3, w3) \<Rightarrow> finish_message E msg s3 w3))))"

text \<open>\<open>buf.Add\<close> reads the clock, and \<open>TimedOut\<close> reads it only when the batch is not full.\<close>

definition add_polled :: "'w env \<Rightarrow> message option \<Rightarrow> buffer \<Rightarrow> 'w \<Rightarrow> buffer \<times> 'w" where
  "add_polled E msg b w =
     (case msg of None \<Rightarrow> (b, w) | Some m \<Rightarrow> (let (t, w') = clock_Now E w in (Add t m b, w')))"

definition batch_due :: "'w env \<Rightarrow> buffer \<Rightarrow> 'w \<Rightarrow> bool \<times> 'w" where
  "batch_due E b w =
     (if Ready b then (True, w) else (let (t, w') = clock_Now E w in (TimedOut t b, w')))"

definition batch_body ::
  "'w env \<Rightarrow> 'w sconfig \<Rightarrow> subscriber \<Rightarrow> 'w \<Rightarrow> gerror option \<times> subscriber \<times> 'w" where
  "batch_body E c s w =
     (if ctx_Done E w then (None, s\<lparr>sstate := Stopping\<rparr>, w)
      else
        (case poll E c s w of
           (Inl err, s1, w1) \<Rightarrow>
             stop_with (Errorf [Txt ''polling error: '', W err]) (slog_add Error (Some PollFatal) s1) w1
         | (Inr msg, s1, w1) \<Rightarrow>
             (let (b, w2) = add_polled E msg (the (sbuf s1)) w1; (due, w3) = batch_due E b w2
              in if due
                 then
                   (case Flush b of
                      (None, b') \<Rightarrow> (None, s1\<lparr>sbuf := Some b'\<rparr>, w3)
                    | (Some msgs, b') \<Rightarrow>
                        (case dispatchBatch E c msgs (s1\<lparr>sbuf := Some b'\<rparr>) w3 of
                           (Some err, s2, w4) \<Rightarrow> stop_with err s2 w4
                         | (None, s2, w4) \<Rightarrow> (None, s2, w4)))
                 else (None, s1\<lparr>sbuf := Some b\<rparr>, w3))))"

text \<open>\<open>for s.state.Load() == stateRunning\<close>. \<open>None\<close> is a loop that has not ended within the fuel.\<close>

fun run_loop ::
  "nat \<Rightarrow> (subscriber \<Rightarrow> 'w \<Rightarrow> gerror option \<times> subscriber \<times> 'w) \<Rightarrow> gerror option \<Rightarrow> subscriber \<Rightarrow> 'w
     \<Rightarrow> (gerror option \<times> subscriber \<times> 'w) option" where
  "run_loop fuel body loopErr s w =
     (if sstate s \<noteq> Started then Some (loopErr, s, w)
      else
        (case fuel of
           0 \<Rightarrow> None
         | Suc n \<Rightarrow>
             (let (err, s', w') = body s w
              in run_loop n body (if err = None then loopErr else err) s' w')))"

declare run_loop.simps [simp del]

definition runSingleLoop ::
  "nat \<Rightarrow> 'w env \<Rightarrow> 'w sconfig \<Rightarrow> subscriber \<Rightarrow> 'w \<Rightarrow> (gerror option \<times> subscriber \<times> 'w) option" where
  "runSingleLoop fuel E c s w = run_loop fuel (single_body E c) None s w"

definition runBatchLoop ::
  "nat \<Rightarrow> 'w env \<Rightarrow> 'w sconfig \<Rightarrow> subscriber \<Rightarrow> 'w \<Rightarrow> (gerror option \<times> subscriber \<times> 'w) option" where
  "runBatchLoop fuel E c s w = run_loop fuel (batch_body E c) None s w"

section \<open>Running and starting\<close>

definition run ::
  "nat \<Rightarrow> 'w env \<Rightarrow> 'w sconfig \<Rightarrow> subscriber \<Rightarrow> 'w \<Rightarrow> (gerror option \<times> subscriber \<times> 'w) option" where
  "run fuel E c s w =
     (let C = cons E
      in case co_Connect C w of
           (Some err, w1) \<Rightarrow> Some (Some (Errorf [Txt ''failed to connect: '', W err]), s, w1)
         | (None, w1) \<Rightarrow>
             (let w2 = (if Mode c = ModeBatch then co_SetOnRevoke C w1 else w1)
              in case co_SubscribeToTopic C w2 of
                   (Some err, w3) \<Rightarrow>
                     (let ((hooks, _), w4) = co_Close C w3
                      in Some (Some (Errorf [Txt ''failed to subscribe: '', W err]),
                               (revoke_hook ^^ hooks) s, w4))
                 | (None, w3) \<Rightarrow>
                     (case (if Mode c = ModeBatch then runBatchLoop fuel E c s w3
                            else runSingleLoop fuel E c s w3) of
                        None \<Rightarrow> None
                      | Some (loopErr, s1, w4) \<Rightarrow>
                          (let (cerr, w5) = co_CommitStored C w4;
                               s2 = (if cerr = None then s1 else slog_add Warn (Some CommitFailed) s1);
                               ((hooks, xerr), w6) = co_Close C w5;
                               s3 = (revoke_hook ^^ hooks) s2;
                               s4 = (if xerr = None then s3 else slog_add Error (Some ConsumerCloseFailed) s3)
                           in Some (loopErr, s4, w6)))))"

definition init_config_of :: "'w sconfig \<Rightarrow> 'w init_config" where
  "init_config_of c =
     \<lparr>ic_Brokers = SBrokers c, ic_ConsumerGroup = ConsumerGroup c, ic_Handler = Handler c,
      ic_Logger = SLogger c, ic_KafkaConfig = (case SKafkaConfig c of None \<Rightarrow> [] | Some m \<Rightarrow> m)\<rparr>"

definition wire_logger :: "'w strategy_ops \<Rightarrow> logger \<Rightarrow> 'w \<Rightarrow> 'w" where
  "wire_logger st l w = (case st_SetLogger st of None \<Rightarrow> w | Some set_logger \<Rightarrow> set_logger l w)"

text \<open>The strategy is claimed before its logger is replaced: a refused claim leaves the logger alone.\<close>

definition initialize_strategy :: "'w sconfig \<Rightarrow> 'w \<Rightarrow> gerror option \<times> 'w" where
  "initialize_strategy c w =
     (let st = the (ErrorStrategy c);
          (err, w1) = (case st_Initializable st of
                         None \<Rightarrow> (None, w)
                       | Some (ini, _) \<Rightarrow> ini (init_config_of c) w)
      in if err = None then (None, wire_logger st (SLogger c) w1) else (err, w1))"

definition close_strategy :: "'w strategy_ops \<Rightarrow> 'w \<Rightarrow> 'w" where
  "close_strategy st w =
     (case st_Initializable st of None \<Rightarrow> w | Some (_, cl) \<Rightarrow> snd (cl w))"

text \<open>
  \<open>Start\<close>. \<open>newConsumer\<close> is the factory; the state is set to stopped on every return after the
  claim, by the deferred store.
\<close>

definition Start ::
  "nat \<Rightarrow> 'w env \<Rightarrow> (factory \<Rightarrow> consumer_config \<Rightarrow> 'w \<Rightarrow> gerror option \<times> 'w) \<Rightarrow> 'w sconfig \<Rightarrow> subscriber \<Rightarrow> 'w
     \<Rightarrow> (gerror option \<times> subscriber \<times> 'w) option" where
  "Start fuel E newConsumer c s w =
     (if sstate s \<noteq> Created
      then Some (Some (Plain ''subscriber already started or stopped''), s, w)
      else
        (let s0 = slog_add Info None (s\<lparr>sstate := Started\<rparr>); st = the (ErrorStrategy c);
             (ierr, w1) = initialize_strategy c w
         in case ierr of
              Some err \<Rightarrow>
                Some (Some (Errorf [Txt ''failed to initialize error strategy: '', W err]),
                      s0\<lparr>sstate := Stopped\<rparr>, w1)
            | None \<Rightarrow>
                (case newConsumer (the (SNewConsumer c)) (sub_driverConfig c) w1 of
                   (Some err, w2) \<Rightarrow>
                     Some (Some (Errorf [Txt ''failed to create kafka consumer: '', W err]),
                           s0\<lparr>sstate := Stopped\<rparr>, close_strategy st w2)
                 | (None, w2) \<Rightarrow>
                     (let s1 = (if Mode c = ModeBatch
                                then s0\<lparr>sbuf := NewBuffer (BatchSize c) (BatchTimeout c)\<rparr> else s0)
                      in case run fuel E c (slog_add Info None s1) w2 of
                           None \<Rightarrow> None
                         | Some (err, s2, w3) \<Rightarrow>
                             Some (err, (slog_add Info None s2)\<lparr>sstate := Stopped\<rparr>, close_strategy st w3)))))"

end
