(* ===== verification/Subscriber_Safety.thy ===== *)
theory Subscriber_Safety
  imports Subscriber
begin

text \<open>
  The invariant of the poll loops: whenever an offset is stored, every message polled so far is
  accounted for. It succeeded, the error strategy resolved it, or it was dropped from the buffer
  when its partition was revoked. Each operation is described by what it appends to the trace; the
  locale \<open>poll_loop\<close> carries an invariant of a loop's body through the loop.
\<close>

section \<open>Reading the trace\<close>

fun polled_of :: "trace_event list \<Rightarrow> message list" where
  "polled_of [] = []"
| "polled_of (TPolled m # es) = m # polled_of es"
| "polled_of (_ # es) = polled_of es"

fun accounted_of :: "trace_event list \<Rightarrow> message list" where
  "accounted_of [] = []"
| "accounted_of (TDropped ms # es) = ms @ accounted_of es"
| "accounted_of (TSucceeded ms # es) = ms @ accounted_of es"
| "accounted_of (TResolved ms f # es) = ms @ accounted_of es"
| "accounted_of (_ # es) = accounted_of es"

definition balanced :: "trace_event list \<Rightarrow> bool" where
  "balanced tr \<longleftrightarrow> mset (polled_of tr) = mset (accounted_of tr)"

fun is_store :: "trace_event \<Rightarrow> bool" where
  "is_store (TStore _ _ _ _) = True"
| "is_store _ = False"

text \<open>Whenever an offset was stored, everything polled before was accounted for.\<close>

definition stores_safe :: "trace_event list \<Rightarrow> bool" where
  "stores_safe tr \<longleftrightarrow> (\<forall>pre e post. tr = pre @ e # post \<longrightarrow> is_store e \<longrightarrow> balanced pre)"

definition held :: "subscriber \<Rightarrow> message list" where
  "held s = (case sbuf s of None \<Rightarrow> [] | Some b \<Rightarrow> messages b)"

text \<open>
  The invariant of a loop: the stores so far were safe, and while the loop runs, what was polled
  is accounted for or in the buffer.
\<close>

definition loop_inv :: "subscriber \<Rightarrow> bool" where
  "loop_inv s \<longleftrightarrow>
     stores_safe (trace s)
     \<and> (sstate s = Started \<longrightarrow>
          mset (polled_of (trace s)) = mset (accounted_of (trace s)) + mset (held s))"

definition single_inv :: "subscriber \<Rightarrow> bool" where
  "single_inv s \<longleftrightarrow> loop_inv s \<and> sbuf s = None"

definition batch_inv :: "subscriber \<Rightarrow> bool" where
  "batch_inv s \<longleftrightarrow> loop_inv s \<and> sbuf s \<noteq> None"

section \<open>The loop\<close>

locale poll_loop =
  fixes body :: "subscriber \<Rightarrow> 'w \<Rightarrow> gerror option \<times> subscriber \<times> 'w"
    and inv :: "subscriber \<Rightarrow> 'w \<Rightarrow> bool"
  assumes keeps: "inv s w \<Longrightarrow> sstate s = Started \<Longrightarrow> body s w = (e, s', w') \<Longrightarrow> inv s' w'"
begin

lemma loop_keeps:
  "run_loop fuel body le s w = Some (e, s', w') \<Longrightarrow> inv s w \<Longrightarrow> inv s' w' \<and> sstate s' \<noteq> Started"
proof (induction fuel arbitrary: le s w)
  case 0
  then show ?case by (subst (asm) run_loop.simps) (auto split: if_splits)
next
  case (Suc n)
  obtain e1 s1 w1 where b: "body s w = (e1, s1, w1)" by (metis prod_cases3)
  show ?case
  proof (cases "sstate s = Started")
    case True
    with Suc.prems b have "run_loop n body (if e1 = None then le else e1) s1 w1 = Some (e, s', w')"
      by (subst (asm) run_loop.simps) simp
    with Suc.IH keeps [OF Suc.prems(2) True b] show ?thesis by blast
  next
    case False
    with Suc.prems show ?thesis by (subst (asm) run_loop.simps) auto
  qed
qed

text \<open>The loop ends when every turn that goes on brings the end nearer.\<close>

lemma loop_returns:
  assumes near: "\<And>s w e s' w'. inv s w \<Longrightarrow> sstate s = Started \<Longrightarrow> body s w = (e, s', w') \<Longrightarrow>
      sstate s' = Started \<Longrightarrow> left w' < left w"
  shows "inv s w \<Longrightarrow> left w < fuel \<Longrightarrow> \<exists>res. run_loop fuel body le s w = Some res"
proof (induction fuel arbitrary: le s w)
  case 0
  then show ?case by simp
next
  case (Suc n)
  obtain e1 s1 w1 where b: "body s w = (e1, s1, w1)" by (metis prod_cases3)
  show ?case
  proof (cases "sstate s = Started")
    case True
    from keeps [OF Suc.prems(1) True b] have i: "inv s1 w1" .
    show ?thesis
    proof (cases "sstate s1 = Started")
      case t1: True
      from near [OF Suc.prems(1) True b t1] Suc.prems(2) have "left w1 < n" by simp
      from Suc.IH [OF i this] True b show ?thesis by (subst run_loop.simps) simp
    next
      case False
      then have "run_loop n body x s1 w1 = Some (x, s1, w1)" for x by (subst run_loop.simps) simp
      with True b show ?thesis by (subst run_loop.simps) simp
    qed
  next
    case False
    then show ?thesis by (subst run_loop.simps) simp
  qed
qed

end

section \<open>Lemmas on traces\<close>

lemma polled_of_append [simp]: "polled_of (xs @ ys) = polled_of xs @ polled_of ys"
  by (induction xs rule: polled_of.induct) auto

lemma accounted_of_append [simp]: "accounted_of (xs @ ys) = accounted_of xs @ accounted_of ys"
  by (induction xs rule: accounted_of.induct) auto

lemma stores_safe_Nil [simp]: "stores_safe []"
  by (simp add: stores_safe_def)

lemma stores_safe_snoc: "stores_safe (tr @ [e]) \<longleftrightarrow> stores_safe tr \<and> (is_store e \<longrightarrow> balanced tr)"
proof
  assume L: "stores_safe (tr @ [e])"
  have "balanced pre" if "tr = pre @ x # post" "is_store x" for pre x post
    using L that unfolding stores_safe_def by (metis append_Cons append_assoc)
  with L show "stores_safe tr \<and> (is_store e \<longrightarrow> balanced tr)" by (auto simp: stores_safe_def)
next
  assume R: "stores_safe tr \<and> (is_store e \<longrightarrow> balanced tr)"
  have "balanced pre" if "tr @ [e] = pre @ x # post" "is_store x" for pre x post
  proof (cases post rule: rev_cases)
    case Nil
    with that R show ?thesis by simp
  next
    case (snoc post' y)
    with that have "tr = pre @ x # post'" by simp
    with R that(2) show ?thesis by (auto simp: stores_safe_def)
  qed
  then show "stores_safe (tr @ [e])" by (auto simp: stores_safe_def)
qed

text \<open>Events that are no stores keep a trace safe; stores do when it is balanced.\<close>

lemma stores_safe_quiet: "stores_safe tr \<Longrightarrow> \<forall>e\<in>set es. \<not> is_store e \<Longrightarrow> stores_safe (tr @ es)"
proof (induction es rule: rev_induct)
  case Nil
  then show ?case by simp
next
  case (snoc e es)
  then show ?case using stores_safe_snoc [of "tr @ es" e] by simp
qed

lemma store_events_quiet: "\<forall>e\<in>set es. is_store e \<Longrightarrow> polled_of es = [] \<and> accounted_of es = []"
proof (induction es)
  case Nil
  then show ?case by simp
next
  case (Cons e es)
  then show ?case by (cases e) auto
qed

lemma stores_safe_stores:
  "stores_safe tr \<Longrightarrow> balanced tr \<Longrightarrow> \<forall>e\<in>set es. is_store e \<Longrightarrow> stores_safe (tr @ es)"
proof (induction es rule: rev_induct)
  case Nil
  then show ?case by simp
next
  case (snoc e es)
  then have "polled_of es = []" "accounted_of es = []" using store_events_quiet [of es] by simp_all
  with snoc show ?case using stores_safe_snoc [of "tr @ es" e] by (simp add: balanced_def)
qed

section \<open>What each operation appends\<close>

lemma frame_sub [simp]:
  "trace (slog_add l c s) = trace s" "sstate (slog_add l c s) = sstate s" "sbuf (slog_add l c s) = sbuf s"
  "trace (ghost e s) = trace s @ [e]" "sstate (ghost e s) = sstate s" "sbuf (ghost e s) = sbuf s"
  by (simp_all add: slog_add_def ghost_def)

text \<open>Two states that differ in the log and the end of the trace only.\<close>

definition extends :: "subscriber \<Rightarrow> trace_event list \<Rightarrow> subscriber \<Rightarrow> bool" where
  "extends s es s' \<longleftrightarrow> trace s' = trace s @ es \<and> sstate s' = sstate s \<and> sbuf s' = sbuf s"

lemma extends_refl [simp]: "extends s [] s"
  by (simp add: extends_def)

lemma extends_trans: "extends s es s' \<Longrightarrow> extends s' fs s'' \<Longrightarrow> extends s (es @ fs) s''"
  by (simp add: extends_def)

lemma extends_Cons: "extends s [e] s' \<Longrightarrow> extends s' fs s'' \<Longrightarrow> extends s (e # fs) s''"
  by (simp add: extends_def)

lemma extends_slog [simp]: "extends s es (slog_add l c s') \<longleftrightarrow> extends s es s'"
  by (simp add: extends_def)

lemma extends_ghost: "extends s es s' \<Longrightarrow> extends s (es @ [e]) (ghost e s')"
  by (simp add: extends_def)

lemma dispatchMessage_extends:
  "dispatchMessage h msg s w = (f, s', w') \<Longrightarrow> extends s [] s'"
  by (auto simp: dispatchMessage_def split: prod.splits handler_outcome.splits)

lemma invokeBatchHandler_extends:
  "invokeBatchHandler h b s w = (f, b', s', w') \<Longrightarrow>
     extends s [] s' \<and> map item_msg (batch_items b') = map item_msg (batch_items b)"
  by (auto simp: invokeBatchHandler_def apply_fails_msgs split: prod.splits handler_outcome.splits)

lemma withReason_extends: "withReason f s = (f', s') \<Longrightarrow> Err f' \<noteq> None \<and> extends s [] s'"
  by (auto simp: withReason_def split: option.splits)

lemma hand_to_strategy_extends:
  assumes "hand_to_strategy st msgs f s w = (err, s', w')"
  shows "\<exists>f'. extends s (if err = None then [TResolved msgs f'] else []) s' \<and> Err f' \<noteq> None
    \<and> st_HandleError st msgs f' w = (err, w')"
proof -
  obtain f' s1 where f': "withReason f s = (f', s1)" by fastforce
  obtain e w1 where "st_HandleError st msgs f' w = (e, w1)" by fastforce
  with assms f' have "st_HandleError st msgs f' w = (err, w')"
    "s' = (if err = None then ghost (TResolved msgs f') s1 else s1)"
    by (auto simp: hand_to_strategy_def)
  with withReason_extends [OF f'] show ?thesis
    using extends_ghost [of s "[]" s1 "TResolved msgs f'"] by (intro exI [of _ f']) simp
qed

definition accounting :: "trace_event list \<Rightarrow> bool" where
  "accounting es \<longleftrightarrow> (\<forall>e\<in>set es. \<not> is_store e) \<and> polled_of es = []"

lemma accounting_simps [simp]:
  "accounting []" "accounting (TResolved ms f # es) \<longleftrightarrow> accounting es"
  "accounting (TSucceeded ms # es) \<longleftrightarrow> accounting es"
  "accounting (xs @ ys) \<longleftrightarrow> accounting xs \<and> accounting ys"
  by (auto simp: accounting_def)

lemma route_items_extends:
  assumes "route_items st items s w = (err, s', w')"
  shows "\<exists>es. extends s es s' \<and> accounting es \<and> (err = None \<longrightarrow> accounted_of es = map item_msg items)"
  using assms
proof (induction items arbitrary: s w)
  case Nil
  then show ?case by (auto intro!: exI [of _ "[]"])
next
  case (Cons item items)
  show ?case
  proof (cases "item_Failed item")
    case None
    with Cons.prems have "route_items st items (ghost (TSucceeded [item_msg item]) s) w = (err, s', w')"
      by (simp add: item_Message_def)
    from Cons.IH [OF this] obtain es where "extends (ghost (TSucceeded [item_msg item]) s) es s'"
      "accounting es" "err = None \<longrightarrow> accounted_of es = map item_msg items" by blast
    moreover have "extends s [TSucceeded [item_msg item]] (ghost (TSucceeded [item_msg item]) s)"
      using extends_ghost [OF extends_refl] by simp
    ultimately show ?thesis
      by (intro exI [of _ "TSucceeded [item_msg item] # es"]) (auto intro: extends_Cons)
  next
    case (Some f)
    obtain e1 s1 w1 where h: "hand_to_strategy st [item_msg item] f s w = (e1, s1, w1)" by (metis prod_cases3)
    obtain f' where x: "extends s (if e1 = None then [TResolved [item_msg item] f'] else []) s1"
      using hand_to_strategy_extends [OF h] by blast
    show ?thesis
    proof (cases e1)
      case None
      with Cons.prems Some h have "route_items st items s1 w1 = (err, s', w')" by (simp add: item_Message_def)
      from Cons.IH [OF this] obtain es where "extends s1 es s'" "accounting es"
        "err = None \<longrightarrow> accounted_of es = map item_msg items" by blast
      with x None show ?thesis
        by (intro exI [of _ "TResolved [item_msg item] f' # es"]) (auto intro: extends_Cons)
    next
      case (Some err1)
      with Cons.prems \<open>item_Failed item = Some f\<close> h have "s' = s1" "err = Some err1"
        by (simp_all add: item_Message_def)
      with x Some show ?thesis by (intro exI [of _ "[]"]) simp
    qed
  qed
qed

lemma routeBatchFailures_extends:
  assumes "routeBatchFailures st msgs polled whole s w = (err, s', w')"
    and "map item_msg (batch_items polled) = msgs"
  shows "\<exists>es. extends s es s' \<and> accounting es \<and> (err = None \<longrightarrow> accounted_of es = msgs)"
proof (cases whole)
  case None
  with assms route_items_extends [of st "Items polled" s w err s' w'] show ?thesis
    by (simp add: routeBatchFailures_def Items_def)
next
  case (Some f)
  with assms(1) have h: "hand_to_strategy st msgs f s w = (err, s', w')" by (simp add: routeBatchFailures_def)
  obtain f' where "extends s (if err = None then [TResolved msgs f'] else []) s'"
    using hand_to_strategy_extends [OF h] by blast
  then show ?thesis by (intro exI [of _ "if err = None then [TResolved msgs f'] else []"]) auto
qed

lemma store_offset_extends:
  "store_offset C t p off s w = (err, s', w') \<Longrightarrow> extends s [TStore t p off err] s'"
  by (auto simp: store_offset_def extends_def split: prod.splits)

fun store_target :: "trace_event \<Rightarrow> (string \<times> int) \<times> int" where
  "store_target (TStore t p off _) = ((t, p), off)"
| "store_target _ = (([], 0), 0)"

lemma store_each_extends:
  assumes "store_each C hi fe s w = (err, s', w')"
  shows "\<exists>es. extends s es s' \<and> (\<forall>e\<in>set es. is_store e) \<and> map store_target es = hi"
  using assms
proof (induction hi arbitrary: fe s w)
  case Nil
  then show ?case by (auto intro!: exI [of _ "[]"])
next
  case (Cons x rest)
  obtain t p off where x: "x = ((t, p), off)" by (metis prod_cases3 surj_pair)
  obtain e1 s1 w1 where st: "store_offset C t p off s w = (e1, s1, w1)" by (metis prod_cases3)
  obtain fe' s2 where "store_each C rest fe' s2 w1 = (err, s', w')" "extends s1 [] s2"
    using Cons.prems x st by (cases e1) (auto split: if_splits)
  with Cons.IH obtain es where es: "extends s2 es s'" "\<forall>e\<in>set es. is_store e" "map store_target es = rest"
    by blast
  have "extends s ([TStore t p off e1] @ [] @ es) s'"
    using store_offset_extends [OF st] \<open>extends s1 [] s2\<close> es(1) by (blast intro: extends_trans)
  with es x show ?case
    by (intro exI [of _ "TStore t p off e1 # es"]) simp
qed

lemma maybe_commit_extends: "maybe_commit C s w = (s', w') \<Longrightarrow> extends s [] s'"
  by (auto simp: maybe_commit_def split: prod.splits if_splits)

text \<open>
  A dispatched batch: when it succeeds or a store failed, every message was accounted for before
  the first store; when the strategy refused, nothing was stored.
\<close>

lemma dispatchBatch_extends:
  assumes "dispatchBatch E c msgs s w = (err, s', w')"
  shows "\<exists>es ss. extends s (es @ ss) s' \<and> accounting es \<and> (\<forall>e\<in>set ss. is_store e)
    \<and> (ss = [] \<and> err \<noteq> None
       \<or> accounted_of es = msgs \<and> map store_target ss = map_order E (highest_offsets msgs []))"
proof -
  obtain whole polled s1 w1 where
    i: "invokeBatchHandler (the (BatchHandler c)) (NewBatchFromBuffer msgs) s w = (whole, polled, s1, w1)"
    by (metis prod_cases4)
  from invokeBatchHandler_extends [OF i] have x1: "extends s [] s1" "map item_msg (batch_items polled) = msgs"
    by simp_all
  obtain rerr s2 w2 where
    r: "routeBatchFailures (the (ErrorStrategy c)) msgs polled whole s1 w1 = (rerr, s2, w2)"
    by (metis prod_cases3)
  obtain es where x2: "extends s1 es s2" "accounting es" "rerr = None \<longrightarrow> accounted_of es = msgs"
    using routeBatchFailures_extends [OF r x1(2)] by blast
  have s2: "extends s es s2" using extends_trans [OF x1(1) x2(1)] by simp
  show ?thesis
  proof (cases rerr)
    case (Some e)
    with assms i r s2 x2 show ?thesis
      by (intro exI [of _ es] exI [of _ "[]"]) (auto simp: dispatchBatch_def)
  next
    case None
    obtain fe s3 w3 where st: "storeHighestOffsetPerPartition E msgs s2 w2 = (fe, s3, w3)"
      by (metis prod_cases3)
    obtain ss where ss: "extends s2 ss s3" "\<forall>e\<in>set ss. is_store e"
      "map store_target ss = map_order E (highest_offsets msgs [])"
      using store_each_extends [OF st [unfolded storeHighestOffsetPerPartition_def]] by blast
    obtain s4 w4 where mc: "maybe_commit (cons E) s3 w3 = (s4, w4)" by fastforce
    have "extends s (es @ ss @ []) s4"
      using extends_trans [OF s2 extends_trans [OF ss(1) maybe_commit_extends [OF mc]]] .
    with assms i r None st mc have "extends s (es @ ss) s'"
      by (cases fe) (auto simp: dispatchBatch_def)
    with x2 None ss show ?thesis by (intro exI [of _ es] exI [of _ ss]) auto
  qed
qed


section \<open>The bodies keep the invariant\<close>

text \<open>Dropping the buffer moves what it holds to the accounted messages.\<close>

lemma revoke_hook_inv:
  "trace (revoke_hook s) = trace s @ (if sbuf s = None then [] else [TDropped (held s)])
   \<and> sstate (revoke_hook s) = sstate s \<and> (sbuf (revoke_hook s) = None) = (sbuf s = None)
   \<and> held (revoke_hook s) = []"
  by (cases "sbuf s") (auto simp: revoke_hook_def held_def Drop_def Let_def)

lemma loop_inv_hook: "loop_inv s \<Longrightarrow> loop_inv (revoke_hook s)"
proof -
  assume inv: "loop_inv s"
  have safe: "stores_safe (trace s @ (if sbuf s = None then [] else [TDropped (held s)]))"
    using inv by (auto simp: loop_inv_def intro: stores_safe_quiet)
  have "held s = []" if "sbuf s = None" using that by (simp add: held_def)
  with inv safe revoke_hook_inv [of s] show ?thesis by (auto simp: loop_inv_def)
qed

lemma revoke_hooks_inv:
  "loop_inv s \<Longrightarrow> loop_inv ((revoke_hook ^^ n) s) \<and> sstate ((revoke_hook ^^ n) s) = sstate s
     \<and> (sbuf ((revoke_hook ^^ n) s) = None) = (sbuf s = None)"
  by (induction n) (simp_all add: loop_inv_hook revoke_hook_inv)

text \<open>Polling: what was polled is accounted for, in the buffer, or the message just returned.\<close>

lemma poll_inv:
  assumes "loop_inv s" and "poll E c s w = (res, s', w')"
  shows "stores_safe (trace s') \<and> sstate s' = sstate s \<and> (sbuf s' = None) = (sbuf s = None)
    \<and> (sstate s = Started \<longrightarrow> mset (polled_of (trace s')) = mset (accounted_of (trace s')) + mset (held s')
         + (case res of Inr (Some m) \<Rightarrow> {#m#} | _ \<Rightarrow> {#}))"
proof -
  obtain n r w1 where p: "co_Poll (cons E) (pollTimeoutMs c) w = ((n, r), w1)" by (metis surj_pair)
  define t where "t = (revoke_hook ^^ n) s"
  from revoke_hooks_inv [OF assms(1), of n] have t: "loop_inv t" "sstate t = sstate s"
    "(sbuf t = None) = (sbuf s = None)" by (simp_all add: t_def)
  from p assms(2) have eq: "res = r" "s' = (case r of Inr (Some m) \<Rightarrow> ghost (TPolled m) t | _ \<Rightarrow> t)"
    unfolding t_def by (auto simp: poll_def Let_def)
  show ?thesis
  proof (cases "\<exists>m. r = Inr (Some m)")
    case True
    then obtain m where m: "r = Inr (Some m)" by blast
    with eq have s': "s' = ghost (TPolled m) t" by simp
    have "stores_safe (trace t @ [TPolled m])" using t(1) by (simp add: loop_inv_def stores_safe_snoc)
    with t m eq s' show ?thesis by (auto simp: loop_inv_def held_def)
  next
    case False
    then have "s' = t" "(case res of Inr (Some m) \<Rightarrow> {#m#} | _ \<Rightarrow> {#}) = {#}"
      using eq by (auto split: sum.splits option.splits)
    with t show ?thesis by (simp add: loop_inv_def)
  qed
qed

lemma finish_message_inv:
  assumes "stores_safe (trace s)" and "balanced (trace s)" and "sbuf s = None"
    and "finish_message E msg s w = (err, s', w')"
  shows "single_inv s'"
proof -
  obtain e1 s1 w1 where st: "store_offset (cons E) (Topic msg) (Partition msg) (Offset msg) s w = (e1, s1, w1)"
    by (metis prod_cases3)
  note x = store_offset_extends [OF st]
  have "stores_safe (trace s1)" "balanced (trace s1)" "sbuf s1 = None"
    using x assms(1-3) stores_safe_stores [OF assms(1,2), of "[TStore (Topic msg) (Partition msg) (Offset msg) e1]"]
    by (auto simp: extends_def balanced_def)
  then have "single_inv (s1\<lparr>sstate := st\<rparr>)" "single_inv (slog_add l k s1)"
    "single_inv ((slog_add l k s1)\<lparr>sstate := st\<rparr>)" "single_inv s1" for l k st
    by (simp_all add: single_inv_def loop_inv_def balanced_def held_def)
  moreover from st assms(4) have "(\<exists>l k. s' = slog_add l k s1) \<or> s' = s1 \<or> (\<exists>l k. s' = (slog_add l k s1)\<lparr>sstate := Stopping\<rparr>)"
    by (cases e1) (auto simp: finish_message_def stop_with_def maybe_commit_def split: if_splits prod.splits)
  ultimately show ?thesis by auto
qed

lemma single_inv_stop: "stores_safe (trace s) \<Longrightarrow> sbuf s = None \<Longrightarrow> single_inv (s\<lparr>sstate := Stopping\<rparr>)"
  by (simp add: single_inv_def loop_inv_def)

text \<open>The ways a single-message turn can go.\<close>

lemma single_body_cases:
  assumes "single_body E c s w = (e, s', w')"
  obtains (finished) "ctx_Done E w" "s' = s\<lparr>sstate := Stopping\<rparr>" "w' = w"
  | (failed) x s1 w1 where "\<not> ctx_Done E w" "poll E c s w = (Inl x, s1, w1)"
      "s' = (slog_add Error (Some PollFatal) s1)\<lparr>sstate := Stopping\<rparr>" "w' = w1"
  | (idle) "\<not> ctx_Done E w" "poll E c s w = (Inr None, s', w')"
  | (succeeded) msg s1 w1 s2 w2 where "\<not> ctx_Done E w" "poll E c s w = (Inr (Some msg), s1, w1)"
      "dispatchMessage (the (Handler c)) msg s1 w1 = (None, s2, w2)"
      "finish_message E msg (ghost (TSucceeded [msg]) s2) w2 = (e, s', w')"
  | (handled) msg s1 w1 f s2 w2 s3 w3 where "\<not> ctx_Done E w" "poll E c s w = (Inr (Some msg), s1, w1)"
      "dispatchMessage (the (Handler c)) msg s1 w1 = (Some f, s2, w2)"
      "hand_to_strategy (the (ErrorStrategy c)) [msg] f s2 w2 = (None, s3, w3)"
      "finish_message E msg s3 w3 = (e, s', w')"
  | (stopped) msg s1 w1 f s2 w2 x s3 where "\<not> ctx_Done E w" "poll E c s w = (Inr (Some msg), s1, w1)"
      "dispatchMessage (the (Handler c)) msg s1 w1 = (Some f, s2, w2)"
      "hand_to_strategy (the (ErrorStrategy c)) [msg] f s2 w2 = (Some x, s3, w')"
      "s' = (slog_add Error (Some StoppedByStrategy) s3)\<lparr>sstate := Stopping\<rparr>"
  using assms that
  by (auto simp: single_body_def stop_with_def split: if_splits prod.splits sum.splits option.splits)

lemma single_body_inv:
  assumes inv: "single_inv s" and run: "sstate s = Started" and b: "single_body E c s w = (err, s', w')"
  shows "single_inv s'"
proof -
  have P: "stores_safe (trace s1)" "sstate s1 = Started" "sbuf s1 = None"
    "mset (polled_of (trace s1)) = mset (accounted_of (trace s1)) + (case res of Inr (Some m) \<Rightarrow> {#m#} | _ \<Rightarrow> {#})"
    if p: "poll E c s w = (res, s1, w1)" for res s1 w1
    using poll_inv [OF _ p] inv run by (auto simp: single_inv_def held_def)
  from b show ?thesis
  proof (cases rule: single_body_cases)
    case finished
    with inv show ?thesis by (simp add: single_inv_def loop_inv_def)
  next
    case (failed x s1 w1)
    with P [OF failed(2)] show ?thesis by (simp add: single_inv_stop)
  next
    case idle
    with P [OF idle(2)] show ?thesis by (simp add: single_inv_def loop_inv_def held_def)
  next
    case (succeeded msg s1 w1 s2 w2)
    have "stores_safe (trace (ghost (TSucceeded [msg]) s2))" "balanced (trace (ghost (TSucceeded [msg]) s2))"
      "sbuf (ghost (TSucceeded [msg]) s2) = None"
      using P [OF succeeded(2)] dispatchMessage_extends [OF succeeded(3)]
      by (auto simp: extends_def balanced_def stores_safe_snoc)
    then show ?thesis using succeeded(4) by (rule finish_message_inv)
  next
    case (handled msg s1 w1 f s2 w2 s3 w3)
    obtain f' where "extends s2 [TResolved [msg] f'] s3" using hand_to_strategy_extends [OF handled(4)] by auto
    then have "stores_safe (trace s3)" "balanced (trace s3)" "sbuf s3 = None"
      using P [OF handled(2)] dispatchMessage_extends [OF handled(3)]
      by (auto simp: extends_def balanced_def stores_safe_snoc)
    then show ?thesis using handled(5) by (rule finish_message_inv)
  next
    case (stopped msg s1 w1 f s2 w2 x s3)
    have "extends s2 [] s3" using hand_to_strategy_extends [OF stopped(4)] by auto
    then have "stores_safe (trace s3)" "sbuf s3 = None"
      using P [OF stopped(2)] dispatchMessage_extends [OF stopped(3)] by (auto simp: extends_def)
    then show ?thesis using stopped(5) by (simp add: single_inv_stop)
  qed
qed

interpretation single: poll_loop "single_body E c" "\<lambda>s w. single_inv s" for E c
  by unfold_locales (rule single_body_inv)


lemma add_polled_messages:
  "add_polled E msg b w = (b', w') \<Longrightarrow>
     messages b' = messages b @ (case msg of None \<Rightarrow> [] | Some m \<Rightarrow> [m]) \<and> batchSize b' = batchSize b"
  by (auto simp: add_polled_def split: option.splits prod.splits)

lemma batch_inv_stop: "stores_safe (trace s) \<Longrightarrow> sbuf s \<noteq> None \<Longrightarrow> batch_inv (s\<lparr>sstate := Stopping\<rparr>)"
  by (simp add: batch_inv_def loop_inv_def)

text \<open>Dispatching what was in the buffer, once the buffer is empty.\<close>

lemma dispatchBatch_inv:
  assumes d: "dispatchBatch E c msgs s w = (err, s', w')"
    and safe: "stores_safe (trace s)" and b: "sbuf s = Some b" "messages b = []"
    and acc: "mset (polled_of (trace s)) = mset (accounted_of (trace s)) + mset msgs"
  shows "stores_safe (trace s') \<and> sbuf s' = Some b \<and> sstate s' = sstate s \<and> (err = None \<longrightarrow> balanced (trace s'))"
proof -
  obtain es ss where x: "extends s (es @ ss) s'" "accounting es" "\<forall>e\<in>set ss. is_store e"
    and dis: "ss = [] \<and> err \<noteq> None \<or> accounted_of es = msgs"
    using dispatchBatch_extends [OF d] by blast
  have sf: "stores_safe (trace s @ es)" using safe x(2) by (auto simp: accounting_def intro: stores_safe_quiet)
  have "stores_safe (trace s @ es @ ss) \<and> (err = None \<longrightarrow> balanced (trace s @ es @ ss))"
  proof (cases "ss = [] \<and> err \<noteq> None")
    case True
    with sf show ?thesis by auto
  next
    case False
    with dis have "accounted_of es = msgs" by blast
    with acc x(2) have bal: "balanced (trace s @ es)" by (simp add: balanced_def accounting_def)
    from stores_safe_stores [OF sf bal x(3)] bal store_events_quiet [OF x(3)] show ?thesis
      by (simp add: balanced_def)
  qed
  with x(1) b show ?thesis by (simp add: extends_def)
qed

text \<open>The ways a batch turn can go. A batch that is due but empty is left as it is.\<close>

lemma batch_body_cases:
  assumes "batch_body E c s w = (e, s', w')"
  obtains (finished) "ctx_Done E w" "s' = s\<lparr>sstate := Stopping\<rparr>" "w' = w" "e = None"
  | (failed) x s1 where "\<not> ctx_Done E w" "poll E c s w = (Inl x, s1, w')"
      "s' = (slog_add Error (Some PollFatal) s1)\<lparr>sstate := Stopping\<rparr>"
      "e = Some (Errorf [Txt ''polling error: '', W x])"
  | (waiting) msg s1 w1 b1 w2 due where "\<not> ctx_Done E w" "poll E c s w = (Inr msg, s1, w1)"
      "add_polled E msg (the (sbuf s1)) w1 = (b1, w2)" "batch_due E b1 w2 = (due, w')"
      "due \<Longrightarrow> Flush b1 = (None, b1)" "s' = s1\<lparr>sbuf := Some b1\<rparr>" "e = None"
  | (sent) msg s1 w1 b1 w2 w3 msgs b2 e4 s4 where "\<not> ctx_Done E w" "poll E c s w = (Inr msg, s1, w1)"
      "add_polled E msg (the (sbuf s1)) w1 = (b1, w2)" "batch_due E b1 w2 = (True, w3)"
      "Flush b1 = (Some msgs, b2)" "dispatchBatch E c msgs (s1\<lparr>sbuf := Some b2\<rparr>) w3 = (e4, s4, w')"
      "s' = (if e4 = None then s4 else s4\<lparr>sstate := Stopping\<rparr>)" "e = e4"
proof (cases "ctx_Done E w")
  case True
  with assms show thesis by (intro finished) (auto simp: batch_body_def)
next
  case nd: False
  obtain r s1 w1 where p: "poll E c s w = (r, s1, w1)" by (metis prod_cases3)
  show thesis
  proof (cases r)
    case (Inl x)
    with assms nd p show thesis by (intro failed) (auto simp: batch_body_def stop_with_def)
  next
    case (Inr msg)
    obtain b1 w2 where a: "add_polled E msg (the (sbuf s1)) w1 = (b1, w2)" by fastforce
    obtain due w3 where due: "batch_due E b1 w2 = (due, w3)" by fastforce
    obtain fl b2 where f: "Flush b1 = (fl, b2)" by fastforce
    show thesis
    proof (cases "due \<and> fl \<noteq> None")
      case True
      then obtain msgs where msgs: "due" "fl = Some msgs" by blast
      obtain e4 s4 w4 where d: "dispatchBatch E c msgs (s1\<lparr>sbuf := Some b2\<rparr>) w3 = (e4, s4, w4)"
        by (metis prod_cases3)
      with assms nd p Inr a due f msgs show thesis
        by (intro sent [of msg s1 w1 b1 w2 w3 msgs b2 e4 s4]) (auto simp: batch_body_def stop_with_def split: option.splits)
    next
      case False
      have "b2 = b1" if "fl = None" using f that by (auto simp: Flush_None)
      with assms nd p Inr a due f False show thesis
        by (intro waiting [of msg s1 w1 b1 w2 due]) (auto simp: batch_body_def split: if_splits)
    qed
  qed
qed

lemma batch_body_inv:
  assumes inv: "batch_inv s" and run: "sstate s = Started" and b: "batch_body E c s w = (err, s', w')"
  shows "batch_inv s'"
proof -
  have P: "stores_safe (trace s1)" "sstate s1 = Started" "sbuf s1 \<noteq> None"
    "mset (polled_of (trace s1)) = mset (accounted_of (trace s1)) + mset (held s1)
       + (case res of Inr (Some m) \<Rightarrow> {#m#} | _ \<Rightarrow> {#})"
    if p: "poll E c s w = (res, s1, w1)" for res s1 w1
    using poll_inv [OF _ p] inv run by (auto simp: batch_inv_def)
  have held: "mset (polled_of (trace s1)) = mset (accounted_of (trace s1)) + mset (messages b1)"
    if p: "poll E c s w = (Inr msg, s1, w1)" and a: "add_polled E msg (the (sbuf s1)) w1 = (b1, w2)"
    for msg s1 w1 b1 w2
    using P [OF p] add_polled_messages [OF a] by (cases msg) (auto simp: held_def)
  from b show ?thesis
  proof (cases rule: batch_body_cases)
    case finished
    with inv show ?thesis by (auto simp: batch_inv_def loop_inv_def)
  next
    case (failed x s1)
    with P [OF failed(2)] show ?thesis by (simp add: batch_inv_stop)
  next
    case (waiting msg s1 w1 b1 w2 due)
    with P [OF waiting(2)] held [OF waiting(2,3)] show ?thesis
      by (simp add: batch_inv_def loop_inv_def held_def)
  next
    case (sent msg s1 w1 b1 w2 w3 msgs b2 e4 s4)
    have m: "messages b1 = msgs" "messages b2 = []" using sent(5) by (auto simp: Flush_Some)
    have "stores_safe (trace s4) \<and> sbuf s4 = Some b2 \<and> sstate s4 = Started \<and> (e4 = None \<longrightarrow> balanced (trace s4))"
      using dispatchBatch_inv [OF sent(6), of b2] P [OF sent(2)] held [OF sent(2,3)] m by auto
    with sent(7) m(2) show ?thesis by (auto simp: batch_inv_def loop_inv_def held_def balanced_def)
  qed
qed

interpretation batch: poll_loop "batch_body E c" "\<lambda>s w. batch_inv s" for E c
  by unfold_locales (rule batch_body_inv)

end
