(* ===== verification/Subscriber_Turn.thy ===== *)
theory Subscriber_Turn
  imports Subscriber_Safety
begin

text \<open>
  One turn of a poll loop, for any relation between the states before and after. The locale
  \<open>turn_relation\<close> asks of a reflexive and transitive relation that the calls a turn makes (the
  consumer, the clock, the handlers and the strategy) are in it, and that the log and events that
  resolve nothing do not matter to it. Then the rest of a turn after its poll is in it. What is
  left to poll and what a strategy has resolved are two such relations.
\<close>

section \<open>The relation\<close>

fun resolves :: "trace_event \<Rightarrow> bool" where
  "resolves (TResolved _ _) = True"
| "resolves _ = False"

text \<open>A poll changes the world by the consumer's \<open>Poll\<close> and resolves nothing.\<close>

lemma revoke_hooks_quiet:
  "\<exists>es. trace ((revoke_hook ^^ n) s) = trace s @ es \<and> (\<forall>e\<in>set es. \<not> resolves e)"
proof (induction n)
  case 0
  show ?case by (intro exI [of _ "[]"]) simp
next
  case (Suc n)
  then obtain es where "trace ((revoke_hook ^^ n) s) = trace s @ es" "\<forall>e\<in>set es. \<not> resolves e" by blast
  with revoke_hook_inv [of "(revoke_hook ^^ n) s"] show ?case
    by (intro exI [of _ "es @ (if sbuf ((revoke_hook ^^ n) s) = None then []
          else [TDropped (held ((revoke_hook ^^ n) s))])"]) auto
qed

lemma poll_quiet:
  assumes "poll E c s w = (r, s', w')"
  shows "w' = snd (co_Poll (cons E) (pollTimeoutMs c) w)"
    and "\<exists>es. trace s' = trace s @ es \<and> (\<forall>e\<in>set es. \<not> resolves e)"
proof -
  obtain n q w1 where p: "co_Poll (cons E) (pollTimeoutMs c) w = ((n, q), w1)" by (metis surj_pair)
  define t where "t = (revoke_hook ^^ n) s"
  have s': "w' = w1" "s' = (case q of Inr (Some m) \<Rightarrow> ghost (TPolled m) t | _ \<Rightarrow> t)"
    using assms p unfolding t_def by (auto simp: poll_def Let_def)
  with p show "w' = snd (co_Poll (cons E) (pollTimeoutMs c) w)" by simp
  obtain es where es: "trace t = trace s @ es" "\<forall>e\<in>set es. \<not> resolves e"
    using revoke_hooks_quiet [of n s] unfolding t_def by blast
  show "\<exists>es. trace s' = trace s @ es \<and> (\<forall>e\<in>set es. \<not> resolves e)"
  proof (cases "\<exists>m. q = Inr (Some m)")
    case True
    with s'(2) es show ?thesis by (intro exI [of _ "es @ [TPolled (the (projr q))]"]) auto
  next
    case False
    with s'(2) have "s' = t" by (auto split: sum.splits option.splits)
    with es show ?thesis by blast
  qed
qed

locale turn_relation =
  fixes E :: "'w env" and c :: "'w sconfig"
    and R :: "subscriber \<Rightarrow> 'w \<Rightarrow> subscriber \<Rightarrow> 'w \<Rightarrow> bool"
  assumes quiet: "trace s' = trace s @ es \<Longrightarrow> \<forall>e\<in>set es. \<not> resolves e \<Longrightarrow> R s w s' w"
    and trans: "R s w s' w' \<Longrightarrow> R s' w' s'' w'' \<Longrightarrow> R s w s'' w''"
    and store: "R s w s (snd (co_StoreOffset (cons E) t p off w))"
    and commit: "R s w s (snd (co_MaybeCommitStored (cons E) w))"
    and clock: "R s w s (snd (clock_Now E w))"
    and handler: "Handler c = Some h \<Longrightarrow> R s w s (snd (h m pl w))"
    and batch_handler: "BatchHandler c = Some bh \<Longrightarrow> R s w s (snd (bh b w))"
    and strategy: "hand_to_strategy (the (ErrorStrategy c)) ms f s w = (e, s', w') \<Longrightarrow> R s w s' w'"
begin

lemma same_trace: "trace s' = trace s \<Longrightarrow> R s w s' w"
  by (rule quiet [of s' s "[]"]) simp_all

lemma ghosted: "\<not> resolves e \<Longrightarrow> R s w (ghost e s) w"
  by (rule quiet [of _ _ "[e]"]) simp_all

lemma store_offset_rel:
  assumes "store_offset (cons E) t p off s w = (e, s', w')"
  shows "R s w s' w'"
proof -
  have "w' = snd (co_StoreOffset (cons E) t p off w)" "s' = ghost (TStore t p off e) s"
    using assms by (auto simp: store_offset_def split: prod.splits)
  with trans [OF store ghosted] show ?thesis by simp
qed

lemma store_each_rel: "store_each (cons E) hi fe s w = (e, s', w') \<Longrightarrow> R s w s' w'"
proof (induction hi arbitrary: fe s w)
  case Nil
  then show ?case by (simp add: same_trace)
next
  case (Cons x rest)
  obtain t p off where x: "x = ((t, p), off)" by (metis prod_cases3 surj_pair)
  obtain e1 s1 w1 where st: "store_offset (cons E) t p off s w = (e1, s1, w1)" by (metis prod_cases3)
  obtain fe' s2 where r: "store_each (cons E) rest fe' s2 w1 = (e, s', w')" "trace s2 = trace s1"
    using Cons.prems x st by (cases e1) (auto split: if_splits)
  from trans [OF store_offset_rel [OF st] trans [OF same_trace [OF r(2)] Cons.IH [OF r(1)]]] show ?case .
qed

lemma maybe_commit_rel:
  assumes "maybe_commit (cons E) s w = (s', w')"
  shows "R s w s' w'"
proof -
  have "w' = snd (co_MaybeCommitStored (cons E) w)" "trace s' = trace s"
    using assms by (auto simp: maybe_commit_def split: prod.splits if_splits)
  with trans [OF commit same_trace] show ?thesis by simp
qed

lemma dispatchMessage_rel:
  assumes "Handler c = Some h" and "dispatchMessage h msg s w = (f, s', w')"
  shows "R s w s' w'"
proof -
  have "w' = snd (h msg (Payload msg) w)" "trace s' = trace s"
    using assms(2) by (auto simp: dispatchMessage_def split: prod.splits handler_outcome.splits)
  with trans [OF handler [OF assms(1)] same_trace] show ?thesis by simp
qed

lemma invokeBatchHandler_rel:
  assumes "BatchHandler c = Some h" and "invokeBatchHandler h b s w = (f, b', s', w')"
  shows "R s w s' w'"
proof -
  have "w' = snd (h b w)" "trace s' = trace s"
    using assms(2) by (auto simp: invokeBatchHandler_def split: prod.splits handler_outcome.splits)
  with trans [OF batch_handler [OF assms(1)] same_trace] show ?thesis by simp
qed

lemma route_items_rel:
  "route_items (the (ErrorStrategy c)) items s w = (e, s', w') \<Longrightarrow> R s w s' w'"
proof (induction items arbitrary: s w)
  case Nil
  then show ?case by (simp add: same_trace)
next
  case (Cons item items)
  show ?case
  proof (cases "item_Failed item")
    case None
    with Cons.prems Cons.IH have "R (ghost (TSucceeded [item_Message item]) s) w s' w'" by simp
    from trans [OF ghosted this] show ?thesis by simp
  next
    case (Some f)
    obtain e1 s1 w1 where
      h: "hand_to_strategy (the (ErrorStrategy c)) [item_Message item] f s w = (e1, s1, w1)"
      by (metis prod_cases3)
    with Cons.prems Some consider "s' = s1" "w' = w1"
      | "route_items (the (ErrorStrategy c)) items s1 w1 = (e, s', w')" by (cases e1) auto
    then show ?thesis using strategy [OF h] trans [OF strategy [OF h] Cons.IH] by cases simp_all
  qed
qed

lemma routeBatchFailures_rel:
  "routeBatchFailures (the (ErrorStrategy c)) msgs polled whole s w = (e, s', w') \<Longrightarrow> R s w s' w'"
  by (auto simp: routeBatchFailures_def split: option.splits intro: strategy route_items_rel)

lemma finish_message_rel:
  assumes "finish_message E msg s w = (e, s', w')"
  shows "R s w s' w'"
proof -
  obtain e1 s1 w1 where st: "store_offset (cons E) (Topic msg) (Partition msg) (Offset msg) s w = (e1, s1, w1)"
    by (metis prod_cases3)
  obtain s2 w2 where mc: "maybe_commit (cons E) s1 w1 = (s2, w2)" by fastforce
  from st mc assms have "w' = w1 \<and> trace s' = trace s1 \<or> w' = w2 \<and> s' = s2"
    by (cases e1) (auto simp: finish_message_def stop_with_def split: if_splits)
  with store_offset_rel [OF st] maybe_commit_rel [OF mc] show ?thesis
    using trans same_trace by metis
qed

lemma dispatchBatch_rel:
  assumes h: "BatchHandler c = Some h" and d: "dispatchBatch E c msgs s w = (e, s', w')"
  shows "R s w s' w'"
proof -
  obtain whole polled s1 w1 where i: "invokeBatchHandler h (NewBatchFromBuffer msgs) s w = (whole, polled, s1, w1)"
    by (metis prod_cases4)
  obtain e2 s2 w2 where r: "routeBatchFailures (the (ErrorStrategy c)) msgs polled whole s1 w1 = (e2, s2, w2)"
    by (metis prod_cases3)
  obtain e3 s3 w3 where o: "storeHighestOffsetPerPartition E msgs s2 w2 = (e3, s3, w3)" by (metis prod_cases3)
  obtain s4 w4 where mc: "maybe_commit (cons E) s3 w3 = (s4, w4)" by fastforce
  have l2: "R s w s2 w2" using trans [OF invokeBatchHandler_rel [OF h i] routeBatchFailures_rel [OF r]] .
  have "R s2 w2 s4 w4"
    using trans [OF store_each_rel [OF o [unfolded storeHighestOffsetPerPartition_def]] maybe_commit_rel [OF mc]] .
  with l2 have l4: "R s w s4 w4" by (rule trans)
  have "w' = w2 \<and> trace s' = trace s2 \<or> w' = w4 \<and> trace s' = trace s4"
    using d i r o mc h by (auto simp: dispatchBatch_def split: option.splits)
  with l2 l4 show ?thesis using trans same_trace by metis
qed

lemma single_body_rel:
  assumes nd: "\<not> ctx_Done E w" and p: "poll E c s w = (r, s1, w1)"
    and b: "single_body E c s w = (e, s', w')" and h: "Handler c = Some h"
  shows "R s1 w1 s' w'"
  using b
proof (cases rule: single_body_cases)
  case finished
  with nd show ?thesis by simp
next
  case (succeeded msg t1 v1 t2 v2)
  with p h have "dispatchMessage h msg s1 w1 = (None, t2, v2)" by simp
  from trans [OF dispatchMessage_rel [OF h this] trans [OF ghosted finish_message_rel [OF succeeded(4)]]]
  show ?thesis by simp
next
  case (handled msg t1 v1 f t2 v2 t3 v3)
  with p h have "dispatchMessage h msg s1 w1 = (Some f, t2, v2)" by simp
  from trans [OF dispatchMessage_rel [OF h this] trans [OF strategy [OF handled(4)] finish_message_rel [OF handled(5)]]]
  show ?thesis .
next
  case (stopped msg t1 v1 f t2 v2 x t3)
  with p h have "dispatchMessage h msg s1 w1 = (Some f, t2, v2)" by simp
  from trans [OF dispatchMessage_rel [OF h this] trans [OF strategy [OF stopped(4)] same_trace]] stopped(5)
  show ?thesis by simp
qed (use p in \<open>simp_all add: same_trace\<close>)

lemma batch_body_rel:
  assumes nd: "\<not> ctx_Done E w" and p: "poll E c s w = (r, s1, w1)"
    and b: "batch_body E c s w = (e, s', w')" and h: "BatchHandler c = Some h"
  shows "R s1 w1 s' w'"
proof -
  have clocks: "R s1 w1 s1 w3" if "add_polled E msg b0 w1 = (b1, w2)" and "batch_due E b1 w2 = (due, w3)"
    for msg b0 b1 w2 due w3
  proof -
    have "w2 = w1 \<or> w2 = snd (clock_Now E w1)"
      using that(1) by (auto simp: add_polled_def split: option.splits prod.splits)
    moreover have "w3 = w2 \<or> w3 = snd (clock_Now E w2)"
      using that(2) by (auto simp: batch_due_def split: if_splits prod.splits)
    ultimately show ?thesis using clock trans same_trace by metis
  qed
  from b show ?thesis
  proof (cases rule: batch_body_cases)
    case (waiting msg t1 v1 b1 w2 due)
    with p have "R s1 w1 s1 w'" using clocks by auto
    from trans [OF this same_trace] waiting(2,6) p show ?thesis by simp
  next
    case (sent msg t1 v1 b1 w2 w3 msgs b2 e4 s4)
    with p have "R s1 w1 s1 w3" and d: "dispatchBatch E c msgs (s1\<lparr>sbuf := Some b2\<rparr>) w3 = (e4, s4, w')"
      using clocks by auto
    moreover have "R s1 w3 (s1\<lparr>sbuf := Some b2\<rparr>) w3" and "R s4 w' s' w'" using sent(7) by (simp_all add: same_trace)
    ultimately show ?thesis using trans dispatchBatch_rel [OF h d] by blast
  qed (use nd p in \<open>simp_all add: same_trace\<close>)
qed

end

end
