(* ===== verification/Subscriber_Properties.thy ===== *)
theory Subscriber_Properties
  imports Subscriber_Turn
begin

text \<open>
  What the subscriber promises: no offset is stored over unresolved work, the highest offset per
  partition is stored, a panic is a failure, batches keep their size, and \<open>Start\<close> returns.
\<close>

section \<open>Definitions of the statements\<close>

text \<open>
  A world in which the end comes nearer: \<open>left\<close> bounds the polls before the context is done, and
  nothing else makes it grow.
\<close>

definition env_advances :: "'w env \<Rightarrow> 'w sconfig \<Rightarrow> ('w \<Rightarrow> nat) \<Rightarrow> bool" where
  "env_advances E c left \<longleftrightarrow>
     (\<forall>t w. \<not> ctx_Done E w \<longrightarrow> left (snd (co_Poll (cons E) t w)) < left w)
     \<and> (\<forall>t p off w. left (snd (co_StoreOffset (cons E) t p off w)) \<le> left w)
     \<and> (\<forall>w. left (snd (co_MaybeCommitStored (cons E) w)) \<le> left w)
     \<and> (\<forall>w. left (snd (clock_Now E w)) \<le> left w)
     \<and> (\<forall>h m p w. Handler c = Some h \<longrightarrow> left (snd (h m p w)) \<le> left w)
     \<and> (\<forall>h b w. BatchHandler c = Some h \<longrightarrow> left (snd (h b w)) \<le> left w)
     \<and> (\<forall>st ms f w. ErrorStrategy c = Some st \<longrightarrow> left (snd (st_HandleError st ms f w)) \<le> left w)"

text \<open>A configuration \<open>New\<close> returned.\<close>

definition sconfig_ready :: "'w sconfig \<Rightarrow> bool" where
  "sconfig_ready c \<longleftrightarrow>
     ErrorStrategy c \<noteq> None
     \<and> (if Mode c = ModeBatch then BatchHandler c \<noteq> None \<and> 0 < BatchSize c \<and> 0 < BatchTimeout c
        else Handler c \<noteq> None)"

section \<open>Lemmas\<close>

subsection \<open>Configurations\<close>

lemma sub_New_ready:
  assumes "sub_New skip (map sub_option_of opts) = Inr c"
  shows "sconfig_ready c \<and> sconfig_inv c \<and> 10 * Millisecond \<le> PollTimeout c \<and> SKafkaConfig c \<noteq> None
    \<and> STopic c \<noteq> [] \<and> SBrokers c \<noteq> [] \<and> ConsumerGroup c \<noteq> [] \<and> SNewConsumer c \<noteq> None"
proof -
  from assms obtain d where d: "apply_sub_options (map sub_option_of opts) zero_config = Inr d"
    "Validate d = None" "c = ApplyDefaults skip d"
    by (auto simp: sub_New_def split: sum.splits option.splits)
  have inv: "sconfig_inv d" using apply_sub_options_inv [OF sconfig_inv_zero d(1)] .
  have V: "STopic d \<noteq> []" "SBrokers d \<noteq> []" "ConsumerGroup d \<noteq> []"
    "Handler d \<noteq> None \<or> BatchHandler d \<noteq> None"
    "Mode d = ModeBatch \<Longrightarrow> 0 < BatchSize d \<and> 0 < BatchTimeout d"
    using d(2) by (auto simp: Validate_def split: if_splits)
  have c: "STopic c = STopic d" "SBrokers c = SBrokers d" "ConsumerGroup c = ConsumerGroup d"
    "Handler c = Handler d" "BatchHandler c = BatchHandler d" "Mode c = Mode d"
    "BatchSize c = BatchSize d" "BatchTimeout c = BatchTimeout d" "AutoCommitEvery c = AutoCommitEvery d"
    "PollTimeout c = (if PollTimeout d = 0 then 100 * Millisecond else PollTimeout d)"
    "ErrorStrategy c \<noteq> None" "SNewConsumer c \<noteq> None" "SKafkaConfig c = Some (case SKafkaConfig d of None \<Rightarrow> [] | Some m \<Rightarrow> m)"
    by (auto simp: d(3) ApplyDefaults_def Let_def)
  have "Mode d = ModeBatch \<longrightarrow> BatchHandler d \<noteq> None" "Mode d \<noteq> ModeBatch \<longrightarrow> Handler d \<noteq> None"
    using inv V(4) by (cases "Mode d"; auto simp: sconfig_inv_def)+
  with V c have ready: "sconfig_ready c" by (auto simp: sconfig_ready_def)
  have poll: "10 * Millisecond \<le> PollTimeout c" using inv c(10) by (auto simp: sconfig_inv_def Millisecond_def)
  have "sconfig_inv c" using inv c poll unfolding sconfig_inv_def by (auto split: option.splits)
  with ready poll V c show ?thesis by simp
qed

subsection \<open>Highest offsets\<close>

lemma wf_highest_offsets: "wf_map hi \<Longrightarrow> wf_map (highest_offsets msgs hi)"
  by (induction msgs hi rule: highest_offsets.induct) (auto simp: Let_def split: option.split)

definition higher :: "int option \<Rightarrow> int \<Rightarrow> int option" where
  "higher cur off = (case cur of None \<Rightarrow> Some off | Some x \<Rightarrow> Some (max x off))"

lemma map_of_highest_offsets:
  "map_of (highest_offsets msgs hi) tp =
     fold (\<lambda>m cur. if (Topic m, Partition m) = tp then higher cur (Offset m) else cur) msgs (map_of hi tp)"
  by (induction msgs hi rule: highest_offsets.induct)
    (auto simp: Let_def map_of_set higher_def max_def split: option.split)

lemma fold_higher:
  "fold (\<lambda>m cur. if g m = tp then higher cur (Offset m) else cur) msgs cur = Some off \<longleftrightarrow>
     (cur = Some off \<or> (\<exists>m\<in>set msgs. g m = tp \<and> Offset m = off))
     \<and> (\<forall>x. cur = Some x \<longrightarrow> x \<le> off) \<and> (\<forall>m\<in>set msgs. g m = tp \<longrightarrow> Offset m \<le> off)"
proof (induction msgs arbitrary: cur)
  case Nil
  then show ?case by auto
next
  case (Cons m msgs)
  show ?case
  proof (cases "g m = tp")
    case True
    then show ?thesis by (cases cur) (auto simp: Cons.IH higher_def max_def split: if_splits)
  next
    case False
    then show ?thesis by (auto simp: Cons.IH)
  qed
qed

lemma highest_offsets_Some:
  "map_of (highest_offsets msgs []) (t, p) = Some off \<longleftrightarrow>
     (\<exists>m\<in>set msgs. Topic m = t \<and> Partition m = p \<and> Offset m = off)
     \<and> (\<forall>m\<in>set msgs. Topic m = t \<longrightarrow> Partition m = p \<longrightarrow> Offset m \<le> off)"
  unfolding map_of_highest_offsets fold_higher by auto


subsection \<open>Start\<close>

lemma run_loop_of_mode:
  assumes "run fuel E c s w = Some (err, s', w')"
  obtains (failed) n where "extends ((revoke_hook ^^ n) s) [] s'"
  | (looped) le w1 w2 s1 s2 n where
      "(if Mode c = ModeBatch then runBatchLoop fuel E c s w1 else runSingleLoop fuel E c s w1) = Some (le, s1, w2)"
      "extends s1 [] s2" "extends ((revoke_hook ^^ n) s2) [] s'"
proof -
  obtain e1 w1 where c1: "co_Connect (cons E) w = (e1, w1)" by fastforce
  define w2 where "w2 = (if Mode c = ModeBatch then co_SetOnRevoke (cons E) w1 else w1)"
  obtain e3 w3 where c3: "co_SubscribeToTopic (cons E) w2 = (e3, w3)" by fastforce
  show thesis
  proof (cases "e1 = None \<and> e3 = None")
    case False
    with assms c1 c3 have "\<exists>n. s' = (revoke_hook ^^ n) s"
      by (auto simp: run_def Let_def w2_def split: prod.splits option.splits intro: exI [of _ 0])
    then show thesis using failed extends_refl by blast
  next
    case True
    then obtain le s1 w4 where
      l: "(if Mode c = ModeBatch then runBatchLoop fuel E c s w3 else runSingleLoop fuel E c s w3) = Some (le, s1, w4)"
      using assms c1 c3 by (auto simp: run_def Let_def w2_def split: prod.splits option.splits if_splits)
    obtain ce w5 where c5: "co_CommitStored (cons E) w4 = (ce, w5)" by fastforce
    obtain n xe w6 where c6: "co_Close (cons E) w5 = ((n, xe), w6)" by (metis prod.collapse)
    define s2 where "s2 = (if ce = None then s1 else slog_add Warn (Some CommitFailed) s1)"
    have "extends s1 [] s2" by (simp add: s2_def)
    moreover have "extends ((revoke_hook ^^ n) s2) [] s'"
      using True assms c1 c3 l c5 c6 by (auto simp: run_def Let_def w2_def s2_def split: if_splits)
    ultimately show thesis by (rule looped [OF l])
  qed
qed

lemma loop_inv_start:
  "trace s = [] \<Longrightarrow> sstate s = Started \<Longrightarrow> held s = [] \<Longrightarrow> loop_inv s"
  by (simp add: loop_inv_def)

text \<open>The hooks a closing consumer runs only give messages up.\<close>

lemma run_end_safe:
  assumes "loop_inv s1" and "extends s1 [] s2" and "extends ((revoke_hook ^^ n) s2) [] s'"
  shows "stores_safe (trace s')"
proof -
  have "loop_inv s2" using assms(1,2) by (simp add: loop_inv_def extends_def held_def)
  from revoke_hooks_inv [OF this, of n] assms(3) show ?thesis by (simp add: loop_inv_def extends_def)
qed

lemma run_safe:
  assumes "run fuel E c s w = Some (err, s', w')" and "trace s = []" and "sstate s = Started"
    and "if Mode c = ModeBatch then \<exists>b. sbuf s = Some b \<and> messages b = [] else sbuf s = None"
  shows "stores_safe (trace s')"
proof -
  have inv: "loop_inv s" using assms(2-4) by (intro loop_inv_start) (auto simp: held_def split: if_splits)
  from assms(1) show ?thesis
  proof (cases rule: run_loop_of_mode)
    case (failed n)
    then show ?thesis by (rule run_end_safe [OF inv extends_refl])
  next
    case (looped le w1 w2 s1 s2 n)
    from inv have "loop_inv s1"
    proof (cases "Mode c = ModeBatch")
      case True
      with assms(4) inv have i: "batch_inv s" by (auto simp: batch_inv_def)
      from True looped(1) have r: "run_loop fuel (batch_body E c) None s w1 = Some (le, s1, w2)"
        by (simp add: runBatchLoop_def)
      from batch.loop_keeps [OF r i] show ?thesis by (simp add: batch_inv_def)
    next
      case False
      with assms(4) inv have i: "single_inv s" by (auto simp: single_inv_def)
      from False looped(1) have r: "run_loop fuel (single_body E c) None s w1 = Some (le, s1, w2)"
        by (simp add: runSingleLoop_def)
      from single.loop_keeps [OF r i] show ?thesis by (simp add: single_inv_def)
    qed
    then show ?thesis using looped(2,3) by (rule run_end_safe)
  qed
qed

text \<open>The state a run starts from, and what \<open>Start\<close> makes of its result.\<close>

definition running :: "'w sconfig \<Rightarrow> subscriber \<Rightarrow> subscriber" where
  "running c s = slog_add Info None
     (let s0 = slog_add Info None (s\<lparr>sstate := Started\<rparr>)
      in if Mode c = ModeBatch then s0\<lparr>sbuf := NewBuffer (BatchSize c) (BatchTimeout c)\<rparr> else s0)"

lemma Start_cases:
  assumes "Start fuel E nc c s w = Some (err, s', w')" and "sstate s = Created"
  obtains (refused) e where "err = Some e" "trace s' = trace s" "sstate s' = Stopped"
  | (ran) s1 w1 w2 w0 where "run fuel E c (running c s) w1 = Some (err, s1, w2)"
      "trace s' = trace s1" "sstate s' = Stopped" "w' = close_strategy (the (ErrorStrategy c)) w2"
      "initialize_strategy c w = (None, w0)" "nc (the (SNewConsumer c)) (sub_driverConfig c) w0 = (None, w1)"
proof -
  obtain ie w1 where ini: "initialize_strategy c w = (ie, w1)" by fastforce
  obtain ne w2 where n: "nc (the (SNewConsumer c)) (sub_driverConfig c) w1 = (ne, w2)" by fastforce
  show thesis
  proof (cases "ie = None \<and> ne = None")
    case False
    with assms ini n show thesis
      by (intro refused [of "the err"]) (auto simp: Start_def Let_def split: option.splits)
  next
    case True
    with assms ini n show thesis
      by (auto simp: Start_def Let_def running_def split: option.splits if_splits intro: ran)
  qed
qed

text \<open>\<open>Start\<close> never takes a subscriber back to an earlier state.\<close>

lemma Start_forward: "Start fuel E nc c s w = Some (err, s', w') \<Longrightarrow> sstate s \<le> sstate s'"
proof (cases "sstate s = Created")
  case True
  then show ?thesis by (simp add: less_eq_lifecycle_def)
next
  case False
  then show "Start fuel E nc c s w = Some (err, s', w') \<Longrightarrow> ?thesis" by (simp add: Start_def)
qed

lemma running_ready:
  assumes "sconfig_ready c" and "trace s = []" and "sbuf s = None"
  shows "trace (running c s) = [] \<and> sstate (running c s) = Started
    \<and> (if Mode c = ModeBatch then \<exists>b. sbuf (running c s) = Some b \<and> messages b = [] \<and> batchSize b = BatchSize c
       else sbuf (running c s) = None)"
  using assms by (auto simp: running_def Let_def sconfig_ready_def NewBuffer_def split: if_splits)

lemma Start_safe:
  assumes "Start fuel E nc c new_subscriber w = Some (err, s', w')" and "sconfig_ready c"
  shows "stores_safe (trace s')"
proof -
  have new: "sstate new_subscriber = Created" "trace new_subscriber = []" "sbuf new_subscriber = None"
    by (simp_all add: new_subscriber_def)
  from assms(1) new(1) show ?thesis
  proof (cases rule: Start_cases)
    case (refused e)
    with new show ?thesis by simp
  next
    case (ran s1 w1 w2 w0)
    have "if Mode c = ModeBatch then \<exists>b. sbuf (running c new_subscriber) = Some b \<and> messages b = []
        else sbuf (running c new_subscriber) = None"
      using running_ready [OF assms(2) new(2,3)] by (auto split: if_splits)
    with run_safe [OF ran(1)] running_ready [OF assms(2) new(2,3)] ran(2) show ?thesis by simp
  qed
qed


subsection \<open>The end of the loops\<close>

text \<open>Such a world orders the turns of a loop by what is left.\<close>

lemma env_advances_poll:
  "env_advances E c left \<Longrightarrow> \<not> ctx_Done E w \<Longrightarrow> poll E c s w = (r, s', w') \<Longrightarrow> left w' < left w" (is "_ \<Longrightarrow> _ \<Longrightarrow> _ \<Longrightarrow> ?thesis")
proof -
  assume adv: "env_advances E c left" and nd: "\<not> ctx_Done E w" and p: "poll E c s w = (r, s', w')"
  have "left (snd (co_Poll (cons E) (pollTimeoutMs c) w)) < left w"
    using adv nd unfolding env_advances_def by blast
  with poll_quiet(1) [OF p] show ?thesis by simp
qed

lemma env_advances_turn:
  assumes "env_advances E c left" and "sconfig_ready c"
  shows "turn_relation E c (\<lambda>s w s' w'. left w' \<le> left w)"
proof unfold_locales
  note adv = assms(1) [unfolded env_advances_def]
  obtain st where st: "ErrorStrategy c = Some st" using assms(2) by (auto simp: sconfig_ready_def)
  show "left (snd (co_StoreOffset (cons E) t p off w)) \<le> left w" for t p off w using adv by blast
  show "left (snd (co_MaybeCommitStored (cons E) w)) \<le> left w" for w using adv by blast
  show "left (snd (clock_Now E w)) \<le> left w" for w using adv by blast
  show "left (snd (h m pl w)) \<le> left w" if "Handler c = Some h" for h m pl w using adv that by blast
  show "left (snd (h b w)) \<le> left w" if "BatchHandler c = Some h" for h b w using adv that by blast
  show "left w' \<le> left w" if "hand_to_strategy (the (ErrorStrategy c)) ms f s w = (e, s', w')" for ms f s w e s' w'
    using hand_to_strategy_extends [OF that] adv st by (metis option.sel snd_conv)
qed simp_all

lemma single_body_left:
  assumes adv: "env_advances E c left" and ready: "sconfig_ready c" and h: "Handler c = Some h"
    and b: "single_body E c s w = (e, s', w')" and run: "sstate s' = Started"
  shows "left w' < left w"
proof -
  have nd: "\<not> ctx_Done E w" using b run by (auto simp: single_body_def)
  obtain r s1 w1 where p: "poll E c s w = (r, s1, w1)" by (metis prod_cases3)
  from turn_relation.single_body_rel [OF env_advances_turn [OF adv ready] nd p b h]
    env_advances_poll [OF adv nd p] show ?thesis by simp
qed

lemma batch_body_left:
  assumes adv: "env_advances E c left" and ready: "sconfig_ready c" and h: "BatchHandler c = Some h"
    and b: "batch_body E c s w = (e, s', w')" and run: "sstate s' = Started"
  shows "left w' < left w"
proof -
  have nd: "\<not> ctx_Done E w" using b run by (auto simp: batch_body_def)
  obtain r s1 w1 where p: "poll E c s w = (r, s1, w1)" by (metis prod_cases3)
  from turn_relation.batch_body_rel [OF env_advances_turn [OF adv ready] nd p b h]
    env_advances_poll [OF adv nd p] show ?thesis by simp
qed

lemma run_returns:
  assumes adv: "env_advances E c left" and ready: "sconfig_ready c"
    and s: "trace s = []" "sstate s = Started"
      "if Mode c = ModeBatch then \<exists>b. sbuf s = Some b \<and> messages b = [] else sbuf s = None"
  shows "\<exists>fuel res. run fuel E c s w = Some res"
proof -
  have inv: "loop_inv s" using s by (intro loop_inv_start) (auto simp: held_def split: if_splits)
  have loop: "\<exists>res. (if Mode c = ModeBatch then runBatchLoop (Suc (left w1)) E c s w1
      else runSingleLoop (Suc (left w1)) E c s w1) = Some res" for w1
  proof (cases "Mode c = ModeBatch")
    case True
    then obtain h where h: "BatchHandler c = Some h" using ready by (auto simp: sconfig_ready_def)
    from True s(3) inv have i: "batch_inv s" by (auto simp: batch_inv_def)
    have "\<exists>res. run_loop (Suc (left w1)) (batch_body E c) None s w1 = Some res"
      by (rule batch.loop_returns [where left = left, OF _ i]) (auto intro: batch_body_left [OF adv ready h])
    with True show ?thesis by (simp add: runBatchLoop_def)
  next
    case False
    then obtain h where h: "Handler c = Some h" using ready by (auto simp: sconfig_ready_def)
    from False s(3) inv have i: "single_inv s" by (auto simp: single_inv_def)
    have "\<exists>res. run_loop (Suc (left w1)) (single_body E c) None s w1 = Some res"
      by (rule single.loop_returns [where left = left, OF _ i]) (auto intro: single_body_left [OF adv ready h])
    with False show ?thesis by (simp add: runSingleLoop_def)
  qed
  obtain e1 w1 where c1: "co_Connect (cons E) w = (e1, w1)" by fastforce
  obtain e3 w3 where c3: "co_SubscribeToTopic (cons E)
      (if Mode c = ModeBatch then co_SetOnRevoke (cons E) w1 else w1) = (e3, w3)" by fastforce
  obtain le s1 w4 where "(if Mode c = ModeBatch then runBatchLoop (Suc (left w3)) E c s w3
      else runSingleLoop (Suc (left w3)) E c s w3) = Some (le, s1, w4)" using loop [of w3] by fastforce
  with c1 c3 have "\<exists>res. run (Suc (left w3)) E c s w = Some res"
    by (cases e1; cases e3) (auto simp: run_def Let_def split: prod.split)
  then show ?thesis by blast
qed

subsection \<open>Batch sizes\<close>

definition size_inv :: "'w sconfig \<Rightarrow> subscriber \<Rightarrow> bool" where
  "size_inv c s \<longleftrightarrow> 0 < BatchSize c \<and> (\<exists>b. sbuf s = Some b \<and> batchSize b = BatchSize c
     \<and> (sstate s = Started \<longrightarrow> int (length (messages b)) < BatchSize c))"

lemma size_inv_hook: "size_inv c s \<Longrightarrow> size_inv c (revoke_hook s)"
  by (auto simp: size_inv_def revoke_hook_def Drop_def Let_def)

lemma size_inv_ghost [simp]: "size_inv c (ghost e s) = size_inv c s"
  by (simp add: size_inv_def)

lemma size_inv_poll:
  assumes "size_inv c s" and "poll E c s w = (r, s', w')"
  shows "size_inv c s' \<and> sstate s' = sstate s"
proof -
  have "size_inv c ((revoke_hook ^^ n) s) \<and> sstate ((revoke_hook ^^ n) s) = sstate s" for n
    by (induction n) (simp_all add: assms(1) size_inv_hook revoke_hook_inv)
  then show ?thesis
    using assms(2) by (auto simp: poll_def Let_def split: prod.splits sum.splits option.splits)
qed

text \<open>A turn keeps the buffer below its size, and a batch it sends within it.\<close>

lemma size_inv_added:
  assumes "size_inv c s" and "sstate s = Started" and "poll E c s w = (r, s1, w1)"
    and "add_polled E msg (the (sbuf s1)) w1 = (b1, w2)"
  shows "batchSize b1 = BatchSize c \<and> int (length (messages b1)) \<le> BatchSize c"
  using add_polled_messages [OF assms(4)] size_inv_poll [OF assms(1,3)] assms(2) by (auto simp: size_inv_def split: option.splits)

lemma batch_due_size:
  "batch_due E b w = (False, w') \<Longrightarrow> int (length (messages b)) < batchSize b"
  by (auto simp: batch_due_def Ready_def split: if_splits prod.splits)

lemma size_inv_body:
  assumes inv: "size_inv c s" and run: "sstate s = Started" and b: "batch_body E c s w = (e, s', w')"
  shows "size_inv c s'"
  using b
proof (cases rule: batch_body_cases)
  case finished
  with inv show ?thesis by (auto simp: size_inv_def)
next
  case (failed x s1)
  with size_inv_poll [OF inv failed(2)] show ?thesis by (auto simp: size_inv_def)
next
  case (waiting msg s1 w1 b1 w2 due)
  have "batchSize b1 = BatchSize c" using size_inv_added [OF inv run waiting(2,3)] by simp
  moreover have "int (length (messages b1)) < BatchSize c"
    using calculation waiting(4,5) inv batch_due_size [of E b1 w2 w'] by (cases due) (auto simp: Flush_None size_inv_def)
  ultimately show ?thesis using waiting(6) inv by (simp add: size_inv_def)
next
  case (sent msg s1 w1 b1 w2 w3 msgs b2 e4 s4)
  have "batchSize b2 = BatchSize c" "messages b2 = []"
    using size_inv_added [OF inv run sent(2,3)] sent(5) by (simp_all add: Flush_Some)
  moreover have "sbuf s4 = Some b2" using dispatchBatch_extends [OF sent(6)] by (auto simp: extends_def)
  ultimately show ?thesis using sent(7) inv by (simp add: size_inv_def)
qed

text \<open>One turn with two handlers that agree on batches of the configured size.\<close>

lemma batch_body_cong:
  assumes inv: "size_inv c s" and run: "sstate s = Started" and h: "BatchHandler c = Some h"
    and agree: "\<forall>b w. 1 \<le> Len b \<longrightarrow> int (Len b) \<le> BatchSize c \<longrightarrow> h b w = h' b w"
    and b: "batch_body E c s w = (e, s', w')"
  shows "batch_body E (c\<lparr>BatchHandler := Some h'\<rparr>) s w = (e, s', w') \<and> size_inv c s'"
proof
  let ?c = "c\<lparr>BatchHandler := Some h'\<rparr>"
  have p: "poll E ?c s w = poll E c s w" by (simp add: poll_def pollTimeoutMs_def)
  from b show "batch_body E ?c s w = (e, s', w')"
  proof (cases rule: batch_body_cases)
    case (sent msg s1 w1 b1 w2 w3 msgs b2 e4 s4)
    have "msgs \<noteq> []" "int (length msgs) \<le> BatchSize c"
      using size_inv_added [OF inv run sent(2,3)] sent(5) by (auto simp: Flush_Some)
    then have "h (NewBatchFromBuffer msgs) w3 = h' (NewBatchFromBuffer msgs) w3"
      using agree by (cases msgs) (auto simp: Len_def NewBatchFromBuffer_def)
    then have "dispatchBatch E ?c msgs (s1\<lparr>sbuf := Some b2\<rparr>) w3 = (e4, s4, w')"
      using h sent(6) by (simp add: dispatchBatch_def invokeBatchHandler_def)
    with sent p show ?thesis by (auto simp: batch_body_def stop_with_def split: option.splits)
  next
    case (waiting msg s1 w1 b1 w2 due)
    with p show ?thesis by (cases due) (simp_all add: batch_body_def)
  qed (simp_all add: batch_body_def stop_with_def p)
  show "size_inv c s'" using size_inv_body [OF inv run b] .
qed

lemma runBatchLoop_cong:
  assumes h: "BatchHandler c = Some h"
    and agree: "\<forall>b w. 1 \<le> Len b \<longrightarrow> int (Len b) \<le> BatchSize c \<longrightarrow> h b w = h' b w"
  shows "size_inv c s \<Longrightarrow>
    run_loop fuel (batch_body E (c\<lparr>BatchHandler := Some h'\<rparr>)) le s w = run_loop fuel (batch_body E c) le s w"
proof (induction fuel arbitrary: le s w)
  case 0
  then show ?case by (subst (1 2) run_loop.simps) simp
next
  case (Suc n)
  obtain e s' w' where b: "batch_body E c s w = (e, s', w')" by (metis prod_cases3)
  show ?case
  proof (cases "sstate s = Started")
    case True
    from batch_body_cong [OF Suc.prems True h agree b] Suc.IH b show ?thesis
      by (subst (1 2) run_loop.simps) simp
  next
    case False
    then show ?thesis by (subst (1 2) run_loop.simps) simp
  qed
qed


subsection \<open>A scripted world\<close>

text \<open>The polls still to come, and the offsets stored so far. The context ends with the script.\<close>

record script =
  polls :: "(nat \<times> (gerror + message option)) list"
  offsets :: "((string \<times> int) \<times> int) list"

definition script_consumer :: "script consumer_ops" where
  "script_consumer =
     \<lparr>co_Connect = \<lambda>w. (None, w), co_SetOnRevoke = \<lambda>w. w, co_SubscribeToTopic = \<lambda>w. (None, w),
      co_Poll = \<lambda>t w. (case polls w of [] \<Rightarrow> ((0, Inr None), w) | x # xs \<Rightarrow> (x, w\<lparr>polls := xs\<rparr>)),
      co_StoreOffset = \<lambda>t p off w. (None, w\<lparr>offsets := offsets w @ [((t, p), off + 1)]\<rparr>),
      co_CommitStored = \<lambda>w. (None, w), co_MaybeCommitStored = \<lambda>w. (None, w), co_Close = \<lambda>w. ((0, None), w)\<rparr>"

definition script_env :: "script env" where
  "script_env = \<lparr>cons = script_consumer, ctx_Done = \<lambda>w. polls w = [], clock_Now = \<lambda>w. (0, w), map_order = \<lambda>m. m\<rparr>"

definition script_skip :: "script strategy_ops" where
  "script_skip = \<lparr>st_Name = skip_Name, st_HandleError = \<lambda>ms f w. (None, w), st_Initializable = None, st_SetLogger = None\<rparr>"

definition script_message :: "int \<Rightarrow> int \<Rightarrow> message" where
  "script_message p off = \<lparr>Topic = ''orders'', Partition = p, Offset = off, Timestamp = 0, Key = None,
     Headers = [], Payload = Some ''x''\<rparr>"

definition script_config :: "mode \<Rightarrow> script sconfig" where
  "script_config m = zero_config\<lparr>STopic := ''orders'', SBrokers := [''b:9092''], ConsumerGroup := ''g'',
     Handler := Some (\<lambda>m pl w. (if Offset m = 1 then HPanic ''boom'' else HReturn None, w)),
     BatchHandler := Some (\<lambda>b w. (([(0, \<lparr>Err = None, Step = 0, FCode = []\<rparr>)], HReturn None), w)),
     Mode := m, BatchSize := 2, BatchTimeout := 5 * Second, PollTimeout := 100 * Millisecond,
     ErrorStrategy := Some script_skip, SKafkaConfig := Some []\<rparr>"

definition script_world :: script where
  "script_world = \<lparr>polls = [(0, Inr (Some (script_message 0 1))), (1, Inr None),
     (0, Inr (Some (script_message 0 1))), (0, Inr (Some (script_message 0 2)))], offsets = []\<rparr>"

lemma script_ready: "sconfig_ready (script_config m)"
  by (simp add: sconfig_ready_def script_config_def zero_config_def Second_def)

lemma script_advances: "env_advances script_env (script_config m) (\<lambda>w. length (polls w))"
  by (auto simp: env_advances_def script_env_def script_consumer_def script_config_def script_skip_def
      zero_config_def split: list.split)

section \<open>Properties\<close>

text \<open>
  C2: no offset is ever stored over unresolved work. Whenever a subscriber, in single-message or in
  batch mode, stores an offset, the messages it has polled so far are exactly those that are
  accounted for: the handler succeeded on them, the error strategy returned nil for them, or they
  were dropped unhandled from the batch buffer because their partition was revoked. This holds
  over the whole of \<open>Start\<close>, for every handler, strategy, consumer and order of events, panics and
  store failures included.
\<close>

theorem no_store_over_unresolved_work:
  assumes "Start fuel E newConsumer c new_subscriber w = Some (err, s', w')" and "sconfig_ready c"
    and "trace s' = pre @ TStore topic part offset serr # post"
  shows "mset (polled_of pre) = mset (accounted_of pre)"
  using Start_safe [OF assms(1,2)] assms(3) unfolding stores_safe_def balanced_def
  by (metis is_store.simps(1))

theorem no_store_over_unresolved_work_witness:
  "\<exists>fuel err s' w'. Start fuel script_env (\<lambda>f d w. (None, w)) (script_config ModeBatch) new_subscriber script_world
       = Some (err, s', w')
     \<and> (\<forall>pre topic part offset serr post. trace s' = pre @ TStore topic part offset serr # post \<longrightarrow>
          mset (polled_of pre) = mset (accounted_of pre))"
proof -
  have "Start 9 script_env (\<lambda>f d w. (None, w)) (script_config ModeBatch) new_subscriber script_world \<noteq> None"
    by code_simp
  then obtain err s' w' where st: "Start 9 script_env (\<lambda>f d w. (None, w)) (script_config ModeBatch)
      new_subscriber script_world = Some (err, s', w')" by (metis not_None_eq prod_cases3)
  have "mset (polled_of pre) = mset (accounted_of pre)"
    if "trace s' = pre @ TStore topic part offset serr # post" for pre topic part offset serr post
    using no_store_over_unresolved_work [OF st script_ready that] .
  with st show ?thesis by blast
qed

text \<open>
  C5: a batch that was dispatched without an error stored exactly one offset per partition it had
  messages from, in whatever order Go ranges over the map: the highest offset among them. A store is a
  call of \<open>StoreOffset\<close>, with what it returned; one refused because the partition was revoked counts.
\<close>

theorem batch_stores_highest_offsets:
  assumes "dispatchBatch E c msgs s w = (None, s', w')" and "\<And>m. mset (map_order E m) = mset m"
  shows "\<exists>es ss. trace s' = trace s @ es @ ss \<and> accounted_of es = msgs \<and> (\<forall>e\<in>set es. \<not> is_store e)
    \<and> (\<forall>e\<in>set ss. is_store e) \<and> distinct (map (fst \<circ> store_target) ss)
    \<and> (\<forall>t p off. ((t, p), off) \<in> set (map store_target ss) \<longleftrightarrow>
         (\<exists>m\<in>set msgs. Topic m = t \<and> Partition m = p \<and> Offset m = off)
         \<and> (\<forall>m\<in>set msgs. Topic m = t \<longrightarrow> Partition m = p \<longrightarrow> Offset m \<le> off))"
proof -
  obtain es ss where x: "extends s (es @ ss) s'" "accounting es" "\<forall>e\<in>set ss. is_store e"
    "accounted_of es = msgs" "map store_target ss = map_order E (highest_offsets msgs [])"
    using dispatchBatch_extends [OF assms(1)] by blast
  let ?hi = "highest_offsets msgs []"
  have wf: "distinct (map fst ?hi)" using wf_highest_offsets [of "[]" msgs] by (simp add: wf_map_def)
  have ms: "mset (map store_target ss) = mset ?hi" using x(5) assms(2) by simp
  then have "mset (map fst (map store_target ss)) = mset (map fst ?hi)" by (metis mset_map)
  with wf have "distinct (map fst (map store_target ss))" by (metis mset_eq_imp_distinct_iff)
  moreover have "set (map store_target ss) = set ?hi" using ms by (metis set_mset_mset)
  moreover have "((t, p), off) \<in> set ?hi \<longleftrightarrow> map_of ?hi (t, p) = Some off" for t p off
    using wf by simp
  ultimately show ?thesis
    using x unfolding extends_def accounting_def highest_offsets_Some
    by (intro exI [of _ es, OF exI [of _ ss]]) (simp del: map_map add: map_map [symmetric])
qed

theorem batch_stores_highest_offsets_witness:
  "\<exists>s' w' ss. dispatchBatch script_env (script_config ModeBatch) [script_message 0 1, script_message 0 2]
       new_subscriber script_world = (None, s', w') \<and> (\<exists>es. trace s' = es @ ss)
     \<and> ((''orders'', 0), 2) \<in> set (map store_target ss)"
proof -
  have "fst (dispatchBatch script_env (script_config ModeBatch) [script_message 0 1, script_message 0 2]
      new_subscriber script_world) = None" by code_simp
  then obtain s' w' where d: "dispatchBatch script_env (script_config ModeBatch)
      [script_message 0 1, script_message 0 2] new_subscriber script_world = (None, s', w')"
    by (metis prod.collapse)
  from batch_stores_highest_offsets [OF d] obtain es ss where
    "trace s' = trace new_subscriber @ es @ ss"
    "\<forall>t p off. ((t, p), off) \<in> set (map store_target ss) \<longleftrightarrow>
         (\<exists>m\<in>set [script_message 0 1, script_message 0 2]. Topic m = t \<and> Partition m = p \<and> Offset m = off)
         \<and> (\<forall>m\<in>set [script_message 0 1, script_message 0 2]. Topic m = t \<longrightarrow> Partition m = p \<longrightarrow> Offset m \<le> off)"
    by (auto simp: script_env_def)
  with d show ?thesis
    by (intro exI [of _ s'] exI [of _ w'] exI [of _ ss]) (simp add: script_message_def)
qed

text \<open>
  C10: \<open>Start\<close> returns. In a world where the polls left before the context ends are bounded, and
  handlers, strategy, clock and consumer do not put that end off, there is a number of turns of the
  poll loop after which \<open>Start\<close> has returned, in either mode.
\<close>

theorem start_returns:
  assumes "env_advances E c left" and "sconfig_ready c"
  shows "\<exists>fuel res. Start fuel E newConsumer c new_subscriber w = Some res"
proof -
  have new: "trace new_subscriber = []" "sbuf new_subscriber = None"
    by (simp_all add: new_subscriber_def)
  obtain ie w1 where ini: "initialize_strategy c w = (ie, w1)" by fastforce
  obtain ne w2 where n: "newConsumer (the (SNewConsumer c)) (sub_driverConfig c) w1 = (ne, w2)" by fastforce
  note R = running_ready [OF assms(2) new]
  have "if Mode c = ModeBatch then \<exists>b. sbuf (running c new_subscriber) = Some b \<and> messages b = []
        else sbuf (running c new_subscriber) = None"
    using R by (auto split: if_splits)
  from run_returns [OF assms _ _ this] R obtain fuel res where
    r: "run fuel E c (running c new_subscriber) w2 = Some res" by blast
  have "\<exists>res. Start fuel E newConsumer c new_subscriber w = Some res"
  proof (cases "ie = None \<and> ne = None")
    case True
    with ini n r show ?thesis
      by (cases res) (auto simp: Start_def Let_def new_subscriber_def running_def)
  next
    case False
    with ini n show ?thesis by (cases ie) (auto simp: Start_def Let_def new_subscriber_def)
  qed
  then show ?thesis by blast
qed

theorem start_returns_witness:
  "\<exists>fuel res. Start fuel script_env (\<lambda>f d w. (None, w)) (script_config ModeSingleMessage) new_subscriber script_world
     = Some res"
  using start_returns [OF script_advances script_ready] .

text \<open>
  C25: a batch handler is only ever given batches of one to \<open>BatchSize\<close> messages: on any run, a
  handler that agrees with it on those batches and does anything else on others cannot be told from
  it.
\<close>

theorem batches_keep_their_size:
  assumes "sconfig_ready c" and "Mode c = ModeBatch" and "BatchHandler c = Some h"
    and "\<forall>b w. 1 \<le> Len b \<longrightarrow> int (Len b) \<le> BatchSize c \<longrightarrow> h b w = h' b w"
  shows "Start fuel E newConsumer (c\<lparr>BatchHandler := Some h'\<rparr>) new_subscriber w
    = Start fuel E newConsumer c new_subscriber w"
proof -
  let ?c = "c\<lparr>BatchHandler := Some h'\<rparr>"
  have sized: "size_inv c (running c new_subscriber)"
    using assms(1,2) by (auto simp: size_inv_def running_def Let_def NewBuffer_def sconfig_ready_def)
  have loop: "runBatchLoop fuel E ?c (running c new_subscriber) w1
      = runBatchLoop fuel E c (running c new_subscriber) w1" for w1
    using runBatchLoop_cong [OF assms(3,4) sized] by (simp add: runBatchLoop_def)
  have "run fuel E ?c (running c new_subscriber) w1 = run fuel E c (running c new_subscriber) w1" for w1
    using assms(2) loop by (simp add: run_def Let_def cong: option.case_cong prod.case_cong)
  moreover have "running ?c new_subscriber = running c new_subscriber" by (simp add: running_def Let_def)
  moreover have "sub_driverConfig ?c = sub_driverConfig c" "initialize_strategy ?c w = initialize_strategy c w"
    by (simp_all add: sub_driverConfig_def initialize_strategy_def init_config_of_def Let_def cong: option.case_cong prod.case_cong if_cong)
  ultimately show ?thesis
    using assms(2) by (simp add: Start_def Let_def running_def cong: option.case_cong prod.case_cong)
qed

theorem batches_keep_their_size_witness:
  "Start 9 script_env (\<lambda>f d w. (None, w))
     ((script_config ModeBatch)\<lparr>BatchHandler := Some (\<lambda>b w. if Len b > 2 then (([], HPanic ''too big''), w)
        else (([(0, \<lparr>Err = None, Step = 0, FCode = []\<rparr>)], HReturn None), w))\<rparr>) new_subscriber script_world
   = Start 9 script_env (\<lambda>f d w. (None, w)) (script_config ModeBatch) new_subscriber script_world"
  by (rule batches_keep_their_size [OF script_ready, of _
        "\<lambda>b w. (([(0, \<lparr>Err = None, Step = 0, FCode = []\<rparr>)], HReturn None), w)"])
    (simp_all add: script_config_def)

text \<open>
  A message or batch counts as handled only when its handler returned nil. A panic comes back
  as a failure that carries an error, is logged, and is never read as success; in batch mode it
  fails the batch as a whole.
\<close>

lemma panic_is_a_failure:
  "(fst (dispatchMessage h msg s w) = None \<longleftrightarrow> fst (h msg (Payload msg) w) = HReturn None)
   \<and> (fst (invokeBatchHandler bh b s w) = None \<longleftrightarrow> snd (fst (bh b w)) = HReturn None)
   \<and> (\<forall>v w'. h msg (Payload msg) w = (HPanic v, w') \<longrightarrow>
        (\<exists>f s'. dispatchMessage h msg s w = (Some f, s', w') \<and> Err f \<noteq> None
           \<and> slog s' = slog s @ [(Error, Some HandlerPanic)]))"
  by (auto simp: dispatchMessage_def invokeBatchHandler_def panic_failure_def slog_add_def
      split: prod.splits handler_outcome.splits)

text \<open>
  A strategy never sees a failure without an error. A failure that has one reaches it unchanged;
  one without reaches it under \<open>ErrUnspecified\<close> with its step and code kept, and is logged. The
  messages are routed either way, and the strategy's answer is returned as it is.
\<close>

lemma strategy_always_gets_a_reason:
  "\<exists>f' s'. hand_to_strategy st msgs f s w
      = (fst (st_HandleError st msgs f' w), s', snd (st_HandleError st msgs f' w))
    \<and> (case Err f of Some e \<Rightarrow> f' = f
       | None \<Rightarrow> f' = f\<lparr>Err := Some (SentinelErr ErrUnspecified)\<rparr>
           \<and> slog s' = slog s @ [(Warn, Some FailureWithoutError)])"
  by (cases "Err f")
    (auto simp: hand_to_strategy_def withReason_def slog_add_def ghost_def split: prod.split)

text \<open>
  A subscriber is single-use. \<open>Start\<close> on one that was started before is refused and touches
  neither the subscriber nor the world; every \<open>Start\<close> that was let in leaves it stopped, whatever
  went wrong.
\<close>

lemma subscriber_is_single_use:
  "(sstate s \<noteq> Created \<longrightarrow>
      (\<exists>e. Start fuel E newConsumer c s w = Some (Some e, s, w)))
   \<and> (sstate s = Created \<longrightarrow> Start fuel E newConsumer c s w = Some (err, s', w') \<longrightarrow>
      sstate s' = Stopped
      \<and> (\<exists>e. Start fuel2 E newConsumer c s' w' = Some (Some e, s', w')))"
proof (intro conjI impI)
  assume "sstate s \<noteq> Created"
  then show "\<exists>e. Start fuel E newConsumer c s w = Some (Some e, s, w)" by (simp add: Start_def)
next
  assume "sstate s = Created" "Start fuel E newConsumer c s w = Some (err, s', w')"
  then show st: "sstate s' = Stopped" by (auto elim: Start_cases)
  then show "\<exists>e. Start fuel2 E newConsumer c s' w' = Some (Some e, s', w')" by (simp add: Start_def)
qed

text \<open>
  C36: a configuration \<open>New\<close> accepts is complete and consistent, whatever options it was built
  from: topic, brokers, group, a strategy and a consumer factory are set, the mode has its handler and in batch mode a
  positive size and timeout, the poll timeout is at least 10 ms, and the client settings hold none
  of the keys the library manages.
\<close>

theorem accepted_configs_are_ready:
  assumes "sub_New skip (map sub_option_of opts) = Inr c"
  shows "sconfig_ready c \<and> SNewConsumer c \<noteq> None \<and> STopic c \<noteq> [] \<and> SBrokers c \<noteq> [] \<and> ConsumerGroup c \<noteq> []
    \<and> 10 * Millisecond \<le> PollTimeout c \<and> 0 \<le> AutoCommitEvery c
    \<and> (\<exists>m. SKafkaConfig c = Some m \<and> (\<forall>k\<in>fst ` set m. map_of sub_managedKafkaKeys k = None))"
  using sub_New_ready [OF assms] by (auto simp: sconfig_inv_def)

theorem accepted_configs_are_ready_witness:
  "\<exists>c. sub_New (\<lambda>_. script_skip) (map sub_option_of [SoTopic ''orders'', SoBrokers [''b:9092''], SoGroup ''g'',
      SoBatchHandler (Some (\<lambda>b w. (([], HReturn None), w)))]) = Inr c \<and> sconfig_ready c"
proof -
  obtain c where "sub_New (\<lambda>_. script_skip) (map sub_option_of [SoTopic ''orders'', SoBrokers [''b:9092''],
      SoGroup ''g'', SoBatchHandler (Some (\<lambda>b w. (([], HReturn None), w)))]) = Inr c"
    by (simp add: sub_New_def sub_option_defs zero_config_def Validate_def Let_def Second_def)
  with accepted_configs_are_ready [OF this] show ?thesis by blast
qed

end
