(* ===== verification/Subscriber_Stack.thy ===== *)
theory Subscriber_Stack
  imports Subscriber_Properties Retry_Properties
begin

text \<open>
  The subscriber together with what it runs on. The locale \<open>resolving_subscriber\<close> is the
  subscriber over a world that holds an error strategy: it relies on the contract
  \<open>error_strategy\<close> and on everything else leaving the strategy alone. The second half builds that
  world: the subscribe driver over a client library, and the retry strategy with its publisher
  over a producer, side by side with what the application's handlers touch.
\<close>

section \<open>Definitions\<close>

subsection \<open>What a strategy has resolved\<close>

definition kept :: "('w \<Rightarrow> bool) \<Rightarrow> ('w \<Rightarrow> message \<Rightarrow> bool) \<Rightarrow> subscriber \<Rightarrow> 'w \<Rightarrow> bool" where
  "kept ready res s w \<longleftrightarrow>
     ready w \<and> (\<forall>ms f m. TResolved ms f \<in> set (trace s) \<longrightarrow> m \<in> set ms \<longrightarrow> res w m)"

definition leaves :: "('w \<Rightarrow> bool) \<Rightarrow> ('w \<Rightarrow> message \<Rightarrow> bool) \<Rightarrow> 'w \<Rightarrow> 'w \<Rightarrow> bool" where
  "leaves ready res w w' \<longleftrightarrow>
     (ready w \<longrightarrow> ready w') \<and> (\<forall>m. res w m \<longrightarrow> res w' m)"

subsection \<open>The stack\<close>

record ('k, 'p, 'x) world =
  w_driver :: "'k consumer"
  w_retry :: retry_strategy
  w_producer :: 'p
  w_rest :: 'x

text \<open>What the stack is built from: client library, producer, float arithmetic, clocks.\<close>

record ('k, 'p, 'x) platform =
  pl_client :: "'k kfk_consumer"
  pl_newClient :: "config_map \<Rightarrow> gerror + 'k"
  pl_SetKey :: set_key
  pl_newProducer :: "factory \<Rightarrow> driver_config \<Rightarrow> gerror + 'p"
  pl_produce :: "'p produce_fn"
  pl_producer :: "'p producer_ops"
  pl_closeCtx :: "duration \<Rightarrow> 'p close_ctx"
  pl_closeFuel :: nat
  pl_conv :: "float64 \<Rightarrow> int"
  pl_floats :: float_ops
  pl_ticks :: "'x \<Rightarrow> nat \<Rightarrow> tick"
  pl_settled :: "nat \<Rightarrow> delivery"
  pl_Done :: "('k, 'p, 'x) world \<Rightarrow> bool"
  pl_Now :: "'x \<Rightarrow> int \<times> 'x"
  pl_order :: "((string \<times> int) \<times> int) list \<Rightarrow> ((string \<times> int) \<times> int) list"

definition on_driver ::
  "('k consumer \<Rightarrow> 'a \<times> 'k consumer) \<Rightarrow> ('k, 'p, 'x) world \<Rightarrow> 'a \<times> ('k, 'p, 'x) world" where
  "on_driver op w = (let (a, d') = op (w_driver w) in (a, w\<lparr>w_driver := d'\<rparr>))"

definition on_rest :: "('x \<Rightarrow> 'a \<times> 'x) \<Rightarrow> ('k, 'p, 'x) world \<Rightarrow> 'a \<times> ('k, 'p, 'x) world" where
  "on_rest op w = (let (a, x') = op (w_rest w) in (a, w\<lparr>w_rest := x'\<rparr>))"

text \<open>The subscriber's consumer is the driver: every factory stands for \<open>subscribedriver.New\<close>.\<close>

definition stack_env :: "('k, 'p, 'x) platform \<Rightarrow> ('k, 'p, 'x) world env" where
  "stack_env P =
     \<lparr>cons =
        \<lparr>co_Connect = on_driver (Connect (pl_newClient P)),
         co_SetOnRevoke = (\<lambda>w. w\<lparr>w_driver := SetOnRevoke (w_driver w)\<rparr>),
         co_SubscribeToTopic = on_driver (SubscribeToTopic (pl_client P)),
         co_Poll = (\<lambda>t. on_driver (driver_Poll (pl_client P) t)),
         co_StoreOffset = (\<lambda>t p off. on_driver (StoreOffset (pl_client P) t p off)),
         co_CommitStored = on_driver (CommitStored (pl_client P)),
         co_MaybeCommitStored = on_driver (MaybeCommitStored (pl_client P)),
         co_Close = on_driver (consumer_Close (pl_client P))\<rparr>,
      ctx_Done = pl_Done P, clock_Now = on_rest (pl_Now P), map_order = pl_order P\<rparr>"

definition stack_newConsumer ::
  "('k, 'p, 'x) platform \<Rightarrow> factory \<Rightarrow> consumer_config \<Rightarrow> ('k, 'p, 'x) world \<Rightarrow> gerror option \<times> ('k, 'p, 'x) world" where
  "stack_newConsumer P fac cfg w =
     (case New_consumer (pl_SetKey P) cfg of
        Inl err \<Rightarrow> (Some err, w)
      | Inr d \<Rightarrow> (None, w\<lparr>w_driver := d\<rparr>))"

text \<open>
  The retry strategy. \<open>Initialize\<close> panics on an empty topic name only, which \<open>NewRetryStrategy\<close>
  refuses; a \<open>Close\<close> that is out of fuel leaves the strategy as it is.
\<close>

definition stack_strategy :: "('k, 'p, 'x) platform \<Rightarrow> ('k, 'p, 'x) world strategy_ops" where
  "stack_strategy P =
     \<lparr>st_Name = retry_Name,
      st_HandleError = (\<lambda>msgs f w.
        (let (err, r', p') =
               retry_HandleError (pl_produce P) (pl_floats P) (pl_ticks P (w_rest w)) (pl_settled P)
                 msgs f (w_retry w, w_producer w)
         in (err, w\<lparr>w_retry := r', w_producer := p'\<rparr>))),
      st_Initializable = Some
        (\<lambda>ic w.
           (case Initialize (pl_conv P) (pl_newProducer P) ic (w_retry w) of
              None \<Rightarrow> (Some (Plain ''publish: topic name is empty''), w)
            | Some (err, r', p') \<Rightarrow>
                (err, w\<lparr>w_retry := r', w_producer := (case p' of None \<Rightarrow> w_producer w | Some p \<Rightarrow> p)\<rparr>)),
         \<lambda>w.
           (case retry_Close (pl_closeFuel P) (pl_producer P) (pl_closeCtx P) (w_retry w) (w_producer w) of
              None \<Rightarrow> (None, w)
            | Some (err, r', p') \<Rightarrow> (err, w\<lparr>w_retry := r', w_producer := p'\<rparr>))),
      st_SetLogger = Some (\<lambda>l w. w\<lparr>w_retry := retry_SetLogger l (w_retry w)\<rparr>)\<rparr>"

text \<open>A configuration with the retry strategy and handlers that touch the application's state only.\<close>

definition stack_config ::
  "('k, 'p, 'x) platform \<Rightarrow> 'x handler option \<Rightarrow> 'x batch_handler option
     \<Rightarrow> ('k, 'p, 'x) world sconfig \<Rightarrow> ('k, 'p, 'x) world sconfig" where
  "stack_config P h bh c =
     c\<lparr>Handler := map_option (\<lambda>h msg pl. on_rest (h msg pl)) h,
       BatchHandler := map_option (\<lambda>bh b. on_rest (bh b)) bh,
       ErrorStrategy := Some (stack_strategy P)\<rparr>"

definition stack_ready :: "('k, 'p, 'x) world \<Rightarrow> bool" where
  "stack_ready w \<longleftrightarrow> retry_ready (w_retry w, w_producer w)"

definition stack_resolved :: "('k, 'p, 'x) platform \<Rightarrow> ('k, 'p, 'x) world \<Rightarrow> message \<Rightarrow> bool" where
  "stack_resolved P w = retry_resolved (pl_settled P) (w_retry w, w_producer w)"

section \<open>The subscriber over a resolving strategy\<close>

locale resolving_subscriber =
  error_strategy "st_HandleError (the (ErrorStrategy c))" ready res
  for c :: "'w sconfig" and ready :: "'w \<Rightarrow> bool" and res :: "'w \<Rightarrow> message \<Rightarrow> bool" +
  fixes E :: "'w env" and newConsumer :: "factory \<Rightarrow> consumer_config \<Rightarrow> 'w \<Rightarrow> gerror option \<times> 'w"
  assumes connecting:
      "leaves ready res w (snd (co_Connect (cons E) w))"
      "leaves ready res w (co_SetOnRevoke (cons E) w)"
      "leaves ready res w (snd (co_SubscribeToTopic (cons E) w))"
      "leaves ready res w (snd (newConsumer fac cc w))"
    and polling: "leaves ready res w (snd (co_Poll (cons E) t w))"
    and storing:
      "leaves ready res w (snd (co_StoreOffset (cons E) tp p off w))"
      "leaves ready res w (snd (co_MaybeCommitStored (cons E) w))"
      "leaves ready res w (snd (co_CommitStored (cons E) w))"
      "leaves ready res w (snd (co_Close (cons E) w))"
    and reading: "leaves ready res w (snd (clock_Now E w))"
    and handling:
      "Handler c = Some h \<Longrightarrow> leaves ready res w (snd (h msg pl w))"
      "BatchHandler c = Some bh \<Longrightarrow> leaves ready res w (snd (bh b w))"
    and initializing: "initialize_strategy c w = (None, w') \<Longrightarrow> ready w \<Longrightarrow> ready w'"
    and closing: "leaves ready res w (close_strategy (the (ErrorStrategy c)) w)"

lemma leaves_trans: "leaves r d w w' \<Longrightarrow> leaves r d w' w'' \<Longrightarrow> leaves r d w w''"
  by (simp add: leaves_def)

lemma kept_leaves:
  assumes "kept r d s w" and "leaves r d w w'"
    and "trace s' = trace s @ es" and "\<forall>e\<in>set es. \<not> resolves e"
  shows "kept r d s' w'"
proof -
  have "TResolved ms f \<notin> set es" for ms f using assms(4) by auto
  with assms(1-3) show ?thesis by (auto simp: kept_def leaves_def)
qed

lemma kept_trace: "kept r d s w \<Longrightarrow> trace s' = trace s \<Longrightarrow> kept r d s' w"
  by (simp add: kept_def)

lemmas kept_same = kept_leaves [where es = "[]", simplified]

lemma kept_hooks:
  assumes "kept r d s w" and "leaves r d w w'" and "trace s' = trace ((revoke_hook ^^ n) s)"
  shows "kept r d s' w'"
  using kept_leaves [OF assms(1,2)] revoke_hooks_quiet [of n s] assms(3) by auto

sublocale resolving_subscriber \<subseteq>
    turn: turn_relation E c "\<lambda>s w s' w'. kept ready res s w \<longrightarrow> kept ready res s' w'"
proof (unfold_locales, goal_cases)
  case (1 s' s es w)
  then show ?case using kept_leaves [of ready res s w w s' es] by (simp add: leaves_def)
next
  case (8 ms f s w e s' w')
  obtain f' where x: "extends s (if e = None then [TResolved ms f'] else []) s'"
    and h: "st_HandleError (the (ErrorStrategy c)) ms f' w = (e, w')"
    using hand_to_strategy_extends [OF 8] by blast
  show ?case
  proof
    assume k: "kept ready res s w"
    then have rd: "ready w" by (simp add: kept_def)
    from stays_ready [OF h rd] stays_resolved [OF h rd] k x nil_resolves [of ms f' w w'] h rd
    show "kept ready res s' w'" by (auto simp: kept_def extends_def split: if_splits)
  qed
qed (auto intro: kept_same storing reading handling)

context resolving_subscriber
begin

lemma poll_kept: "poll E c s w = (r, s', w') \<Longrightarrow> kept ready res s w \<Longrightarrow> kept ready res s' w'"
  using poll_quiet kept_leaves polling by metis

lemma single_body_kept:
  assumes "Handler c = Some h" and "single_body E c s w = (e, s', w')" and "kept ready res s w"
  shows "kept ready res s' w'"
proof (cases "ctx_Done E w")
  case True
  with assms(2,3) show ?thesis by (auto simp: single_body_def intro: kept_trace)
next
  case False
  obtain r s1 w1 where p: "poll E c s w = (r, s1, w1)" by (metis prod_cases3)
  from turn.single_body_rel [OF False p assms(2,1)] poll_kept [OF p assms(3)] show ?thesis by blast
qed

lemma batch_body_kept:
  assumes "BatchHandler c = Some h" and "batch_body E c s w = (e, s', w')" and "kept ready res s w"
  shows "kept ready res s' w'"
proof (cases "ctx_Done E w")
  case True
  with assms(2,3) show ?thesis by (auto simp: batch_body_def intro: kept_trace)
next
  case False
  obtain r s1 w1 where p: "poll E c s w = (r, s1, w1)" by (metis prod_cases3)
  from turn.batch_body_rel [OF False p assms(2,1)] poll_kept [OF p assms(3)] show ?thesis by blast
qed

lemma loop_kept:
  assumes "sconfig_ready c" and "kept ready res s w"
    and "(if Mode c = ModeBatch then runBatchLoop fuel E c s w else runSingleLoop fuel E c s w) = Some (e, s', w')"
  shows "kept ready res s' w'"
proof (cases "Mode c = ModeBatch")
  case True
  then obtain h where h: "BatchHandler c = Some h" using assms(1) by (auto simp: sconfig_ready_def)
  from True assms(3) have r: "run_loop fuel (batch_body E c) None s w = Some (e, s', w')"
    by (simp add: runBatchLoop_def)
  have "poll_loop (batch_body E c) (kept ready res)" using batch_body_kept [OF h] by unfold_locales blast
  from poll_loop.loop_keeps [OF this r assms(2)] show ?thesis by blast
next
  case False
  then obtain h where h: "Handler c = Some h" using assms(1) by (auto simp: sconfig_ready_def)
  from False assms(3) have r: "run_loop fuel (single_body E c) None s w = Some (e, s', w')"
    by (simp add: runSingleLoop_def)
  have "poll_loop (single_body E c) (kept ready res)" using single_body_kept [OF h] by unfold_locales blast
  from poll_loop.loop_keeps [OF this r assms(2)] show ?thesis by blast
qed

lemma run_kept:
  assumes "sconfig_ready c" and "kept ready res s w" and "run fuel E c s w = Some (err, s', w')"
  shows "kept ready res s' w'"
proof -
  obtain e1 w1 where c1: "co_Connect (cons E) w = (e1, w1)" by fastforce
  define w2 where "w2 = (if Mode c = ModeBatch then co_SetOnRevoke (cons E) w1 else w1)"
  obtain e3 w3 where c3: "co_SubscribeToTopic (cons E) w2 = (e3, w3)" by fastforce
  have l1: "leaves ready res w w1" using connecting(1) [of w] c1 by simp
  have l2: "leaves ready res w1 w2" using connecting(2) by (simp add: w2_def leaves_def)
  have l3: "leaves ready res w2 w3" using connecting(3) [of w2] c3 by simp
  note l = leaves_trans [OF leaves_trans [OF l1 l2] l3]
  show ?thesis
  proof (cases "e1 = None \<and> e3 = None")
    case True
    then obtain le s1 w4 where
      lp: "(if Mode c = ModeBatch then runBatchLoop fuel E c s w3 else runSingleLoop fuel E c s w3) = Some (le, s1, w4)"
      using assms(3) c1 c3 by (auto simp: run_def Let_def w2_def split: prod.splits option.splits if_splits)
    from loop_kept [OF assms(1) kept_same [OF assms(2) l] lp] have k: "kept ready res s1 w4" by simp
    obtain ce w5 where c5: "co_CommitStored (cons E) w4 = (ce, w5)" by fastforce
    obtain n xe w6 where c6: "co_Close (cons E) w5 = ((n, xe), w6)" by (metis prod.collapse)
    define s2 where "s2 = (if ce = None then s1 else slog_add Warn (Some CommitFailed) s1)"
    have "leaves ready res w4 w6"
      using leaves_trans storing(3) [of w4] storing(4) [of w5] c5 c6 by (metis snd_conv)
    moreover have "trace s' = trace ((revoke_hook ^^ n) s2)" "w' = w6"
      using assms(3) c1 c3 True lp c5 c6 by (auto simp: run_def Let_def w2_def s2_def split: if_splits)
    moreover have "kept ready res s2 w4" by (rule kept_trace [OF k]) (simp add: s2_def)
    ultimately show ?thesis using kept_hooks by simp
  next
    case False
    obtain n xe w4 where c4: "co_Close (cons E) w3 = ((n, xe), w4)" by (metis prod.collapse)
    have "leaves ready res w w4" using leaves_trans [OF l] storing(4) [of w3] c4 by simp
    moreover have "s' = s \<and> w' = w1 \<or> s' = (revoke_hook ^^ n) s \<and> w' = w4"
      using assms(3) False c1 c3 c4 by (auto simp: run_def Let_def w2_def split: option.splits)
    ultimately show ?thesis using kept_same [OF assms(2) l1] kept_hooks [OF assms(2)] by auto
  qed
qed

text \<open>What the subscriber saw resolved is resolved when \<open>Start\<close> has returned.\<close>

lemma Start_resolved:
  assumes "Start fuel E newConsumer c new_subscriber w = Some (err, s', w')" and "sconfig_ready c"
    and "ready w" and "TResolved ms f \<in> set (trace s')" and "m \<in> set ms"
  shows "res w' m"
proof -
  have new: "sstate new_subscriber = Created" "trace new_subscriber = []" "sbuf new_subscriber = None"
    by (simp_all add: new_subscriber_def)
  from assms(1) new(1) show ?thesis
  proof (cases rule: Start_cases)
    case (refused e)
    with new assms(4) show ?thesis by simp
  next
    case (ran s1 w1 w2 w0)
    have "ready w1"
      using initializing [OF ran(5) assms(3)] connecting(4) [of w0] ran(6) by (metis leaves_def snd_conv)
    then have "kept ready res (running c new_subscriber) w1"
      using running_ready [OF assms(2) new(2,3)] by (simp add: kept_def)
    from run_kept [OF assms(2) this ran(1)] have "kept ready res s1 w2" .
    with closing [of w2] ran(2,4) have "kept ready res s' w'" by (simp add: kept_same)
    with assms(4,5) show ?thesis by (auto simp: kept_def)
  qed
qed

end

section \<open>The stack keeps the laws\<close>

lemma snd_on_driver: "\<exists>d'. snd (on_driver op w) = w\<lparr>w_driver := d'\<rparr>"
  by (auto simp: on_driver_def split: prod.split)

lemma snd_on_rest: "\<exists>x'. snd (on_rest op w) = w\<lparr>w_rest := x'\<rparr>"
  by (auto simp: on_rest_def split: prod.split)

lemma leaves_driver [simp]: "leaves stack_ready (stack_resolved P) w (snd (on_driver op w))"
  using snd_on_driver [of op w] by (auto simp: leaves_def stack_ready_def stack_resolved_def)

lemma leaves_rest [simp]: "leaves stack_ready (stack_resolved P) w (snd (on_rest op w))"
  using snd_on_rest [of op w] by (auto simp: leaves_def stack_ready_def stack_resolved_def)

lemma leaves_update [simp]:
  "leaves stack_ready (stack_resolved P) w (w\<lparr>w_driver := d\<rparr>)" "leaves stack_ready (stack_resolved P) w w"
  by (simp_all add: leaves_def stack_ready_def stack_resolved_def)

lemma stack_HandleError:
  assumes "st_HandleError (stack_strategy P) msgs f w = (err, w')"
  shows "retry_HandleError (pl_produce P) (pl_floats P) (pl_ticks P (w_rest w)) (pl_settled P) msgs f
    (w_retry w, w_producer w) = (err, w_retry w', w_producer w')"
  using assms by (auto simp: stack_strategy_def split: prod.splits)

lemma retry_resolved_records:
  assumes "rpublisher r = Some p" and "map d_record (deliveries p') = map d_record (deliveries p)"
    and "retry_resolved settled (r, w) m"
  shows "retry_resolved settled (r\<lparr>rpublisher := Some p', inUse := b\<rparr>, w') m"
proof -
  have "length (deliveries p') = length (deliveries p)" using assms(2) by (rule map_eq_imp_length_eq)
  moreover from this assms(2) have "d_record (deliveries p' ! i) = d_record (deliveries p ! i)"
    if "i < length (deliveries p)" for i using that by (metis nth_map)
  ultimately show ?thesis using assms(1,3) by (auto simp: retry_resolved_def Let_def)
qed

text \<open>Closing the strategy changes no record and unbinds no writer.\<close>

lemma retry_Close_leaves:
  assumes "retry_Close fuel P C r w = Some (err, r', w')"
  shows "retry_ready (r, w) \<Longrightarrow> retry_ready (r', w')"
    and "retry_resolved settled (r, w) m \<Longrightarrow> retry_resolved settled (r', w') m"
proof -
  consider "rpublisher r = None" "r' = r\<lparr>inUse := False\<rparr>"
    | p p' where "rpublisher r = Some p" "r' = r\<lparr>rpublisher := Some p', inUse := False\<rparr>"
        "map d_record (deliveries p') = map d_record (deliveries p)"
    using assms by (cases "rpublisher r") (auto simp: retry_Close_def dest: publisher_Close_records)
  note cases = this
  show "retry_ready (r', w')" if "retry_ready (r, w)"
    using cases that by cases (auto simp: retry_ready_def Let_def)
  show "retry_resolved settled (r', w') m" if "retry_resolved settled (r, w) m"
    using cases that by cases (auto simp: retry_resolved_None intro: retry_resolved_records)
qed

lemma Bind_retry_writer: "Bind (retry_topic_of name) p = Inr (wr, p') \<Longrightarrow> wr = bound_writer name"
  by (auto simp: Bind_def retry_topic_of_def topic_validate_def bound_writer_def split: if_splits)

lemma Initialize_ready:
  assumes "Initialize conv newProducer ic r = Some (err, r', p')" and "retry_ready (r, w)"
  shows "retry_ready (r', w')"
proof (cases "inUse r")
  case True
  with assms show ?thesis by (auto simp: Initialize_defs retry_ready_def)
next
  case False
  with assms show ?thesis
    by (auto simp: Initialize_defs retry_ready_def dest!: Bind_retry_writer split: sum.splits prod.splits)
qed

lemma stack_config_simps [simp]:
  "ErrorStrategy (stack_config P h bh c) = Some (stack_strategy P)"
  "Handler (stack_config P h bh c) = map_option (\<lambda>h msg pl. on_rest (h msg pl)) h"
  "BatchHandler (stack_config P h bh c) = map_option (\<lambda>bh b. on_rest (bh b)) bh"
  by (simp_all add: stack_config_def)

lemma retry_ready_SetLogger [simp]: "retry_ready (retry_SetLogger l r, w) = retry_ready (r, w)"
  by (simp add: retry_ready_def retry_SetLogger_def)

lemma wire_logger_stack [simp]:
  "wire_logger (stack_strategy P) l w = w\<lparr>w_retry := retry_SetLogger l (w_retry w)\<rparr>"
  by (simp add: wire_logger_def stack_strategy_def)

lemma stack_initialize:
  assumes "initialize_strategy (stack_config P h bh c) w = (None, w')" and "stack_ready w"
  shows "stack_ready w'"
proof -
  obtain ini cl where i: "st_Initializable (stack_strategy P) = Some (ini, cl)"
    and ini: "ini = (\<lambda>ic w. case Initialize (pl_conv P) (pl_newProducer P) ic (w_retry w) of
        None \<Rightarrow> (Some (Plain ''publish: topic name is empty''), w)
      | Some (err, r', p') \<Rightarrow>
          (err, w\<lparr>w_retry := r', w_producer := (case p' of None \<Rightarrow> w_producer w | Some p \<Rightarrow> p)\<rparr>))"
    by (simp add: stack_strategy_def)
  obtain err w1 where w1: "ini (init_config_of (stack_config P h bh c)) w = (err, w1)" by fastforce
  with assms(2) have "stack_ready w1"
    unfolding ini stack_ready_def by (auto split: option.splits prod.splits dest: Initialize_ready)
  with assms(1) w1 i show ?thesis
    by (auto simp: initialize_strategy_def stack_ready_def split: if_splits)
qed

lemma stack_close: "leaves stack_ready (stack_resolved P) w (close_strategy (stack_strategy P) w)"
  by (auto simp: close_strategy_def stack_strategy_def leaves_def stack_ready_def stack_resolved_def
      split: option.splits prod.splits dest: retry_Close_leaves)

interpretation stack: resolving_subscriber "stack_config P h bh c" stack_ready "stack_resolved P"
    "stack_env P" "stack_newConsumer P" for P h bh c
proof (unfold_locales, goal_cases)
  case (1 msgs f s r s')
  then show ?case
    using retry.stays_ready stack_HandleError unfolding stack_ready_def stack_config_simps option.sel by metis
next
  case (2 msgs f s s' m)
  then show ?case
    using retry.nil_resolves stack_HandleError
    unfolding stack_ready_def stack_resolved_def stack_config_simps option.sel by metis
next
  case (3 msgs f s r s' m)
  then show ?case
    using retry.stays_resolved stack_HandleError
    unfolding stack_ready_def stack_resolved_def stack_config_simps option.sel by metis
qed (auto simp: stack_env_def stack_newConsumer_def stack_initialize stack_close split: sum.split)

end
