(* ===== verification/Driver_Properties.thy ===== *)
theory Driver_Properties
  imports Publisher
begin

text \<open>
  What the publisher's configuration and its driver promise: the settings librdkafka is started
  with, which client errors fail the publisher and how a refusal reaches a sender, the outcome of
  waiting, and what a ping has checked.
\<close>

section \<open>Definitions of the statements\<close>

text \<open>A client configuration map with plain storage, and a client that refuses every record.\<close>

definition plain_SetKey :: set_key where
  "plain_SetKey k v m = Inr (map_set k v m)"

definition queue_full :: kfk_error where
  "queue_full = \<lparr>kfkCode = KfkQueueFull, kfkIsFatal = False, kfkText = ''Local: Queue full'',
     kfkCodeName = ''_QUEUE_FULL''\<rparr>"

text \<open>A context whose \<open>Err\<close> is what a wait that was cut short returned.\<close>

definition wait_ok :: "delivery \<times> wait_end \<times> sentinel option \<Rightarrow> bool" where
  "wait_ok x = (case x of (d, w, c) \<Rightarrow> snd (Wait d w) = None)"

text \<open>A fatal error of the client: flagged as one, or with the code a failed producer answers with.\<close>

definition is_fatal :: "kfk_error \<Rightarrow> bool" where
  "is_fatal k \<longleftrightarrow> kfkIsFatal k \<or> kfkCode k = KfkFatal"

text \<open>The error a publisher keeps for a fatal client error, and for the first one among some events.\<close>

definition fatal_error_of :: "verb_fmt \<Rightarrow> kfk_error \<Rightarrow> gerror" where
  "fatal_error_of quote k =
     (let e = KafkaErr (TranslateError quote (KfkErr k))
      in if errors_Is e ErrFatal then e else Errorf [W (SentinelErr ErrFatal), Txt '': '', W e])"

fun event_fatal :: "verb_fmt \<Rightarrow> kfk_event \<Rightarrow> gerror option" where
  "event_fatal quote (KError k) = (if is_fatal k then Some (fatal_error_of quote k) else None)"
| "event_fatal quote _ = None"

fun first_fatal :: "verb_fmt \<Rightarrow> kfk_event list \<Rightarrow> gerror option" where
  "first_fatal quote [] = None"
| "first_fatal quote (ev # evs) =
     (case event_fatal quote ev of Some e \<Rightarrow> Some e | None \<Rightarrow> first_fatal quote evs)"

section \<open>Lemmas\<close>

lemma plain_SetKey_stores: "SetKey_stores plain_SetKey"
  by (simp add: SetKey_stores_def plain_SetKey_def)

lemma config_inv_built:
  "build_config conv (map (Some \<circ> option_of) opts) = Inr built \<Longrightarrow>
     config_inv built \<and> config_validate conv built = None"
  by (auto simp: build_config_def split: sum.splits option.splits
      intro: apply_options_inv [OF config_inv_default])

lemma no_topic_prefix: "ManagedKeyReason k = None \<Longrightarrow> \<not> prefix ''{topic}.'' k"
  by (simp add: ManagedKeyReason_None)

lemma wait_all_prefix: "\<exists>more. wait_all ds fs = fs @ more"
proof (induction ds arbitrary: fs)
  case Nil
  then show ?case by simp
next
  case (Cons x ds)
  obtain d w c where x: "x = (d, w, c)" by (cases x)
  show ?case
  proof (cases "snd (Wait d w)")
    case None
    with Cons x show ?thesis by simp
  next
    case (Some err)
    from Cons.IH [of "fs @ [err]"] x Some show ?thesis by (cases c) auto
  qed
qed

lemma wait_all_nil: "wait_all ds fs = [] \<longleftrightarrow> fs = [] \<and> (\<forall>x\<in>set ds. wait_ok x)"
proof (induction ds arbitrary: fs)
  case Nil
  then show ?case by simp
next
  case (Cons x ds)
  obtain d w c where x: "x = (d, w, c)" by (cases x)
  show ?case
  proof (cases "snd (Wait d w)")
    case None
    with Cons x show ?thesis by (simp add: wait_ok_def)
  next
    case (Some err)
    obtain more where m: "wait_all ds (fs @ [err]) = (fs @ [err]) @ more" using wait_all_prefix by blast
    with x Some show ?thesis by (cases c) (auto simp: wait_ok_def)
  qed
qed

lemma TopicPartitions_described:
  assumes "TopicPartitions K quote limit (t # ts) h = (Inr parts, h')"
  obtains ds fs where "kp_DescribeTopics K limit (t # ts) (handle h) = (Inr ds, handle h')"
    "\<not> pclosed h" "collect_topics quote ds [] [] = (parts, [])"
  using assms
  by (auto simp: TopicPartitions_def split: if_splits prod.splits sum.splits list.splits)

lemma event_fatal_Some:
  "event_fatal quote ev = Some e \<longleftrightarrow> (\<exists>k. ev = KError k \<and> is_fatal k \<and> e = fatal_error_of quote k)"
  by (cases ev) auto

lemma event_fatal_None: "event_fatal quote ev = None \<longleftrightarrow> (\<forall>k. ev = KError k \<longrightarrow> \<not> is_fatal k)"
  by (cases ev) auto

lemma first_fatal_Some: "first_fatal quote evs \<noteq> None \<longleftrightarrow> (\<exists>k. KError k \<in> set evs \<and> is_fatal k)"
proof (induction evs)
  case Nil
  then show ?case by simp
next
  case (Cons ev evs)
  show ?case
  proof (cases "event_fatal quote ev")
    case None
    with Cons show ?thesis using event_fatal_None [of quote ev] by auto
  next
    case (Some e)
    then show ?thesis using event_fatal_Some [of quote ev e] by auto
  qed
qed

lemma first_fatal_split:
  "first_fatal quote evs = Some e \<Longrightarrow>
     \<exists>pre k post. evs = pre @ KError k # post \<and> is_fatal k \<and> (\<forall>k'. KError k' \<in> set pre \<longrightarrow> \<not> is_fatal k')
       \<and> e = fatal_error_of quote k"
proof (induction evs)
  case Nil
  then show ?case by simp
next
  case (Cons ev evs)
  show ?case
  proof (cases "event_fatal quote ev")
    case None
    with Cons obtain pre k post where "evs = pre @ KError k # post" "is_fatal k"
      "\<forall>k'. KError k' \<in> set pre \<longrightarrow> \<not> is_fatal k'" "e = fatal_error_of quote k" by auto
    with None show ?thesis
      by (intro exI [of _ "ev # pre"] exI [of _ k] exI [of _ post]) (auto simp: event_fatal_None)
  next
    case (Some x)
    then obtain k where k: "ev = KError k" "is_fatal k" "x = fatal_error_of quote k" by (auto simp: event_fatal_Some)
    with Some Cons.prems show ?thesis
      by (intro exI [of _ "[]"] exI [of _ k] exI [of _ evs]) simp
  qed
qed

lemma fatal_error_of_Is:
  "errors_Is (fatal_error_of quote k) ErrFatal"
  "errors_Is (KafkaErr (TranslateError quote (KfkErr k))) t \<Longrightarrow> errors_Is (fatal_error_of quote k) t"
  by (auto simp: fatal_error_of_def Let_def)

text \<open>One event: a report leaves the fatal error alone, a client error records the first.\<close>

lemma settle_fatal: "settle rep p = Some p' \<Longrightarrow> fatal p' = fatal p"
  by (auto simp: settle_def Let_def split: token.splits option.splits if_splits)

lemma client_error_recorded:
  "fatal (noteClientError (TranslateError quote (KfkErr k)) p) =
     (case fatal p of Some e \<Rightarrow> Some e | None \<Rightarrow> if is_fatal k then Some (fatal_error_of quote k) else None)"
proof -
  have "Fatal (TranslateError quote (KfkErr k)) = is_fatal k" by (simp add: TranslateError_def is_fatal_def Let_def)
  then show ?thesis
    by (auto simp: noteClientError_def noteFatal_def invokeFatalHandler_def fatal_error_of_def Let_def split: option.split)
qed

lemma fatal_after_event:
  assumes "TranslateEvent quote ev = Some x" and "handle_event x p = Some p'"
  shows "fatal p' = (case fatal p of Some e \<Rightarrow> Some e | None \<Rightarrow> event_fatal quote ev)"
proof (cases ev)
  case (KMessage m)
  with assms obtain rep where "settle rep p = Some p'" by (auto simp: TranslateEvent_def)
  from settle_fatal [OF this] KMessage show ?thesis by (simp split: option.split)
next
  case (KError k)
  with assms have "p' = noteClientError (TranslateError quote (KfkErr k)) p" by (auto simp: TranslateEvent_def)
  with KError show ?thesis by (simp add: client_error_recorded split: option.split)
qed (use assms(1) in \<open>simp_all add: TranslateEvent_def\<close>)

lemma untranslated_not_fatal: "TranslateEvent quote ev = None \<Longrightarrow> event_fatal quote ev = None"
  by (cases ev) (simp_all add: TranslateEvent_def)

lemma fatal_after_events:
  "readReports (translate quote evs) p = Some p' \<Longrightarrow>
     fatal p' = (case fatal p of Some e \<Rightarrow> Some e | None \<Rightarrow> first_fatal quote evs)"
proof (induction evs arbitrary: p)
  case Nil
  then show ?case by (simp add: translate_def List.map_filter_def split: option.split)
next
  case (Cons ev evs)
  show ?case
  proof (cases "TranslateEvent quote ev")
    case None
    then have "translate quote (ev # evs) = translate quote evs" by (simp add: translate_def List.map_filter_def)
    with Cons.IH [of p] Cons.prems untranslated_not_fatal [OF None] show ?thesis
      by (simp split: option.split)
  next
    case (Some x)
    then have t: "translate quote (ev # evs) = x # translate quote evs" by (simp add: translate_def List.map_filter_def)
    with Cons.prems obtain p1 where p1: "handle_event x p = Some p1" "readReports (translate quote evs) p1 = Some p'"
      by (auto split: option.splits)
    from Cons.IH [OF p1(2)] fatal_after_event [OF Some p1(1)] show ?thesis
      by (simp split: option.split)
  qed
qed

section \<open>Properties\<close>

text \<open>
  C27: whatever options \<open>New\<close> was given and whatever settings \<open>WithKafkaConfig\<close> passed on, librdkafka
  is started with exactly the brokers, acknowledgement level, idempotence, partitioner and message
  timeout of the options, with delivery reports on, and with every other setting as the caller gave
  it. Acknowledgement by the leader only never goes with idempotence, and the message timeout is a
  positive 32-bit number of milliseconds.
\<close>

theorem managed_settings_win:
  assumes "build_config conv (map (Some \<circ> option_of) opts) = Inr built" and "wf_map (kafkaConfig built)"
    and "SetKey_stores SetKey"
  shows "\<exists>m. ConfigMap SetKey (driverConfig built) = Inr m
    \<and> (\<forall>k. map_of m k = (case map_of (managed_settings (driverConfig built)) k of
          Some v \<Rightarrow> Some v | None \<Rightarrow> map_of (kafkaConfig built) k))
    \<and> map_of m ''acks'' = Some (VString (if acksLeader built then ''1'' else ''all''))
    \<and> map_of m ''enable.idempotence'' = Some (VBool (idempotence built))
    \<and> (acksLeader built \<longrightarrow> \<not> idempotence built)
    \<and> map_of m ''message.timeout.ms'' = Some (VInt (deliveryTimeout built div Millisecond))
    \<and> 1 \<le> deliveryTimeout built div Millisecond \<and> deliveryTimeout built div Millisecond < 2 ^ 31"
proof -
  have inv: "config_inv built" using config_inv_built [OF assms(1)] by blast
  then have nt: "\<forall>k\<in>fst ` set (KafkaConfig (driverConfig built)). \<not> prefix ''{topic}.'' k"
    by (auto simp: config_inv_def driverConfig_def dest: no_topic_prefix)
  have wf: "wf_map (KafkaConfig (driverConfig built))" using assms(2) by (simp add: driverConfig_def)
  obtain m where m: "ConfigMap SetKey (driverConfig built) = Inr m"
    "map_of m = map_of (KafkaConfig (driverConfig built)) ++ map_of (managed_settings (driverConfig built))"
    using ConfigMap_result [OF assms(3) wf nt] by blast
  have ms: "Millisecond \<le> deliveryTimeout built" "0 < Millisecond"
    using inv by (simp_all add: config_inv_def Millisecond_def)
  then have t: "go_div (deliveryTimeout built) Millisecond = deliveryTimeout built div Millisecond"
    by (simp add: go_div_nonneg)
  have t1: "1 \<le> deliveryTimeout built div Millisecond"
    using zdiv_mono1 [OF ms] ms(2) by simp
  have k: "map_of m k = (case map_of (managed_settings (driverConfig built)) k of
      Some v \<Rightarrow> Some v | None \<Rightarrow> map_of (kafkaConfig built) k)" for k
    by (simp add: m(2) map_add_def driverConfig_def)
  show ?thesis
    using m(1) inv t t1 k
    by (simp add: config_inv_def managed_settings_def driverConfig_def)
qed

theorem managed_settings_win_witness:
  "\<exists>m built. build_config (\<lambda>_. 0) (map (Some \<circ> option_of)
       [OBrokers [''b:9092''], OKafkaConfig (Some [(''linger.ms'', VInt 5)]), OAcksLeader]) = Inr built
     \<and> ConfigMap plain_SetKey (driverConfig built) = Inr m \<and> map_of m ''acks'' = Some (VString ''1'')
     \<and> map_of m ''linger.ms'' = Some (VInt 5)"
proof -
  have managed: "ManagedKeyReason ''linger.ms'' = None"
    by (simp add: ManagedKeyReason_def managedKafkaKeys_def managedKafkaKeyPrefixes_def)
  define built where "built = defaultConfig\<lparr>brokers := [''b:9092''],
      kafkaConfig := [(''linger.ms'', VInt 5)], acksLeader := True, idempotence := False\<rparr>"
  have b: "build_config (\<lambda>_. 0) (map (Some \<circ> option_of)
      [OBrokers [''b:9092''], OKafkaConfig (Some [(''linger.ms'', VInt 5)]), OAcksLeader]) = Inr built"
    using managed
    by (simp add: build_config_def WithBrokers_def WithKafkaConfig_def rejected_keys_def
        WithAcksLeader_def config_validate_def built_def defaultConfig_def List.map_filter_def Let_def)
  from managed_settings_win [OF b _ plain_SetKey_stores] b show ?thesis
    by (auto simp: built_def wf_map_def managed_settings_def)
qed


text \<open>
  C38: a fatal error of the client library always fails the publisher, and nothing else does. After any
  sequence of client events, as the driver translates them and the report goroutine reads them, \<open>Err\<close> of a
  publisher that had not failed is set exactly when one of them was a fatal client error; a failed record,
  whatever its code, does not fail the publisher. The error is that of the first such event: it matches
  \<open>ErrFatal\<close> also where the driver's translation carries another sentinel, as it does for the code of a
  timeout, a purge or a full queue, and still matches that sentinel; from then on every send is refused
  with it and \<open>Ping\<close> returns it without asking the cluster.
\<close>

theorem client_fatal_fails_publisher:
  assumes "readReports (translate quote evs) p = Some p'" and "fatal p = None"
  shows "(publisher_Err p' \<noteq> None \<longleftrightarrow> (\<exists>k. KError k \<in> set evs \<and> is_fatal k))
    \<and> (\<forall>e. publisher_Err p' = Some e \<longrightarrow>
         (\<exists>pre k post. evs = pre @ KError k # post \<and> is_fatal k \<and> (\<forall>k'. KError k' \<in> set pre \<longrightarrow> \<not> is_fatal k')
            \<and> errors_Is e ErrFatal
            \<and> (\<forall>t. errors_Is (KafkaErr (TranslateError quote (KfkErr k))) t \<longrightarrow> errors_Is e t))
         \<and> (\<not> closed p' \<longrightarrow> (\<exists>err. enqueue produce r p' w = (Inl err, p', w) \<and> errors_Is err ErrFatal))
         \<and> (\<exists>err. Ping parts deadline p' w = (Some err, w) \<and> errors_Is err ErrFatal))"
proof -
  have p': "publisher_Err p' = first_fatal quote evs"
    using fatal_after_events [OF assms(1)] assms(2) by (simp add: publisher_Err_def)
  have "\<exists>pre k post. evs = pre @ KError k # post \<and> is_fatal k \<and> (\<forall>k'. KError k' \<in> set pre \<longrightarrow> \<not> is_fatal k')
      \<and> errors_Is e ErrFatal \<and> (\<forall>t. errors_Is (KafkaErr (TranslateError quote (KfkErr k))) t \<longrightarrow> errors_Is e t)"
    if "publisher_Err p' = Some e" for e
    using first_fatal_split [OF that [unfolded p']] fatal_error_of_Is [of quote] by blast
  moreover from this have "errors_Is e ErrFatal" if "publisher_Err p' = Some e" for e using that by blast
  moreover have "publisher_Err p' \<noteq> None \<longleftrightarrow> (\<exists>k. KError k \<in> set evs \<and> is_fatal k)"
    unfolding p' by (rule first_fatal_Some)
  ultimately show ?thesis by (auto simp: enqueue_defs enqueue_err_def Ping_def publisher_Err_def)
qed

theorem client_fatal_fails_publisher_witness:
  "\<exists>p' e. readReports (translate (\<lambda>v s. s) [KError queue_full, KError (queue_full\<lparr>kfkIsFatal := True\<rparr>)])
       (new_publisher defaultConfig) = Some p'
     \<and> publisher_Err p' = Some e \<and> errors_Is e ErrFatal \<and> errors_Is e ErrQueueFull
     \<and> \<not> errors_Is (KafkaErr (TranslateError (\<lambda>v s. s) (KfkErr (queue_full\<lparr>kfkIsFatal := True\<rparr>)))) ErrFatal"
proof -
  let ?k = "queue_full\<lparr>kfkIsFatal := True\<rparr>" and ?q = "\<lambda>v s. s" and ?p = "new_publisher defaultConfig"
  obtain p' where p': "readReports (translate ?q [KError queue_full, KError ?k]) ?p = Some p'"
    by (simp add: translate_def List.map_filter_def TranslateEvent_def)
  have f: "is_fatal ?k" "\<not> is_fatal queue_full" by (simp_all add: is_fatal_def queue_full_def)
  have n: "fatal ?p = None" by (simp add: new_publisher_def)
  note T = client_fatal_fails_publisher [OF p' n]
  have "\<exists>k. KError k \<in> set [KError queue_full, KError ?k] \<and> is_fatal k" using f(1) by (intro exI [of _ ?k]) simp
  with conjunct1 [OF T] obtain e where e: "publisher_Err p' = Some e" by blast
  from conjunct1 [OF conjunct2 [OF T, rule_format, OF e]] obtain pre k post where
    k: "[KError queue_full, KError ?k] = pre @ KError k # post" "is_fatal k" "errors_Is e ErrFatal" "\<forall>t. errors_Is (KafkaErr (TranslateError ?q (KfkErr k))) t \<longrightarrow> errors_Is e t"
    by blast
  have "k = ?k" using k(1,2) f(2) by (auto simp: Cons_eq_append_conv)
  with k(4) have "errors_Is e ErrQueueFull" by (simp add: TranslateError_def queue_full_def)
  moreover have "\<not> errors_Is (KafkaErr (TranslateError ?q (KfkErr ?k))) ErrFatal"
    by (simp add: TranslateError_def queue_full_def)
  ultimately show ?thesis using p' e k(3) by blast
qed

text \<open>
  A sender told apart by \<open>errors.Is\<close> why its record was not taken: with a closed publisher it is
  \<open>ErrClosed\<close>, with a failed one \<open>ErrFatal\<close>, and when librdkafka's own queue is full \<open>ErrQueueFull\<close>;
  the record's topic is in the text of the last two. In none of these cases is a delivery returned.
\<close>

lemma send_refusals:
  assumes "fatal p = Some fe \<Longrightarrow> errors_Is fe ErrFatal" and "\<not> pclosed h"
    and "kp_Produce K (kfk_message_of r (DeliveryToken (length (deliveries p)))) (handle h) = (Some (KfkErr k), h')"
    and "kfkCode k = KfkQueueFull"
  shows "\<exists>e p' w'. enqueue (Produce K quote) r p h = (Inl e, p', w')
    \<and> (closed p \<longrightarrow> e = SentinelErr ErrClosed)
    \<and> (\<not> closed p \<and> fatal p = Some fe \<longrightarrow> errors_Is e ErrFatal)
    \<and> (\<not> closed p \<and> fatal p = None \<longrightarrow> errors_Is e ErrQueueFull)"
proof (cases "closed p \<or> fatal p \<noteq> None")
  case True
  with assms(1) show ?thesis by (auto simp: enqueue_defs enqueue_err_def)
next
  case False
  have "Sentinel (TranslateError quote (KfkErr k)) = Some ErrQueueFull"
    using assms(4) by (simp add: TranslateError_def Let_def)
  with False assms(2,3) show ?thesis by (simp add: enqueue_defs enqueue_err_def Produce_def Let_def)
qed

text \<open>
  A tombstone is written only on purpose. \<open>Send\<close> refuses a value that encodes to nil and
  otherwise hands on a record with a value; \<open>SendDelete\<close> hands on one without. Either way the
  record has the writer's topic, the encoded key, and the topic's headers before the caller's.
\<close>

lemma tombstone_only_by_delete:
  "(\<forall>i p' w'. Send produce wr key val headers p w = (Inr i, p', w') \<longrightarrow>
      (\<exists>k v. wEncodeKey wr key = Inr k \<and> wEncodeValue wr val = Inr (Some v)
         \<and> deliveries p' = deliveries p @ [newDelivery
             \<lparr>RTopic = wName wr, RKey = k, RValue = Some v, RHeaders = wHeaders wr @ headers\<rparr>]))
   \<and> (\<forall>i p' w'. SendDelete produce wr key headers p w = (Inr i, p', w') \<longrightarrow>
      (\<exists>k. wEncodeKey wr key = Inr k
         \<and> deliveries p' = deliveries p @ [newDelivery
             \<lparr>RTopic = wName wr, RKey = k, RValue = None, RHeaders = wHeaders wr @ headers\<rparr>]))
   \<and> (\<forall>k. wEncodeKey wr key = Inr k \<and> wEncodeValue wr val = Inr None \<longrightarrow>
      (\<exists>e. Send produce wr key val headers p w = (Inl e, p, w) \<and> errors_Is e ErrEncode))"
  by (auto simp: Send_def SendDelete_def writer_record_def enqueue_defs Let_def
      split: sum.splits option.splits if_splits prod.splits)

text \<open>
  \<open>WaitAll\<close> returns nil exactly when every record was acknowledged; a wait that was cut short
  by the context counts as not acknowledged. An outcome that is already known is returned whatever
  the context says.
\<close>

lemma wait_all_nil_iff_acknowledged:
  "(WaitAll ds = None \<longleftrightarrow> (\<forall>x\<in>set ds. case x of (d, w, c) \<Rightarrow> snd (Wait d w) = None))
   \<and> (\<forall>d w w'. d_done d \<longrightarrow> Wait d w = (d_result d, d_err d))"
proof -
  have "WaitAll ds = None \<longleftrightarrow> wait_all ds [] = []" by (simp add: WaitAll_def errors_Join_def)
  also have "\<dots> \<longleftrightarrow> (\<forall>x\<in>set ds. wait_ok x)" by (simp add: wait_all_nil)
  finally show ?thesis by (simp add: wait_ok_def [abs_def] Wait_def resolved_def)
qed

text \<open>
  When \<open>Ping\<close> through the driver succeeds on a publisher with bound topics, the publisher has
  not failed, the driver is open, and the cluster described every bound topic without an error, in
  one request bounded by the deadline of the caller's context or else by 5 s.
\<close>

lemma ping_checks_every_topic:
  assumes "Ping (TopicPartitions K quote) deadline p h = (None, h')" and "topics p \<noteq> []"
  shows "publisher_Err p = None \<and> \<not> pclosed h
    \<and> (\<exists>ds. kp_DescribeTopics K (case deadline of None \<Rightarrow> 5 * Second | Some d \<Rightarrow> d) (topics p) (handle h) = (Inr ds, handle h')
         \<and> (\<forall>t\<in>set (topics p). \<exists>d\<in>set ds. tdName d = t \<and> kfkCode (tdError d) = KfkNoError))"
proof -
  from assms(1) obtain parts where err: "publisher_Err p = None"
    and tp: "TopicPartitions K quote (case deadline of None \<Rightarrow> 5 * Second | Some d \<Rightarrow> d) (topics p) h = (Inr parts, h')"
    and found: "\<forall>t\<in>set (topics p). map_of parts t \<noteq> None"
    by (auto simp: Ping_def defaultPingTimeout_def Let_def filter_empty_conv split: option.splits prod.splits sum.splits if_splits)
  obtain t ts where ts: "topics p = t # ts" using assms(2) by (cases "topics p") auto
  obtain ds where ds: "kp_DescribeTopics K (case deadline of None \<Rightarrow> 5 * Second | Some d \<Rightarrow> d) (topics p) (handle h) = (Inr ds, handle h')"
    "\<not> pclosed h" "collect_topics quote ds [] [] = (parts, [])"
    using TopicPartitions_described [OF tp [unfolded ts]] ts by metis
  have "\<exists>d\<in>set ds. tdName d = u \<and> kfkCode (tdError d) = KfkNoError" if "u \<in> set (topics p)" for u
    using map_of_collect_topics [OF ds(3), of u] found that by auto
  with err ds show ?thesis by blast
qed

end
