(* ===== verification/Consumer_Properties.thy ===== *)
theory Consumer_Properties
  imports Subscriber_Stack Driver_Properties Publisher_Properties
begin

text \<open>
  What the subscribe driver promises the subscriber: the settings its client is started with,
  how a failed store is read, what a revocation does to buffered work, and when stored offsets
  are committed.
\<close>

section \<open>Definitions of the statements\<close>

text \<open>
  The error a call of the client's \<open>StoreOffsets\<close> reports: the first partition's error in the
  result, or the call's own.
\<close>

definition store_failure ::
  "(string \<times> int \<times> gerror option) list \<times> gerror option \<Rightarrow> gerror option" where
  "store_failure res =
     (case find (\<lambda>(t, p, e). e \<noteq> None) (fst res) of Some (t, p, e) \<Rightarrow> e | None \<Rightarrow> snd res)"

fun is_revoked :: "rebalance \<Rightarrow> bool" where
  "is_revoked (RevokedPartitions _) = True"
| "is_revoked (AssignedPartitions _) = False"

text \<open>A client that has lost its partition: every poll serves its revocation, every store fails.\<close>

definition not_assigned :: kfk_error where
  "not_assigned = \<lparr>kfkCode = KfkState, kfkIsFatal = False, kfkText = ''Local: Erroneous state'',
     kfkCodeName = ''_STATE''\<rparr>"

definition wit_client_ops :: "unit kfk_consumer" where
  "wit_client_ops =
     \<lparr>kc_SubscribeTopics = \<lambda>ts k. (None, k), kc_Poll = \<lambda>t k. (([RevokedPartitions [(''orders'', 0)]], None), k),
      kc_Assign = \<lambda>ps k. (None, k), kc_Unassign = \<lambda>k. (None, k),
      kc_StoreOffsets = \<lambda>os k. (([(''orders'', 0, Some (KfkErr not_assigned))], None), k),
      kc_Commit = \<lambda>k. (Inr 0, k), kc_Close = \<lambda>k. (([], None), k)\<rparr>"

definition wit_consumer :: "unit consumer" where
  "wit_consumer =
     \<lparr>kafkaConsumer = Some (), cconfig = [], cbrokers = [''b:9092''], ctopic = ''orders'', cgroupID = ''g'', klogger = Nop,
      autoCommit = False, brokerConnected = True, onRevoke = True, clog = []\<rparr>"

definition wit_stack :: "(unit, nat, unit) platform" where
  "wit_stack =
     \<lparr>pl_client = wit_client_ops, pl_newClient = \<lambda>m. Inr (), pl_SetKey = plain_SetKey, pl_newProducer = \<lambda>fac dc. Inr 0,
      pl_produce = \<lambda>r tok p. (None, p), pl_producer = idle_ops 0, pl_closeCtx = \<lambda>d. countdown, pl_closeFuel = 3,
      pl_conv = \<lambda>_. 0, pl_floats = exact_ops, pl_ticks = \<lambda>x. wit_tick, pl_settled = wit_settled None,
      pl_Done = \<lambda>w. False, pl_Now = \<lambda>x. (0, x), pl_order = \<lambda>m. m\<rparr>"

definition wit_stack_world :: "(unit, nat, unit) world" where
  "wit_stack_world = \<lparr>w_driver = wit_consumer, w_retry = wit_retry, w_producer = 0, w_rest = ()\<rparr>"

definition wit_stack_config :: "(unit, nat, unit) world sconfig" where
  "wit_stack_config = zero_config\<lparr>PollTimeout := 100 * Millisecond\<rparr>"

definition wit_buffer :: buffer where
  "wit_buffer = \<lparr>messages = [script_message 0 1], batchSize = 9, timeout = Second, firstAdd = 0\<rparr>"

section \<open>Lemmas\<close>

subsection \<open>Settings\<close>

lemma pinned_settings_keys:
  "map fst (pinned_settings config) =
     [''bootstrap.servers'', ''group.id'', ''auto.offset.reset'', ''enable.auto.commit'']
     @ (if CommitInterval config > 0 then [''auto.commit.interval.ms''] else [])
     @ [''enable.auto.offset.store'', ''partition.assignment.strategy'', ''reconnect.backoff.ms'',
        ''reconnect.backoff.max.ms'']"
  by (simp add: pinned_settings_def Let_def)

lemma wf_pinned_settings: "wf_map (pinned_settings config)"
  unfolding wf_map_def pinned_settings_keys by simp

lemma pinned_settings_no_topic: "\<forall>k\<in>fst ` set (pinned_settings config). \<not> prefix ''{topic}.'' k"
  unfolding set_map [symmetric] pinned_settings_keys by simp

text \<open>The client starts with the pinned settings, overwritten by what the caller passed on.\<close>

lemma New_consumer_result:
  assumes "SetKey_stores SetKey" and "wf_map (CKafkaConfig config)"
    and "\<forall>k\<in>fst ` set (CKafkaConfig config). \<not> prefix ''{topic}.'' k"
    and "CBrokers config \<noteq> []" and "CTopic config \<noteq> []" and "CGroupID config \<noteq> []"
  shows "\<exists>d. New_consumer SetKey config = Inr d \<and> autoCommit d = (0 < CommitInterval config)
    \<and> map_of (cconfig d) = map_of (pinned_settings config) ++ map_of (CKafkaConfig config)"
  using assms(4-6)
  by (simp add: New_consumer_def set_keys_stores [OF assms(1,3)]
      set_keys_stores [OF assms(1) pinned_settings_no_topic] wf_fold_set map_of_fold_set
      map_of_rev_wf assms(2) wf_pinned_settings)

lemma sub_managed_unset:
  "\<forall>k\<in>fst ` set m. map_of sub_managedKafkaKeys k = None \<Longrightarrow>
     map_of sub_managedKafkaKeys k \<noteq> None \<Longrightarrow> map_of m k = None"
  by (metis map_of_eq_None_iff)

lemma sub_managed_keys:
  "map_of sub_managedKafkaKeys ''bootstrap.servers'' \<noteq> None" "map_of sub_managedKafkaKeys ''group.id'' \<noteq> None"
  "map_of sub_managedKafkaKeys ''enable.auto.commit'' \<noteq> None"
  "map_of sub_managedKafkaKeys ''auto.commit.interval.ms'' \<noteq> None"
  "map_of sub_managedKafkaKeys ''enable.auto.offset.store'' \<noteq> None"
  "map_of sub_managedKafkaKeys ''partition.assignment.strategy'' \<noteq> None"
  by (simp_all add: sub_managedKafkaKeys_def)

text \<open>The client of a subscriber \<open>New\<close> accepted: a managed key has its pinned value, any other the caller's.\<close>

lemma subscriber_settings:
  assumes "sub_New skip (map sub_option_of opts) = Inr c" and "SKafkaConfig c = Some m" and "wf_map m"
    and "\<forall>k\<in>fst ` set m. \<not> prefix ''{topic}.'' k" and "SetKey_stores SetKey"
  obtains d :: "'k consumer" where "New_consumer SetKey (sub_driverConfig c) = Inr d"
    "autoCommit d = (0 < AutoCommitEvery c)"
    "map_of (cconfig d) = map_of (pinned_settings (sub_driverConfig c)) ++ map_of m"
    "\<And>k. map_of sub_managedKafkaKeys k \<noteq> None \<Longrightarrow>
       map_of (cconfig d) k = map_of (pinned_settings (sub_driverConfig c)) k"
proof -
  have R: "STopic c \<noteq> []" "SBrokers c \<noteq> []" "ConsumerGroup c \<noteq> []"
    and um: "\<forall>k\<in>fst ` set m. map_of sub_managedKafkaKeys k = None"
    using sub_New_ready [OF assms(1)] assms(2) by (auto simp: sconfig_inv_def)
  obtain d :: "'k consumer" where d: "New_consumer SetKey (sub_driverConfig c) = Inr d" "autoCommit d = (0 < AutoCommitEvery c)"
    "map_of (cconfig d) = map_of (pinned_settings (sub_driverConfig c)) ++ map_of m"
    using New_consumer_result [OF assms(5), of "sub_driverConfig c"] assms(2-4) R by (auto simp: sub_driverConfig_def)
  have "map_of (cconfig d) k = map_of (pinned_settings (sub_driverConfig c)) k"
    if "map_of sub_managedKafkaKeys k \<noteq> None" for k
    using sub_managed_unset [OF um that] by (simp add: d(3) map_add_def)
  with d show thesis by (rule that)
qed

lemma apply_sub_options_snoc:
  "apply_sub_options (opts @ [opt]) c =
     (case apply_sub_options opts c of Inl err \<Rightarrow> Inl err | Inr c' \<Rightarrow> apply_sub_options [opt] c')"
  by (induction opts arbitrary: c) (auto split: sum.split)

text \<open>A positive interval can be added to any options \<open>New\<close> accepts.\<close>

lemma sub_New_auto_commit:
  assumes "sub_New skip (map sub_option_of opts) = Inr c" and "0 < i"
  shows "sub_New skip (map sub_option_of (opts @ [SoAutoCommit i])) = Inr (c\<lparr>AutoCommitEvery := i\<rparr>)"
proof -
  obtain c0 where c0: "apply_sub_options (map sub_option_of opts) zero_config = Inr c0" "Validate c0 = None"
    "c = ApplyDefaults skip c0"
    using assms(1) by (auto simp: sub_New_def split: sum.splits option.splits)
  have "Validate (c0\<lparr>AutoCommitEvery := i\<rparr>) = Validate c0" by (simp add: Validate_def)
  moreover have "ApplyDefaults skip (c0\<lparr>AutoCommitEvery := i\<rparr>) = (ApplyDefaults skip c0)\<lparr>AutoCommitEvery := i\<rparr>"
    by (cases "PollTimeout c0 = 0"; cases "ErrorStrategy c0"; cases "SKafkaConfig c0"; cases "SNewConsumer c0")
      (simp_all add: ApplyDefaults_def)
  ultimately show ?thesis
    using c0 assms(2) by (simp add: sub_New_def apply_sub_options_snoc WithAutoCommitEvery_def)
qed

subsection \<open>Stores\<close>

lemma StoreOffset_result:
  assumes "kafkaConsumer d = Some k" and "kc_StoreOffsets K [(t, p, wrap64 (off + 1))] k = (res, k')"
  shows "\<exists>t' p'. StoreOffset K t p off d =
    (map_option (\<lambda>e. classifyStoreErr e t' p') (store_failure res), d\<lparr>kafkaConsumer := Some k'\<rparr>)"
proof (cases "find (\<lambda>(t, p, e). e \<noteq> None) (fst res)")
  case None
  with assms show ?thesis by (cases res) (auto simp: StoreOffset_def store_failure_def)
next
  case (Some x)
  obtain t' p' e where x: "x = (t', p', e)" by (cases x)
  from find_Some_set [OF Some] x obtain e' where "e = Some e'" by auto
  with assms Some x show ?thesis by (cases res) (auto simp: StoreOffset_def store_failure_def)
qed

lemma classify_revoked:
  "errors_Is (classifyStoreErr e t p) ErrPartitionRevoked \<longleftrightarrow> isNotAssigned e \<or> errors_Is e ErrPartitionRevoked"
  by (simp add: classifyStoreErr_def)

lemma classify_wraps: "\<not> isNotAssigned e \<Longrightarrow> errors_Is (classifyStoreErr e t p) x \<longleftrightarrow> errors_Is e x"
  by (simp add: classifyStoreErr_def)

subsection \<open>Rebalances\<close>

lemma rebalance_state:
  assumes "rebalanceCallback K ev d = ((err, h), d')" and "kafkaConsumer d \<noteq> None"
  shows "kafkaConsumer d' \<noteq> None \<and> onRevoke d' = onRevoke d
    \<and> h = (if is_revoked ev \<and> onRevoke d then 1 else 0)"
  using assms
  by (cases ev) (auto simp: rebalanceCallback_def CommitStored_def clog_add_def Let_def
      split: prod.splits sum.splits option.splits if_splits)

lemma serve_rebalances_hooks:
  assumes "serve_rebalances K evs d = (hs, d')" and "kafkaConsumer d \<noteq> None" and "onRevoke d"
  shows "hs = length (filter is_revoked evs)"
  using assms
proof (induction evs arbitrary: d hs d')
  case Nil
  then show ?case by simp
next
  case (Cons ev evs)
  obtain err h d1 where r: "rebalanceCallback K ev d = ((err, h), d1)" by (metis surj_pair)
  obtain hs1 d2 where s: "serve_rebalances K evs d1 = (hs1, d2)" by fastforce
  from rebalance_state [OF r Cons.prems(2)] Cons.prems(3) have
    "kafkaConsumer d1 \<noteq> None" "onRevoke d1" "h = (if is_revoked ev then 1 else 0)" by simp_all
  with Cons.IH [OF s] Cons.prems(1) r s show ?case by auto
qed

lemma revoke_hooks_held:
  assumes "0 < n" and "sbuf s = Some b"
  shows "held ((revoke_hook ^^ n) s) = [] \<and> TDropped (messages b) \<in> set (trace ((revoke_hook ^^ n) s))
    \<and> sbuf ((revoke_hook ^^ n) s) \<noteq> None"
proof -
  obtain m where m: "n = Suc m" using assms(1) by (cases n) auto
  have "TDropped (messages b) \<in> set (trace (revoke_hook s))"
    using revoke_hook_inv [of s] assms(2) by (simp add: held_def)
  then have "TDropped (messages b) \<in> set (trace ((revoke_hook ^^ n) s))"
    using revoke_hooks_quiet [of m "revoke_hook s"] unfolding m funpow_Suc_right comp_def by auto
  moreover have "sbuf ((revoke_hook ^^ k) s) \<noteq> None" for k
    by (induction k) (simp_all add: assms(2) revoke_hook_inv)
  moreover have "held ((revoke_hook ^^ n) s) = []" using m revoke_hook_inv [of "(revoke_hook ^^ m) s"] by simp
  ultimately show ?thesis by simp
qed

section \<open>Properties\<close>

text \<open>
  C20: whatever options the subscriber was built with and whatever settings \<open>WithKafkaConfig\<close> passed
  on, its client is started with the brokers and the group of the options, with its own offset
  storing off, with an eager assignment strategy, and with background commits on exactly when an
  interval was asked for. Every other setting is the caller's where one was given. Keys that begin with
  \<open>{topic}.\<close> are left out: the client library stores those under another name.
\<close>

theorem consumer_settings_pinned:
  assumes "sub_New skip (map sub_option_of opts) = Inr c" and "SKafkaConfig c = Some m" and "wf_map m"
    and "\<forall>k\<in>fst ` set m. \<not> prefix ''{topic}.'' k" and "SetKey_stores SetKey"
  shows "\<exists>d :: 'k consumer. New_consumer SetKey (sub_driverConfig c) = Inr d
    \<and> map_of (cconfig d) ''bootstrap.servers'' = Some (VString (join_with '','' (SBrokers c)))
    \<and> map_of (cconfig d) ''group.id'' = Some (VString (ConsumerGroup c))
    \<and> map_of (cconfig d) ''enable.auto.offset.store'' = Some (VBool False)
    \<and> map_of (cconfig d) ''partition.assignment.strategy'' = Some (VString ''range,roundrobin'')
    \<and> map_of (cconfig d) ''enable.auto.commit'' = Some (VBool (0 < AutoCommitEvery c))
    \<and> autoCommit d = (0 < AutoCommitEvery c)
    \<and> (\<forall>k v. map_of m k = Some v \<longrightarrow> map_of (cconfig d) k = Some v)"
proof -
  obtain d :: "'k consumer" where d: "New_consumer SetKey (sub_driverConfig c) = Inr d"
    "autoCommit d = (0 < AutoCommitEvery c)"
    "map_of (cconfig d) = map_of (pinned_settings (sub_driverConfig c)) ++ map_of m"
    and K: "\<And>k. map_of sub_managedKafkaKeys k \<noteq> None \<Longrightarrow>
      map_of (cconfig d) k = map_of (pinned_settings (sub_driverConfig c)) k"
    by (rule subscriber_settings [OF assms]) blast
  show ?thesis
    using d sub_managed_keys [THEN K]
    by (intro exI [of _ d]) (simp add: pinned_settings_def Let_def sub_driverConfig_def)
qed

theorem consumer_settings_pinned_witness:
  "\<exists>c d. sub_New (\<lambda>_. script_skip) (map sub_option_of [SoTopic ''orders'', SoBrokers [''b:9092''], SoGroup ''g'',
       SoHandler (Some (\<lambda>m pl w. (HReturn None, w))), SoKafkaConfig (Some [(''fetch.min.bytes'', VInt 9)])]) = Inr c
     \<and> New_consumer plain_SetKey (sub_driverConfig c) = Inr d
     \<and> map_of (cconfig d) ''enable.auto.offset.store'' = Some (VBool False)
     \<and> map_of (cconfig d) ''fetch.min.bytes'' = Some (VInt 9)"
proof -
  let ?opts = "[SoTopic ''orders'', SoBrokers [''b:9092''], SoGroup ''g'',
       SoHandler (Some (\<lambda>m pl w. (HReturn None, w))), SoKafkaConfig (Some [(''fetch.min.bytes'', VInt 9)])]"
  obtain c where c: "sub_New (\<lambda>_. script_skip) (map sub_option_of ?opts) = Inr c"
      "SKafkaConfig c = Some [(''fetch.min.bytes'', VInt 9)]"
    by (simp add: sub_New_def sub_option_defs zero_config_def Validate_def Let_def sub_WithKafkaConfig_def
        sub_managedKafkaKeys_def ApplyDefaults_def)
  from consumer_settings_pinned [OF c _ _ plain_SetKey_stores] c(1) show ?thesis
    by (force simp: wf_map_def)
qed

text \<open>
  C23: losing a partition between processing and storing does not stop the subscriber, and any other
  failure to store does. The driver asks the client to store the offset after the message's, once;
  the turn goes on when the client stored it or reported the partition as no longer assigned, and
  ends the loop otherwise, with an error that wraps the client's.
\<close>

theorem revoked_store_goes_on:
  assumes "kafkaConsumer (w_driver w) = Some k" and "is_int64 (Offset msg + 1)"
    and "kc_StoreOffsets (pl_client P) [(Topic msg, Partition msg, Offset msg + 1)] k = (res, k')"
    and "\<forall>e. store_failure res = Some e \<longrightarrow> \<not> errors_Is e ErrPartitionRevoked"
    and "finish_message (stack_env P) msg s w = (err, s', w')"
  shows "(err = None \<longleftrightarrow> (\<forall>e. store_failure res = Some e \<longrightarrow> isNotAssigned e))
    \<and> sstate s' = (if err = None then sstate s else Stopping)
    \<and> (\<forall>e x t. store_failure res = Some e \<longrightarrow> err = Some x \<longrightarrow> errors_Is e t \<longrightarrow> errors_Is x t)"
proof -
  have "kc_StoreOffsets (pl_client P) [(Topic msg, Partition msg, wrap64 (Offset msg + 1))] k = (res, k')"
    using assms(2,3) by (simp add: wrap64_id)
  from StoreOffset_result [OF assms(1) this] obtain t p where
    "StoreOffset (pl_client P) (Topic msg) (Partition msg) (Offset msg) (w_driver w) =
      (map_option (\<lambda>e. classifyStoreErr e t p) (store_failure res), (w_driver w)\<lparr>kafkaConsumer := Some k'\<rparr>)"
    by blast
  then have
    st: "store_offset (cons (stack_env P)) (Topic msg) (Partition msg) (Offset msg) s w =
      (let e = map_option (\<lambda>e. classifyStoreErr e t p) (store_failure res)
       in (e, ghost (TStore (Topic msg) (Partition msg) (Offset msg) e) s,
           w\<lparr>w_driver := (w_driver w)\<lparr>kafkaConsumer := Some k'\<rparr>\<rparr>))"
    by (simp add: store_offset_def stack_env_def on_driver_def Let_def)
  show ?thesis
  proof (cases "store_failure res")
    case None
    with st assms(5) show ?thesis
      by (auto simp: finish_message_def maybe_commit_def Let_def split: prod.splits if_splits)
  next
    case (Some e)
    with assms(4) have "errors_Is (classifyStoreErr e t p) ErrPartitionRevoked \<longleftrightarrow> isNotAssigned e"
      by (simp add: classify_revoked)
    with Some st assms(5) show ?thesis
      by (auto simp: finish_message_def stop_with_def Let_def classify_wraps split: if_splits)
  qed
qed

theorem revoked_store_goes_on_witness:
  "fst (finish_message (stack_env wit_stack) (script_message 0 1) new_subscriber wit_stack_world) = None"
proof -
  obtain err s' w' where f: "finish_message (stack_env wit_stack) (script_message 0 1) new_subscriber wit_stack_world
      = (err, s', w')" by (metis prod_cases3)
  have "store_failure ([(''orders'', 0, Some (KfkErr not_assigned))], None) = Some (KfkErr not_assigned)"
    "isNotAssigned (KfkErr not_assigned)" "\<not> errors_Is (KfkErr not_assigned) ErrPartitionRevoked"
    by (simp_all add: store_failure_def isNotAssigned_def not_assigned_def)
  with revoked_store_goes_on [of wit_stack_world "()" "script_message 0 1" wit_stack
      "([(''orders'', 0, Some (KfkErr not_assigned))], None)" "()", OF _ _ _ _ f] f show ?thesis
    by (simp add: wit_stack_world_def wit_stack_def wit_client_ops_def script_message_def wit_consumer_def is_int64_def)
qed

text \<open>
  C19: work buffered for a revoked partition is never handled. When the client serves a revocation
  during a poll of a subscriber in batch mode, the buffer is empty after the poll, and what it held
  is recorded as dropped; only the message this poll itself returned can join the next batch.
\<close>

theorem revocation_empties_the_buffer:
  assumes "poll (stack_env P) c s w = (r, s', w')" and "kafkaConsumer (w_driver w) = Some k"
    and "onRevoke (w_driver w)" and "kc_Poll (pl_client P) (pollTimeoutMs c) k = ((rebs, ev), k')"
    and "RevokedPartitions ps \<in> set rebs" and "sbuf s = Some b"
  shows "held s' = [] \<and> TDropped (messages b) \<in> set (trace s') \<and> sbuf s' \<noteq> None"
proof -
  obtain hs d' where sr: "serve_rebalances (pl_client P) rebs ((w_driver w)\<lparr>kafkaConsumer := Some k'\<rparr>) = (hs, d')"
    by fastforce
  have "filter is_revoked rebs \<noteq> []" using assms(5) by (metis filter_empty_conv is_revoked.simps(1))
  with serve_rebalances_hooks [OF sr] assms(3) have hs: "0 < hs" by simp
  have "fst (fst (driver_Poll (pl_client P) (pollTimeoutMs c) (w_driver w))) = hs"
    using assms(2,4) sr by (cases ev) (simp_all add: driver_Poll_def split: prod.split)
  then obtain q d'' where "driver_Poll (pl_client P) (pollTimeoutMs c) (w_driver w) = ((hs, q), d'')"
    by (metis prod.collapse)
  then have "s' = (case q of Inr (Some m) \<Rightarrow> ghost (TPolled m) ((revoke_hook ^^ hs) s) | _ \<Rightarrow> (revoke_hook ^^ hs) s)"
    using assms(1) by (auto simp: poll_def stack_env_def on_driver_def Let_def)
  then consider "s' = (revoke_hook ^^ hs) s" | m where "s' = ghost (TPolled m) ((revoke_hook ^^ hs) s)"
    by (auto split: sum.splits option.splits)
  then show ?thesis using revoke_hooks_held [OF hs assms(6)] by cases (simp_all add: held_def)
qed

theorem revocation_empties_the_buffer_witness:
  "held (fst (snd (poll (stack_env wit_stack) wit_stack_config
       (new_subscriber\<lparr>sbuf := Some wit_buffer\<rparr>) wit_stack_world))) = []"
proof -
  obtain r s' w' where p: "poll (stack_env wit_stack) wit_stack_config
      (new_subscriber\<lparr>sbuf := Some wit_buffer\<rparr>) wit_stack_world = (r, s', w')" by (metis prod_cases3)
  from revocation_empties_the_buffer [OF p, of "()" "[RevokedPartitions [(''orders'', 0)]]" None "()"] p
  show ?thesis by (simp add: wit_stack_world_def wit_stack_def wit_client_ops_def wit_consumer_def)
qed

text \<open>
  C40: an auto-commit interval reaches the client in whole milliseconds, so one below a millisecond reaches
  it as 0. Whatever options the subscriber was built with, \<open>WithAutoCommitEvery\<close> accepts every positive
  interval on top of them; the client is then started with background commits on and with the interval
  cut to milliseconds, which no setting of the caller replaces, and the driver leaves every commit after
  a message or batch to the client. Keys that begin with \<open>{topic}.\<close> are left out as in the settings above.
\<close>

theorem commit_interval_cut_to_milliseconds:
  assumes "sub_New skip (map sub_option_of opts) = Inr c" and "SKafkaConfig c = Some m" and "wf_map m"
    and "\<forall>k\<in>fst ` set m. \<not> prefix ''{topic}.'' k" and "SetKey_stores SetKey" and "0 < i"
  shows "\<exists>c' (d :: 'k consumer). sub_New skip (map sub_option_of (opts @ [SoAutoCommit i])) = Inr c'
    \<and> New_consumer SetKey (sub_driverConfig c') = Inr d
    \<and> map_of (cconfig d) ''enable.auto.commit'' = Some (VBool True)
    \<and> map_of (cconfig d) ''auto.commit.interval.ms'' = Some (VInt (i div Millisecond))
    \<and> (i div Millisecond = 0 \<longleftrightarrow> i < Millisecond)
    \<and> (\<forall>K d'. autoCommit d' = autoCommit d \<longrightarrow> MaybeCommitStored K d' = (None, d'))"
proof -
  let ?c = "c\<lparr>AutoCommitEvery := i\<rparr>"
  have new: "sub_New skip (map sub_option_of (opts @ [SoAutoCommit i])) = Inr ?c"
    using sub_New_auto_commit [OF assms(1,6)] .
  have m: "SKafkaConfig ?c = Some m" using assms(2) by simp
  obtain d :: "'k consumer" where d: "New_consumer SetKey (sub_driverConfig ?c) = Inr d"
    "autoCommit d = (0 < AutoCommitEvery ?c)"
    and K: "\<And>k. map_of sub_managedKafkaKeys k \<noteq> None \<Longrightarrow>
      map_of (cconfig d) k = map_of (pinned_settings (sub_driverConfig ?c)) k"
    by (rule subscriber_settings [OF new m assms(3-5)]) blast
  have "map_of (cconfig d) ''enable.auto.commit'' = Some (VBool True)
      \<and> map_of (cconfig d) ''auto.commit.interval.ms'' = Some (VInt (go_div i Millisecond))"
    using assms(6) sub_managed_keys(3,4) [THEN K] by (simp add: pinned_settings_def Let_def sub_driverConfig_def)
  moreover have "go_div i Millisecond = i div Millisecond" "i div Millisecond = 0 \<longleftrightarrow> i < Millisecond"
    using assms(6) by (auto simp: go_div_nonneg Millisecond_def)
  ultimately show ?thesis using new d assms(6)
    by (intro exI [of _ ?c] exI [of _ d]) (simp add: MaybeCommitStored_def)
qed

theorem commit_interval_cut_to_milliseconds_witness:
  "\<exists>c' (d :: unit consumer). sub_New (\<lambda>_. script_skip) (map sub_option_of [SoTopic ''orders'', SoBrokers [''b:9092''], SoGroup ''g'',
       SoHandler (Some (\<lambda>m pl w. (HReturn None, w))), SoAutoCommit 500000]) = Inr c'
     \<and> New_consumer plain_SetKey (sub_driverConfig c') = Inr d
     \<and> map_of (cconfig d) ''auto.commit.interval.ms'' = Some (VInt 0)"
proof -
  let ?opts = "[SoTopic ''orders'', SoBrokers [''b:9092''], SoGroup ''g'', SoHandler (Some (\<lambda>m pl w. (HReturn None, w)))]"
  obtain c where c: "sub_New (\<lambda>_. script_skip) (map sub_option_of ?opts) = Inr c" "SKafkaConfig c = Some []"
    by (simp add: sub_New_def sub_option_defs zero_config_def Validate_def Let_def ApplyDefaults_def)
  from commit_interval_cut_to_milliseconds [OF c _ _ plain_SetKey_stores, of 500000, where 'k = unit] show ?thesis
    by (auto simp: wf_map_def Millisecond_def)
qed

end
