(* ===== verification/Mode_Equivalence.thy ===== *)
theory Mode_Equivalence
  imports Subscriber_Properties
begin

text \<open>
  Single-message mode and batch mode agree where they overlap: a turn that handles one message does
  what dispatching a batch of that one message does, with the handler run on the batch's only item.
\<close>

section \<open>Definitions of the statements\<close>

text \<open>The batch handler that runs a handler on the first item and reports its failure on that item.\<close>

definition on_only_item :: "'w handler \<Rightarrow> 'w batch_handler" where
  "on_only_item h b w =
     (let m = item_Message (hd (Items b))
      in case h m (Payload m) w of
           (HReturn None, w') \<Rightarrow> (([], HReturn None), w')
         | (HReturn (Some f), w') \<Rightarrow> (([(0, f)], HReturn None), w')
         | (HPanic v, w') \<Rightarrow> (([], HPanic v), w'))"

section \<open>Lemmas\<close>

lemma map_order_single:
  assumes "mset (map_order E [x]) = mset [x]"
  shows "map_order E [x] = [x]"
  using assms by (metis mset_single_iff_right mset.simps)

lemma store_single:
  assumes "mset (map_order E [((Topic m, Partition m), Offset m)]) = mset [((Topic m, Partition m), Offset m)]"
    and "fst (co_StoreOffset (cons E) (Topic m) (Partition m) (Offset m) w) = None"
  shows "storeHighestOffsetPerPartition E [m] s w =
    store_offset (cons E) (Topic m) (Partition m) (Offset m) s w"
proof -
  obtain w' where "co_StoreOffset (cons E) (Topic m) (Partition m) (Offset m) w = (None, w')"
    using assms(2) by (metis prod.collapse)
  then show ?thesis
    using map_order_single [OF assms(1)]
    by (simp add: storeHighestOffsetPerPartition_def store_offset_def Let_def)
qed

text \<open>What follows once the message is accounted for.\<close>

lemma finish_single:
  assumes "mset (map_order E [((Topic m, Partition m), Offset m)]) = mset [((Topic m, Partition m), Offset m)]"
    and "fst (co_StoreOffset (cons E) (Topic m) (Partition m) (Offset m) w) = None"
  shows "finish_message E m s w =
    (let (fe, s3, w3) = storeHighestOffsetPerPartition E [m] s w;
         (s4, w4) = maybe_commit (cons E) s3 w3
     in (None, s4, w4))"
proof -
  obtain w' where "co_StoreOffset (cons E) (Topic m) (Partition m) (Offset m) w = (None, w')"
    using assms(2) by (metis prod.collapse)
  then show ?thesis
    by (simp add: store_single [OF assms] finish_message_def store_offset_def Let_def)
qed

lemma invoke_only_item:
  "invokeBatchHandler (on_only_item h) (NewBatchFromBuffer [m]) s w =
     (case dispatchMessage h m s w of
        (f, s', w') \<Rightarrow>
          (case fst (h m (Payload m) w) of HPanic v \<Rightarrow> f | HReturn _ \<Rightarrow> None,
           \<lparr>batch_items = [\<lparr>item_msg = m,
              item_failure = (case fst (h m (Payload m) w) of HPanic v \<Rightarrow> None | HReturn _ \<Rightarrow> f)\<rparr>]\<rparr>, s', w'))"
  by (auto simp: invokeBatchHandler_def on_only_item_def dispatchMessage_def NewBatchFromBuffer_def Items_def
      item_Message_def item_Fail_def Let_def split: prod.split handler_outcome.split option.split)

text \<open>Routing the batch of one: to the strategy when the message failed, accounted for otherwise.\<close>

lemma route_only_item:
  assumes "invokeBatchHandler (on_only_item h) (NewBatchFromBuffer [m]) s w = (whole, polled, s1, w1)"
    and "dispatchMessage h m s w = (f, s1', w1')"
  shows "s1' = s1 \<and> w1' = w1 \<and> routeBatchFailures st [m] polled whole s1 w1 =
    (case f of None \<Rightarrow> (None, ghost (TSucceeded [m]) s1, w1) | Some g \<Rightarrow> hand_to_strategy st [m] g s1 w1)"
proof (cases "fst (h m (Payload m) w)")
  case (HReturn g)
  with assms have "whole = None" "polled = \<lparr>batch_items = [\<lparr>item_msg = m, item_failure = f\<rparr>]\<rparr>" "s1' = s1" "w1' = w1"
    by (simp_all add: invoke_only_item)
  then show ?thesis
    by (cases f) (simp_all add: routeBatchFailures_def Items_def item_Message_def item_Failed_def
        split: prod.split option.split)
next
  case (HPanic v)
  with assms obtain g where "whole = f" "s1' = s1" "w1' = w1" "f = Some g"
    by (auto simp: invoke_only_item dispatchMessage_def split: prod.splits)
  then show ?thesis by (simp add: routeBatchFailures_def)
qed

section \<open>Properties\<close>

text \<open>
  C24: a turn of single-message mode that polls a message is the dispatch of a batch that holds only
  that message, ended by the same rule: same offset stored, same commit, same strategy calls, same
  log, same error and same state, whatever the handler does, panics included. It holds wherever the
  store succeeds; the modes differ in what they do after a store that failed.
\<close>

theorem single_is_batch_of_one:
  assumes "\<not> ctx_Done E w" and "co_Poll (cons E) (pollTimeoutMs c) w = ((0, Inr (Some msg)), w1)"
    and "Handler c = Some h" and "\<And>m. mset (map_order E m) = mset m"
    and "\<And>t p off w. fst (co_StoreOffset (cons E) t p off w) = None"
  shows "single_body E c s w =
    (case dispatchBatch E (c\<lparr>BatchHandler := Some (on_only_item h)\<rparr>) [msg] (ghost (TPolled msg) s) w1 of
       (Some err, s', w') \<Rightarrow> stop_with err s' w'
     | (None, s', w') \<Rightarrow> (None, s', w'))"
proof -
  let ?s = "ghost (TPolled msg) s" and ?st = "the (ErrorStrategy c)"
  have p: "poll E c s w = (Inr (Some msg), ?s, w1)" using assms(2) by (simp add: poll_def)
  obtain whole polled s2 w2 where
    i: "invokeBatchHandler (on_only_item h) (NewBatchFromBuffer [msg]) ?s w1 = (whole, polled, s2, w2)"
    by (metis prod_cases4)
  obtain f s2' w2' where d: "dispatchMessage h msg ?s w1 = (f, s2', w2')" by (metis prod_cases3)
  note R = route_only_item [OF i d, of ?st]
  obtain rerr s3 w3 where r: "routeBatchFailures ?st [msg] polled whole s2 w2 = (rerr, s3, w3)"
    by (metis prod_cases3)
  obtain e4 s4 w4 where o: "storeHighestOffsetPerPartition E [msg] s3 w3 = (e4, s4, w4)" by (metis prod_cases3)
  have "e4 = None"
    using o store_single [OF assms(4,5), of msg s3 w3] assms(5) [of "Topic msg" "Partition msg" "Offset msg" w3]
    by (auto simp: store_offset_def Let_def split: prod.splits)
  moreover note finish_single [OF assms(4,5), of msg s3 w3]
  ultimately have fin: "finish_message E msg s3 w3 = (let (s5, w5) = maybe_commit (cons E) s4 w4 in (None, s5, w5))"
    using o by simp
  have "single_body E c s w = (case rerr of
      Some err \<Rightarrow> stop_with (Errorf [Txt ''error strategy: '', W err]) (slog_add Error (Some StoppedByStrategy) s3) w3
    | None \<Rightarrow> finish_message E msg s3 w3)"
  proof -
    have "dispatchMessage h msg ?s w1 = (f, s2, w2)"
      "(case f of None \<Rightarrow> (None, ghost (TSucceeded [msg]) s2, w2) | Some g \<Rightarrow> hand_to_strategy ?st [msg] g s2 w2)
        = (rerr, s3, w3)" using d R r by simp_all
    with assms(1,3) p show ?thesis by (cases f) (auto simp: single_body_def)
  qed
  moreover have "dispatchBatch E (c\<lparr>BatchHandler := Some (on_only_item h)\<rparr>) [msg] ?s w1 = (case rerr of
      Some err \<Rightarrow> (Some (Errorf [Txt ''error strategy: '', W err]), slog_add Error (Some StoppedByStrategy) s3, w3)
    | None \<Rightarrow> finish_message E msg s3 w3)"
    using i r o \<open>e4 = None\<close> fin by (cases rerr) (auto simp: dispatchBatch_def)
  ultimately show ?thesis using fin by (cases rerr) (simp_all split: prod.split)
qed

theorem single_is_batch_of_one_witness:
  "single_body script_env (script_config ModeSingleMessage) new_subscriber script_world =
    (case dispatchBatch script_env ((script_config ModeSingleMessage)\<lparr>BatchHandler := Some (on_only_item
            (\<lambda>m pl w. (if Offset m = 1 then HPanic ''boom'' else HReturn None, w)))\<rparr>)
       [script_message 0 1] (ghost (TPolled (script_message 0 1)) new_subscriber)
       (script_world\<lparr>polls := tl (polls script_world)\<rparr>) of
       (Some err, s', w') \<Rightarrow> stop_with err s' w'
     | (None, s', w') \<Rightarrow> (None, s', w'))"
  by (rule single_is_batch_of_one)
    (simp_all add: script_env_def script_world_def script_consumer_def script_config_def)

end
