(* ===== verification/Public_Api.thy ===== *)
theory Public_Api
  imports Subscribe_Options
begin

text \<open>
  The functions the public packages re-export (\<open>subscribe/strategy.go\<close>, \<open>subscribe/handler.go\<close>).
  The constructors of the strategies are typed by the interface \<open>ErrorStrategy\<close>: an interface value
  is nil, or it holds a value of some type, and a nil pointer of that type is such a value. The
  aliases of types and the re-exported option constructors are the definitions they name.
\<close>

section \<open>Interface values\<close>

datatype 'a iface = NilInterface | HoldsPointer "'a option"

definition is_nil :: "'a iface \<Rightarrow> bool" where
  "is_nil v \<longleftrightarrow> (case v of NilInterface \<Rightarrow> True | HoldsPointer _ \<Rightarrow> False)"

section \<open>The re-exported functions\<close>

definition api_NewRetryStrategy :: "retry_option list \<Rightarrow> retry_strategy iface \<times> gerror option" where
  "api_NewRetryStrategy options =
     (case NewRetryStrategy options of
        Inl err \<Rightarrow> (HoldsPointer None, Some err)
      | Inr r \<Rightarrow> (HoldsPointer (Some r), None))"

definition api_NewSkipStrategy :: "logger \<Rightarrow> skip_strategy iface" where
  "api_NewSkipStrategy l = HoldsPointer (Some (NewSkipStrategy l))"

definition api_NewFailFastStrategy :: "fail_fast_strategy iface" where
  "api_NewFailFastStrategy = HoldsPointer (Some NewFailFastStrategy)"

definition api_NewBatch :: "message list \<Rightarrow> batch" where
  "api_NewBatch msgs = NewBatch msgs"

text \<open>The nil check of \<open>WithErrorStrategy\<close>, on the interface value it is given.\<close>

definition strategy_refused :: "'a iface \<Rightarrow> bool" where
  "strategy_refused v \<longleftrightarrow> is_nil v"

section \<open>Lemmas\<close>

text \<open>
  Along with an error comes an interface value that is not nil and holds no strategy: a caller who
  drops the error gets it past the check of \<open>WithErrorStrategy\<close>.
\<close>

lemma failed_retry_strategy_passes_nil_check:
  assumes "NewRetryStrategy options = Inl err"
  shows "api_NewRetryStrategy options = (HoldsPointer None, Some err)
    \<and> \<not> strategy_refused (fst (api_NewRetryStrategy options))"
  using assms by (simp add: api_NewRetryStrategy_def strategy_refused_def is_nil_def)

text \<open>A batch built for a test has the messages in order and no verdict yet.\<close>

lemma api_NewBatch_items:
  "map item_msg (Items (api_NewBatch msgs)) = msgs \<and> Len (api_NewBatch msgs) = length msgs
   \<and> (\<forall>item\<in>set (Items (api_NewBatch msgs)). item_Failed item = None)"
  by (auto simp: api_NewBatch_def NewBatch_def Items_def Len_def item_Failed_def comp_def)

end
