(* ===== verification/Playground_Script.thy ===== *)
theory Playground_Script
  imports Prelude
begin

text \<open>
  Playground payloads (\<open>examples/playground/internal/script/script.go\<close>): one outcome per delivery
  attempt, separated by slashes, such as \<open>ko/ko:step=2/ok\<close>. A payload is a list of bytes; what the
  parser uses of \<open>unicode/utf8\<close> and \<open>strings\<close> is written out.
\<close>

section \<open>UTF-8 and strings\<close>

definition byte :: "char \<Rightarrow> nat" where
  "byte c = of_char c"

definition cont :: "char \<Rightarrow> bool" where
  "cont c \<longleftrightarrow> 128 \<le> byte c \<and> byte c \<le> 191"

text \<open>\<open>utf8.Valid\<close>: the well-formed sequences, without overlong forms, surrogates and values past 10FFFF.\<close>

fun utf8_Valid :: "bytes \<Rightarrow> bool" where
  "utf8_Valid [] = True"
| "utf8_Valid (a # s) =
     (if byte a < 128 then utf8_Valid s
      else if byte a < 194 then False
      else if byte a < 224 then (case s of b # s' \<Rightarrow> cont b \<and> utf8_Valid s' | _ \<Rightarrow> False)
      else if byte a < 240 then
        (case s of
           b # c # s' \<Rightarrow>
             cont b \<and> cont c \<and> (byte a = 224 \<longrightarrow> 160 \<le> byte b) \<and> (byte a = 237 \<longrightarrow> byte b < 160) \<and> utf8_Valid s'
         | _ \<Rightarrow> False)
      else if byte a < 245 then
        (case s of
           b # c # d # s' \<Rightarrow>
             cont b \<and> cont c \<and> cont d \<and> (byte a = 240 \<longrightarrow> 144 \<le> byte b) \<and> (byte a = 244 \<longrightarrow> byte b < 144)
             \<and> utf8_Valid s'
         | _ \<Rightarrow> False)
      else False)"

text \<open>The encodings of the characters \<open>unicode.IsSpace\<close> names, which \<open>strings.TrimSpace\<close> cuts off.\<close>

definition white_spaces :: "bytes list" where
  "white_spaces =
     map (map char_of)
       ([[9], [10], [11], [12], [13], [32], [194, 133], [194, 160], [225, 154, 128]]
        @ map (\<lambda>n. [226, 128, n]) ([128..<139] @ [168, 169, 175])
        @ [[226, 129, 159], [227, 128, 128::nat]])"

fun trim_left :: "nat \<Rightarrow> bytes list \<Rightarrow> bytes \<Rightarrow> bytes" where
  "trim_left 0 ws s = s"
| "trim_left (Suc n) ws s =
     (case find (\<lambda>w. prefix w s) ws of None \<Rightarrow> s | Some w \<Rightarrow> trim_left n ws (drop (length w) s))"

definition TrimSpace :: "bytes \<Rightarrow> bytes" where
  "TrimSpace s =
     (let t = trim_left (length s) white_spaces s
      in rev (trim_left (length t) (map rev white_spaces) (rev t)))"

text \<open>\<open>strings.Cut\<close> and \<open>strings.Split\<close> (or \<open>SplitSeq\<close>) for a separator of one byte.\<close>

definition strings_Cut :: "char \<Rightarrow> string \<Rightarrow> string \<times> string \<times> bool" where
  "strings_Cut sep s =
     (if sep \<in> set s then (takeWhile (\<lambda>c. c \<noteq> sep) s, tl (dropWhile (\<lambda>c. c \<noteq> sep) s), True)
      else (s, [], False))"

fun strings_Split :: "char \<Rightarrow> string \<Rightarrow> string list" where
  "strings_Split sep [] = [[]]"
| "strings_Split sep (c # s) =
     (if c = sep then [] # strings_Split sep s
      else (case strings_Split sep s of t # ts \<Rightarrow> (c # t) # ts | [] \<Rightarrow> [[c]]))"

section \<open>Scripts\<close>

text \<open>A kind is a string; the package names six of them.\<close>

definition Ok :: string where "Ok = ''ok''"
definition Ko :: string where "Ko = ''ko''"
definition Perm :: string where "Perm = ''perm''"
definition PanicKind :: string where "PanicKind = ''panic''"
definition BatchKo :: string where "BatchKo = ''batchko''"
definition NilKind :: string where "NilKind = ''nil''"

lemmas kind_defs = Ok_def Ko_def Perm_def PanicKind_def BatchKo_def NilKind_def

record outcome =
  OKind :: string
  OStep :: int
  OCode :: string
  OToken :: string

fun parseModifiers :: "string list \<Rightarrow> outcome \<Rightarrow> gerror + outcome" where
  "parseModifiers [] o' = Inr o'"
| "parseModifiers (modifier # rest) o' =
     (case strings_Cut CHR ''='' modifier of
        (key, val, ok) \<Rightarrow>
          if \<not> ok \<or> val = []
          then Inl (Errorf [Txt ''modifier '', Quoted modifier, Txt '' is not key=value''])
          else if key = ''step'' then
            (case parse_int 32 val of
               None \<Rightarrow> Inl (Errorf [Txt ''step '', Quoted val, Txt '' is not a positive number''])
             | Some step \<Rightarrow>
                 if step < 1
                 then Inl (Errorf [Txt ''step '', Quoted val, Txt '' is not a positive number''])
                 else parseModifiers rest (o'\<lparr>OStep := step\<rparr>))
          else if key = ''code'' then parseModifiers rest (o'\<lparr>OCode := val\<rparr>)
          else Inl (Errorf [Txt ''unknown modifier '', Quoted key]))"

definition parseToken :: "string \<Rightarrow> gerror + outcome" where
  "parseToken token =
     (case strings_Cut CHR '':'' token of
        (name, modifiers, hasModifiers) \<Rightarrow>
          (let o' = \<lparr>OKind = name, OStep = 0, OCode = [], OToken = token\<rparr>
           in if name \<in> {Ok, PanicKind} then
                (if hasModifiers then Inl (Errorf [Quoted name, Txt '' takes no step or code'']) else Inr o')
              else if name \<in> {Ko, Perm, BatchKo, NilKind} then
                (if \<not> hasModifiers then Inr o' else parseModifiers (strings_Split CHR '','' modifiers) o')
              else Inl (Errorf [Txt ''unknown token '', Quoted name])))"

text \<open>The tokens in order, numbered from 1 in an error.\<close>

fun parse_tokens :: "nat \<Rightarrow> string list \<Rightarrow> gerror + outcome list" where
  "parse_tokens i [] = Inr []"
| "parse_tokens i (token # tokens) =
     (case parseToken token of
        Inl err \<Rightarrow> Inl (Errorf [Txt ''token '', Txt (itoa (int i + 1)), Txt '' '', Quoted token, Txt '': '', W err])
      | Inr o' \<Rightarrow> (case parse_tokens (Suc i) tokens of Inl err \<Rightarrow> Inl err | Inr os \<Rightarrow> Inr (o' # os)))"

text \<open>\<open>nil\<close> and an empty payload are the same to \<open>string(payload)\<close>.\<close>

definition script_Parse :: "slice \<Rightarrow> gerror + outcome list" where
  "script_Parse payload =
     (let bs = (case payload of None \<Rightarrow> [] | Some b \<Rightarrow> b)
      in if \<not> utf8_Valid bs then Inl (Plain ''payload is not valid UTF-8'')
         else let text = TrimSpace bs
              in if text = [] then Inl (Plain ''payload is empty'')
                 else parse_tokens 0 (strings_Split CHR ''/'' text))"

text \<open>Indexing: \<open>None\<close> is the panic of an index out of range.\<close>

definition script_At :: "outcome list \<Rightarrow> int \<Rightarrow> outcome option" where
  "script_At s attempt =
     (if attempt \<ge> int (length s) then (if s = [] then None else Some (last s))
      else if attempt < 0 then None else Some (s ! nat attempt))"

section \<open>Writing scripts\<close>

text \<open>The text a user types for an outcome, with its step and code where they are set.\<close>

fun join_on :: "char \<Rightarrow> string list \<Rightarrow> string" where
  "join_on sep [] = []"
| "join_on sep [t] = t"
| "join_on sep (t # ts) = t @ sep # join_on sep ts"

definition modifiers_of :: "int \<Rightarrow> string \<Rightarrow> string list" where
  "modifiers_of step code =
     (if step = 0 then [] else [''step='' @ itoa step]) @ (if code = [] then [] else [''code='' @ code])"

definition token_of :: "string \<Rightarrow> int \<Rightarrow> string \<Rightarrow> string" where
  "token_of kind step code =
     (if modifiers_of step code = [] then kind else kind @ CHR '':'' # join_on CHR '','' (modifiers_of step code))"

definition typed :: "outcome list \<Rightarrow> bytes" where
  "typed os = join_on CHR ''/'' (map OToken os)"

text \<open>Printable bytes other than the separators.\<close>

definition plain_char :: "char \<Rightarrow> bool" where
  "plain_char c \<longleftrightarrow> 33 \<le> byte c \<and> byte c \<le> 126 \<and> c \<noteq> CHR ''/'' \<and> c \<noteq> CHR '',''"

definition wf_outcome :: "outcome \<Rightarrow> bool" where
  "wf_outcome o' \<longleftrightarrow>
     OToken o' = token_of (OKind o') (OStep o') (OCode o')
     \<and> (OKind o' \<in> {Ok, PanicKind} \<and> OStep o' = 0 \<and> OCode o' = []
        \<or> OKind o' \<in> {Ko, Perm, BatchKo, NilKind} \<and> 0 \<le> OStep o' \<and> is_int32 (OStep o')
          \<and> list_all plain_char (OCode o'))"

section \<open>Lemmas\<close>

lemma utf8_Valid_ascii: "list_all (\<lambda>c. byte c < 128) s \<Longrightarrow> utf8_Valid s"
  by (induction s) auto

text \<open>No white space starts or ends with a printable byte.\<close>

lemma white_spaces_bytes:
  "w \<in> set white_spaces \<Longrightarrow> w \<noteq> [] \<and> \<not> (33 \<le> byte (hd w) \<and> byte (hd w) \<le> 126)
     \<and> \<not> (33 \<le> byte (last w) \<and> byte (last w) \<le> 126)"
proof -
  have "list_all (\<lambda>w. w \<noteq> [] \<and> \<not> (33 \<le> byte (hd w) \<and> byte (hd w) \<le> 126)
     \<and> \<not> (33 \<le> byte (last w) \<and> byte (last w) \<le> 126)) white_spaces"
    by code_simp
  then show "w \<in> set white_spaces \<Longrightarrow> ?thesis" unfolding list_all_iff by blast
qed

lemma trim_left_none: "\<forall>w\<in>set ws. \<not> prefix w s \<Longrightarrow> trim_left n ws s = s"
  by (cases n) (auto simp: find_None_iff split: option.split dest: find_Some_set)

lemma prefix_hd: "prefix w s \<Longrightarrow> w \<noteq> [] \<Longrightarrow> hd w = hd s"
  by (auto simp: prefix_def)

lemma TrimSpace_printable:
  assumes "s \<noteq> []" and "33 \<le> byte (hd s) \<and> byte (hd s) \<le> 126" and "33 \<le> byte (last s) \<and> byte (last s) \<le> 126"
  shows "TrimSpace s = s"
proof -
  have "\<not> prefix w s" "\<not> prefix (rev w) (rev s)" if "w \<in> set white_spaces" for w
    using prefix_hd [of w s] prefix_hd [of "rev w" "rev s"] white_spaces_bytes [OF that] assms
    by (auto simp: hd_rev)
  then have "trim_left (length s) white_spaces s = s"
    "trim_left (length s) (map rev white_spaces) (rev s) = rev s"
    by (auto intro!: trim_left_none)
  then show ?thesis by (simp add: TrimSpace_def)
qed

lemma strings_Cut_at: "sep \<notin> set a \<Longrightarrow> strings_Cut sep (a @ sep # b) = (a, b, True)"
  by (auto simp: strings_Cut_def takeWhile_append dropWhile_append)

lemma strings_Cut_none: "sep \<notin> set a \<Longrightarrow> strings_Cut sep a = (a, [], False)"
  by (simp add: strings_Cut_def)

lemma strings_Split_none: "sep \<notin> set t \<Longrightarrow> strings_Split sep t = [t]"
  by (induction t) auto

lemma strings_Split_append: "sep \<notin> set t \<Longrightarrow> strings_Split sep (t @ sep # s) = t # strings_Split sep s"
  by (induction t) auto

lemma strings_Split_join:
  "ts \<noteq> [] \<Longrightarrow> \<forall>t\<in>set ts. sep \<notin> set t \<Longrightarrow> strings_Split sep (join_on sep ts) = ts"
  by (induction sep ts rule: join_on.induct) (auto simp: strings_Split_none strings_Split_append)

lemma set_join_on: "set (join_on sep ts) \<subseteq> insert sep (\<Union> (set ` set ts))"
  by (induction sep ts rule: join_on.induct) auto

lemma nat_dec_digits: "c \<in> set (nat_dec n) \<Longrightarrow> 48 \<le> byte c \<and> byte c \<le> 57"
proof (induction n rule: nat_dec.induct)
  case (1 n)
  have d: "48 \<le> byte (digit_char k) \<and> byte (digit_char k) \<le> 57" if "k < 10" for k
    using that by (simp add: byte_def digit_char_def)
  show ?case
  proof (cases "n < 10")
    case True
    with 1 d show ?thesis by (subst (asm) nat_dec.simps) auto
  next
    case False
    with "1.prems" have "c \<in> set (nat_dec (n div 10)) \<or> c = digit_char (n mod 10)"
      by (subst (asm) nat_dec.simps) auto
    with "1.IH" [OF False] d show ?thesis by auto
  qed
qed

lemma itoa_plain: "0 \<le> i \<Longrightarrow> c \<in> set (itoa i) \<Longrightarrow> plain_char c"
  using nat_dec_digits [of c "nat i"] by (auto simp: itoa_def plain_char_def byte_def)

lemma kinds_plain: "k \<in> {Ok, PanicKind, Ko, Perm, BatchKo, NilKind} \<Longrightarrow> c \<in> set k \<Longrightarrow> plain_char c \<and> c \<noteq> CHR '':''"
  by (auto simp: kind_defs plain_char_def byte_def)

lemma parseModifiers_of:
  assumes "0 \<le> step" and "is_int32 step" and "OStep o' = 0" and "OCode o' = []"
  shows "parseModifiers (modifiers_of step code) o' = Inr (o'\<lparr>OStep := step, OCode := code\<rparr>)"
proof -
  have cut: "strings_Cut CHR ''='' (''step='' @ v) = (''step'', v, True)"
    "strings_Cut CHR ''='' (''code='' @ v) = (''code'', v, True)" for v
    using strings_Cut_at [of "CHR ''=''" "''step''" v] strings_Cut_at [of "CHR ''=''" "''code''" v] by simp_all
  have "parse_int 32 (itoa step) = Some step" using assms(2) by (intro parse_int_itoa) (simp_all add: is_int32_def)
  with assms cut show ?thesis by (auto simp: modifiers_of_def)
qed

lemma modifiers_chars:
  assumes "0 \<le> step" and "list_all plain_char code" and "t \<in> set (modifiers_of step code)" and "c \<in> set t"
  shows "plain_char c"
proof -
  have "plain_char c" if "c \<in> set ''step='' \<or> c \<in> set ''code=''" for c
    using that by (auto simp: plain_char_def byte_def)
  with assms itoa_plain show ?thesis by (auto simp: modifiers_of_def list_all_iff split: if_splits)
qed

lemma token_chars:
  assumes "wf_outcome o'" and "c \<in> set (OToken o')"
  shows "33 \<le> byte c \<and> byte c \<le> 126 \<and> c \<noteq> CHR ''/''"
proof -
  have kind: "plain_char c" if "c \<in> set (OKind o')"
    using assms(1) that kinds_plain [of "OKind o'" c] by (auto simp: wf_outcome_def)
  have mods: "plain_char c" if "t \<in> set (modifiers_of (OStep o') (OCode o'))" "c \<in> set t" for t
    using assms(1) that modifiers_chars [of "OStep o'" "OCode o'" t c] by (auto simp: wf_outcome_def modifiers_of_def)
  have "c \<in> set (OKind o') \<or> c = CHR '':'' \<or> c = CHR '','' \<or> (\<exists>t\<in>set (modifiers_of (OStep o') (OCode o')). c \<in> set t)"
    using assms set_join_on [of "CHR '',''" "modifiers_of (OStep o') (OCode o')"]
    by (auto simp: wf_outcome_def token_of_def split: if_splits)
  with kind mods show ?thesis by (auto simp: plain_char_def byte_def)
qed

lemma token_not_Nil: "wf_outcome o' \<Longrightarrow> OToken o' \<noteq> []"
  by (auto simp: wf_outcome_def token_of_def kind_defs split: if_splits)

lemma parseToken_of:
  assumes "wf_outcome o'"
  shows "parseToken (OToken o') = Inr o'"
proof -
  let ?ms = "modifiers_of (OStep o') (OCode o')"
  have tok: "OToken o' = token_of (OKind o') (OStep o') (OCode o')" and
    k: "OKind o' \<in> {Ok, PanicKind, Ko, Perm, BatchKo, NilKind}"
    using assms by (auto simp: wf_outcome_def)
  have nc: "CHR '':'' \<notin> set (OKind o')" using kinds_plain [OF k] by blast
  show ?thesis
  proof (cases "?ms = []")
    case True
    then have "OStep o' = 0" "OCode o' = []" by (auto simp: modifiers_of_def split: if_splits)
    then have "\<lparr>OKind = OKind o', OStep = 0, OCode = [], OToken = OToken o'\<rparr> = o'" by simp
    moreover have "strings_Cut CHR '':'' (OToken o') = (OKind o', [], False)"
      using tok True nc by (simp add: token_of_def strings_Cut_none)
    ultimately show ?thesis using k by (auto simp: parseToken_def Let_def)
  next
    case False
    then have wf: "OKind o' \<in> {Ko, Perm, BatchKo, NilKind}" "0 \<le> OStep o'" "is_int32 (OStep o')"
      "list_all plain_char (OCode o')"
      using assms by (auto simp: wf_outcome_def modifiers_of_def)
    have "\<forall>t\<in>set ?ms. CHR '','' \<notin> set t" using modifiers_chars [OF wf(2,4)] by (auto simp: plain_char_def)
    then have split: "strings_Split CHR '','' (join_on CHR '','' ?ms) = ?ms" using False by (rule strings_Split_join [rotated])
    have "strings_Cut CHR '':'' (OToken o') = (OKind o', join_on CHR '','' ?ms, True)"
      using tok False nc by (simp add: token_of_def strings_Cut_at)
    moreover have "OKind o' \<notin> {Ok, PanicKind}" using wf(1) by (auto simp: kind_defs)
    ultimately show ?thesis
      using wf(1) parseModifiers_of [OF wf(2,3), of "\<lparr>OKind = OKind o', OStep = 0, OCode = [], OToken = OToken o'\<rparr>"]
      by (auto simp: parseToken_def Let_def split)
  qed
qed

lemma parse_tokens_of: "\<forall>o'\<in>set os. wf_outcome o' \<Longrightarrow> parse_tokens i (map OToken os) = Inr os"
  by (induction os arbitrary: i) (simp_all add: parseToken_of)

lemma hd_join_on: "t \<noteq> [] \<Longrightarrow> hd (join_on sep (t # ts)) = hd t"
  by (cases ts) simp_all

lemma last_join_on: "ts \<noteq> [] \<Longrightarrow> \<forall>t\<in>set ts. t \<noteq> [] \<Longrightarrow> join_on sep ts \<noteq> [] \<and> last (join_on sep ts) = last (last ts)"
proof (induction sep ts rule: join_on.induct)
  case (3 sep t t' ts)
  then have "join_on sep (t' # ts) \<noteq> []" "last (join_on sep (t' # ts)) = last (last (t' # ts))" by simp_all
  moreover have "join_on sep (t # t' # ts) = t @ sep # join_on sep (t' # ts)" by simp
  ultimately show ?case by simp
qed simp_all

text \<open>What a user types comes back as the script it stands for.\<close>

lemma script_Parse_typed:
  assumes "os \<noteq> []" and "\<forall>o'\<in>set os. wf_outcome o'"
  shows "script_Parse (Some (typed os)) = Inr os"
proof -
  have chars: "33 \<le> byte c \<and> byte c \<le> 126 \<and> c \<noteq> CHR ''/''" if "o' \<in> set os" "c \<in> set (OToken o')" for o' c
    using token_chars assms(2) that by blast
  have nn: "OToken o' \<noteq> []" if "o' \<in> set os" for o' using token_not_Nil assms(2) that by blast
  have "byte c < 128" if "c \<in> set (typed os)" for c
    using subsetD [OF set_join_on that [unfolded typed_def]] chars by (fastforce simp: byte_def)
  then have valid: "utf8_Valid (typed os)" by (intro utf8_Valid_ascii) (simp add: list_all_iff)
  have split: "strings_Split CHR ''/'' (typed os) = map OToken os"
    unfolding typed_def using assms(1) chars by (intro strings_Split_join) auto
  obtain o1 rest where os: "os = o1 # rest" using assms(1) by (cases os) auto
  have "hd (typed os) = hd (OToken o1)" using nn [of o1] by (simp add: typed_def os hd_join_on)
  moreover have "typed os \<noteq> [] \<and> last (typed os) = last (OToken (last os))"
    using last_join_on [of "map OToken os" "CHR ''/''"] assms(1) nn by (simp add: typed_def last_map)
  ultimately have "TrimSpace (typed os) = typed os" "typed os \<noteq> []"
    using chars [of o1 "hd (OToken o1)"] chars [of "last os" "last (OToken (last os))"] nn [of o1] nn [of "last os"] assms(1)
    by (auto intro!: TrimSpace_printable simp: os)
  with valid split parse_tokens_of [OF assms(2)] show ?thesis by (simp add: script_Parse_def)
qed

end
