(* ===== verification/Metadata_Api.thy ===== *)
theory Metadata_Api
  imports Retry_Headers
begin

text \<open>
  The message on a handler's context (\<open>internal/subscribe/metadata/context.go\<close>) and the package's
  public view of message metadata (\<open>subscribe/metadata.go\<close>), which spells the header keys out again
  and hands every call on. A context is the list of the values attached to it, the innermost first.
\<close>

section \<open>The message on the context\<close>

text \<open>A key is a type's name with a string of that type; a value is a \<open>*types.Message\<close> or another.\<close>

type_synonym ctx_key = "string \<times> string"

datatype ctx_value = CtxMessage "message option" | CtxOther string

type_synonym ctx_values = "(ctx_key \<times> ctx_value) list"

definition messageKey :: ctx_key where
  "messageKey = (''metadata.ContextKey'', ''message'')"

definition MessageFromContext :: "ctx_values \<Rightarrow> message option \<times> bool" where
  "MessageFromContext ctx =
     (case map_of ctx messageKey of Some (CtxMessage msg) \<Rightarrow> (msg, True) | _ \<Rightarrow> (None, False))"

definition WithMessage :: "ctx_values \<Rightarrow> message option \<Rightarrow> ctx_values" where
  "WithMessage ctx msg = (messageKey, CtxMessage msg) # ctx"

section \<open>The public package\<close>

definition api_MessageFromContext :: "ctx_values \<Rightarrow> message option \<times> bool" where
  "api_MessageFromContext ctx = MessageFromContext ctx"

definition api_header_keys :: "(string \<times> string) list" where
  "api_header_keys =
     [(''HeaderRetryAttempt'', ''easykafka.retry.attempt''),
      (''HeaderRetryTime'', ''easykafka.retry.time''),
      (''HeaderRetryStep'', ''easykafka.retry.step''),
      (''HeaderErrorCode'', ''easykafka.error.code''),
      (''HeaderErrorMessage'', ''easykafka.error.message''),
      (''HeaderOriginalTopic'', ''easykafka.original.topic''),
      (''HeaderOriginalPartition'', ''easykafka.original.partition''),
      (''HeaderOriginalOffset'', ''easykafka.original.offset''),
      (''HeaderFailedAt'', ''easykafka.failed.at'')]"

definition api_GetRetryAttempt :: "message option \<Rightarrow> int" where
  "api_GetRetryAttempt msg = GetRetryAttempt msg"

definition api_GetRetryTime :: "(string \<Rightarrow> gtime option) \<Rightarrow> message option \<Rightarrow> gtime" where
  "api_GetRetryTime fallback msg = GetRetryTime fallback msg"

definition api_WaitUntilRetryTime ::
  "(string \<Rightarrow> gtime option) \<Rightarrow> gtime \<Rightarrow> wake \<Rightarrow> message option \<Rightarrow> gerror option" where
  "api_WaitUntilRetryTime fallback now wake msg = WaitUntilRetryTime fallback now wake msg"

definition api_GetRetryStep :: "message option \<Rightarrow> int" where
  "api_GetRetryStep msg = GetRetryStep msg"

definition api_GetErrorCode :: "message option \<Rightarrow> string" where
  "api_GetErrorCode msg = GetErrorCode msg"

definition api_GetOriginalTopic :: "message option \<Rightarrow> string" where
  "api_GetOriginalTopic msg = GetOriginalTopic msg"

section \<open>Lemmas\<close>

lemma api_header_keys_internal:
  "map snd api_header_keys =
     [HeaderRetryAttempt, HeaderRetryTime, HeaderRetryStep, HeaderErrorCode, HeaderErrorMessage,
      HeaderOriginalTopic, HeaderOriginalPartition, HeaderOriginalOffset, HeaderFailedAt]"
  by (simp add: api_header_keys_def header_defs)

text \<open>A handler reads the message attached last, whatever other values were attached since.\<close>

lemma MessageFromContext_attached:
  "messageKey \<notin> fst ` set vs \<Longrightarrow> api_MessageFromContext (vs @ WithMessage ctx msg) = (msg, True)"
  (is "_ \<Longrightarrow> ?thesis")
proof -
  assume "messageKey \<notin> fst ` set vs"
  then have "map_of vs messageKey = None" by (simp add: map_of_eq_None_iff)
  then show ?thesis
    by (simp add: api_MessageFromContext_def MessageFromContext_def WithMessage_def map_add_def)
qed

lemma MessageFromContext_none: "messageKey \<notin> fst ` set ctx \<Longrightarrow> api_MessageFromContext ctx = (None, False)"
  by (simp add: api_MessageFromContext_def MessageFromContext_def map_of_eq_None_iff [THEN iffD2])

end
