(* ===== verification/Retry_Journey.thy ===== *)
theory Retry_Journey
  imports Consumer_Properties
begin

text \<open>
  The way of a message that keeps failing: each of its lives is one turn of a single-message consumer
  with the retry strategy, which polls it through the driver, runs the handler, and has the strategy
  write a record through its publisher; the next life begins when a consumer of the retry topic polls
  that record. The consumers, their worlds and their clocks may differ from life to life; they share
  the strategy's configuration.
\<close>

section \<open>Definitions of the statements\<close>

record ('k, 'p, 'x) life =
  li_platform :: "('k, 'p, 'x) platform"
  li_handler :: "'x handler"
  li_config :: "('k, 'p, 'x) world sconfig"
  li_subscriber :: subscriber
  li_world :: "('k, 'p, 'x) world"

definition life_config :: "('k, 'p, 'x) life \<Rightarrow> ('k, 'p, 'x) world sconfig" where
  "life_config l = stack_config (li_platform l) (Some (li_handler l)) None (li_config l)"

definition life_turn :: "('k, 'p, 'x) life \<Rightarrow> gerror option \<times> subscriber \<times> ('k, 'p, 'x) world" where
  "life_turn l = single_body (stack_env (li_platform l)) (life_config l) (li_subscriber l) (li_world l)"

text \<open>The record the strategy's publisher took last in the turn.\<close>

definition life_record :: "('k, 'p, 'x) life \<Rightarrow> record_t" where
  "life_record l = d_record (last (deliveries (the (rpublisher (w_retry (snd (snd (life_turn l))))))))"

fun retryable :: "handler_outcome \<Rightarrow> bool" where
  "retryable (HReturn None) = False"
| "retryable (HReturn (Some f)) = (\<not> is_permanent f)"
| "retryable (HPanic v) = True"

text \<open>
  The turn polls \<open>m\<close>, the handler fails on it, and the turn is completed: neither the strategy nor the
  store stopped the consumer.
\<close>

definition fails_on :: "retry_config \<Rightarrow> ('k, 'p, 'x) life \<Rightarrow> message \<Rightarrow> bool" where
  "fails_on c l m \<longleftrightarrow>
     rconfig (w_retry (li_world l)) = c \<and> stack_ready (li_world l)
     \<and> \<not> pl_Done (li_platform l) (li_world l)
     \<and> fst (poll (stack_env (li_platform l)) (life_config l) (li_subscriber l) (li_world l)) = Inr (Some m)
     \<and> retryable (fst (li_handler l m (Payload m) (w_rest (li_world l))))
     \<and> fst (life_turn l) = None"

text \<open>
  The message a driver makes of a record: what \<open>Produce\<close> handed to the client, as consumed from a
  partition at an offset with a timestamp.
\<close>

definition consumed_at :: "int \<times> int \<times> int \<Rightarrow> record_t \<Rightarrow> message" where
  "consumed_at pos r =
     (case pos of (part, off, ts) \<Rightarrow>
        message_of ((kfk_message_of r (ForeignToken []))
          \<lparr>kmPartition := part, kmOffset := off, kmTimestamp := ts\<rparr>))"

text \<open>\<open>journey c msg ls m\<close>: after the failed lives \<open>ls\<close> of \<open>msg\<close>, it is about to be consumed as \<open>m\<close>.\<close>

inductive journey ::
  "retry_config \<Rightarrow> message \<Rightarrow> ('k, 'p, 'x) life list \<Rightarrow> message \<Rightarrow> bool" for c msg where
  first: "journey c msg [] msg"
| again: "journey c msg ls m \<Longrightarrow> fails_on c l m \<Longrightarrow> RTopic (life_record l) = RetryTopic c
    \<Longrightarrow> journey c msg (ls @ [l]) (consumed_at pos (life_record l))"

section \<open>Lemmas\<close>

subsection \<open>What a turn leaves of the strategy\<close>

lemma on_driver_frame [simp]:
  "w_retry (snd (on_driver op w)) = w_retry w" "w_producer (snd (on_driver op w)) = w_producer w"
  "w_rest (snd (on_driver op w)) = w_rest w"
  using snd_on_driver [of op w] by auto

lemma poll_stack_frame:
  assumes "poll (stack_env P) c s w = (r, s', w')"
  shows "w_retry w' = w_retry w \<and> w_producer w' = w_producer w \<and> w_rest w' = w_rest w"
proof -
  have "w' = snd (on_driver (driver_Poll (pl_client P) (pollTimeoutMs c)) w)"
    using assms by (auto simp: poll_def stack_env_def Let_def split: prod.splits)
  then show ?thesis by simp
qed

lemma store_offset_frame: "w_retry (snd (snd (store_offset (cons (stack_env P)) t p off s w))) = w_retry w"
  by (auto simp: store_offset_def stack_env_def split: prod.split)
    (metis on_driver_frame(1) snd_conv)

lemma maybe_commit_frame: "w_retry (snd (maybe_commit (cons (stack_env P)) s w)) = w_retry w"
  by (auto simp: maybe_commit_def stack_env_def split: prod.split)
    (metis on_driver_frame(1) snd_conv)+

lemma finish_message_frame:
  "w_retry (snd (snd (finish_message (stack_env P) m s w))) = w_retry w"
proof -
  obtain e s1 w1 where st: "store_offset (cons (stack_env P)) (Topic m) (Partition m) (Offset m) s w = (e, s1, w1)"
    by (metis prod_cases3)
  have w1: "w_retry w1 = w_retry w"
    using store_offset_frame [of P "Topic m" "Partition m" "Offset m" s w] st by simp
  show ?thesis
    using st w1 maybe_commit_frame [of P s1 w1]
    by (cases e) (auto simp: finish_message_def stop_with_def split: prod.split)
qed

text \<open>The failure a dispatch reports, with the reason it is given, is retryable when the outcome was.\<close>

lemma not_permanent_simps [simp]:
  "\<not> is_permanent (panic_failure v)"
  "\<not> is_permanent f \<Longrightarrow> \<not> is_permanent (fst (withReason f s))"
  by (auto simp: is_permanent_def panic_failure_def withReason_def split: option.splits)

lemma dispatch_retryable:
  assumes "retryable (fst (h m (Payload m) w))" and "dispatchMessage h m s w = (f, s', w')"
  obtains g where "f = Some g" "\<not> is_permanent g" "w' = snd (h m (Payload m) w)"
  using assms
  by (cases "h m (Payload m) w"; cases "fst (h m (Payload m) w)" rule: retryable.cases)
    (auto simp: dispatchMessage_def)

text \<open>A turn that is completed although the handler failed: the strategy returned nil, then the store.\<close>

lemma single_body_failed:
  assumes "single_body E c s w = (None, s', w')" and "\<not> ctx_Done E w" and "Handler c = Some h"
    and "poll E c s w = (Inr (Some m), s1, w1)" and "dispatchMessage h m s1 w1 = (Some g, s2, w2)"
  obtains s3 w3 where "hand_to_strategy (the (ErrorStrategy c)) [m] g s2 w2 = (None, s3, w3)"
    "finish_message E m s3 w3 = (None, s', w')"
proof -
  obtain e s3 w3 where h: "hand_to_strategy (the (ErrorStrategy c)) [m] g s2 w2 = (e, s3, w3)"
    by (metis prod_cases3)
  with assms have "e = None" "finish_message E m s3 w3 = (None, s', w')"
    by (auto simp: single_body_def stop_with_def split: option.splits)
  with h show thesis by (intro that) simp_all
qed

lemma hand_to_strategy_nil:
  "hand_to_strategy st ms g s w = (None, s', w') \<Longrightarrow> st_HandleError st ms (fst (withReason g s)) w = (None, w')"
  by (auto simp: hand_to_strategy_def split: prod.splits)

text \<open>A nil from the strategy on one message has written that message's record last.\<close>

lemma stack_nil_writes:
  assumes "st_HandleError (stack_strategy P) [m] f w = (None, w')" and "stack_ready w"
  obtains p where "rpublisher (w_retry w') = Some p" "deliveries p \<noteq> []"
    "d_record (last (deliveries p)) =
       routed_record (pl_floats P) (rconfig (w_retry w)) f (pl_ticks P (w_rest w) 0) m"
  using assms(2) [unfolded stack_ready_def] stack_HandleError [OF assms(1)]
  by (rule handle_cases) (simp_all add: newDelivery_def that)

text \<open>A failed life has written the routed record of its message, for a failure that is not permanent.\<close>

lemma fails_on_record:
  assumes "fails_on c l m"
  obtains F f tk where "life_record l = routed_record F c f tk m" "\<not> is_permanent f"
proof -
  define P E w where "P = li_platform l" and "E = stack_env P" and "w = li_world l"
  note A = assms [unfolded fails_on_def, folded P_def w_def, folded E_def]
  obtain s1 w1 where p: "poll E (life_config l) (li_subscriber l) w = (Inr (Some m), s1, w1)"
    using A by (metis prod.collapse)
  note pf = poll_stack_frame [OF p [unfolded E_def]]
  define h where "h = (\<lambda>msg pl. on_rest (li_handler l msg pl) :: ('a, 'b, 'c) world \<Rightarrow> _)"
  have cfg: "Handler (life_config l) = Some h" "ErrorStrategy (life_config l) = Some (stack_strategy P)"
    by (simp_all add: life_config_def h_def P_def)
  have hw: "fst (h m (Payload m) w1) = fst (li_handler l m (Payload m) (w_rest w))"
    "w_retry (snd (h m (Payload m) w1)) = w_retry w" "w_producer (snd (h m (Payload m) w1)) = w_producer w"
    using pf by (auto simp: h_def on_rest_def split: prod.split)
  have rt: "retryable (fst (h m (Payload m) w1))" using A hw(1) by simp
  obtain f0 s2 w2 where d0: "dispatchMessage h m s1 w1 = (f0, s2, w2)" by (metis prod_cases3)
  obtain g where g: "f0 = Some g" "\<not> is_permanent g" "w2 = snd (h m (Payload m) w1)"
    using dispatch_retryable [where h = h, OF rt d0] by blast
  obtain s' w' where t: "life_turn l = (None, s', w')" using A by (metis prod.collapse)
  have nd: "\<not> ctx_Done E w" using A by (simp add: E_def stack_env_def)
  obtain s3 w3 where hs: "hand_to_strategy (stack_strategy P) [m] g s2 w2 = (None, s3, w3)"
    and fin: "finish_message E m s3 w3 = (None, s', w')"
    using single_body_failed [OF t [unfolded life_turn_def, folded P_def w_def, folded E_def] nd cfg(1) p
        d0 [unfolded g(1)]] unfolding cfg(2) option.sel by blast
  have rw: "stack_ready w2" "rconfig (w_retry w2) = c"
    using A hw(2,3) g(3) by (simp_all add: stack_ready_def)
  from stack_nil_writes [OF hand_to_strategy_nil [OF hs] rw(1)] obtain q where
    q: "rpublisher (w_retry w3) = Some q" "d_record (last (deliveries q)) =
      routed_record (pl_floats P) c (fst (withReason g s2)) (pl_ticks P (w_rest w2) 0) m"
    using rw(2) by metis
  have "w_retry w' = w_retry w3" using finish_message_frame [of P m s3 w3] fin by (simp add: E_def)
  with q t have "life_record l =
      routed_record (pl_floats P) c (fst (withReason g s2)) (pl_ticks P (w_rest w2) 0) m"
    by (simp add: life_record_def)
  then show thesis using not_permanent_simps(2) [OF g(2)] by (rule that)
qed

subsection \<open>What a record reads as\<close>

lemma map_of_read_headers:
  "map_of (fold (\<lambda>h. map_set (HKey h) (case HValue h of None \<Rightarrow> [] | Some v \<Rightarrow> v)) (map mk ks) m) k =
     (if k \<in> set ks then Some (case HValue (mk k) of None \<Rightarrow> [] | Some v \<Rightarrow> v) else map_of m k)"
  if "\<And>k. HKey (mk k) = k" for mk :: "string \<Rightarrow> header"
  using that by (induction ks arbitrary: m) (auto simp: map_of_set)

lemma read_sortedHeaders:
  "map_of (fold (\<lambda>h. map_set (HKey h) (case HValue h of None \<Rightarrow> [] | Some v \<Rightarrow> v)) (sortedHeaders hs) []) k
    = map_of hs k"
  unfolding sortedHeaders_def
  by (subst map_of_read_headers) (auto simp: map_of_eq_None_iff [symmetric] split: option.split)

lemma consumed_at_content [simp]:
  "Topic (consumed_at pos r) = RTopic r" "Key (consumed_at pos r) = RKey r" "Payload (consumed_at pos r) = RValue r"
  by (simp_all add: consumed_at_def message_of_def kfk_message_of_def split: prod.split)

lemma consumed_at_headers:
  "RHeaders r = sortedHeaders hs \<Longrightarrow> map_of (Headers (consumed_at pos r)) k = map_of hs k"
  by (simp add: consumed_at_def message_of_def kfk_message_of_def read_sortedHeaders split: prod.split)

text \<open>The next life counts the attempt the strategy wrote.\<close>

lemma consumed_at_attempt:
  "GetRetryAttempt (Some (consumed_at pos (routed_record F c f tk m))) = next_attempt m"
proof -
  have "map_of (Headers (consumed_at pos (routed_record F c f tk m))) HeaderRetryAttempt = Some (itoa (next_attempt m))"
    by (subst consumed_at_headers, simp add: routed_record_def)
      (simp add: BuildDLQHeaders_def map_of_BuildRetryHeaders map_of_buildFailureHeaders)
  moreover have "is_int64 (next_attempt m)" by (simp add: next_attempt_def)
  ultimately show ?thesis by (simp add: GetRetryAttempt_def atoi_itoa)
qed

subsection \<open>Journeys\<close>

lemma journey_attempt:
  assumes "journey c msg ls m" and "GetRetryAttempt (Some msg) = 0" and "int (length ls) < 2 ^ 63"
  shows "GetRetryAttempt (Some m) = int (length ls)"
  using assms
proof (induction rule: journey.induct)
  case first
  then show ?case by simp
next
  case (again ls m l pos)
  from fails_on_record [OF again.hyps(2)] obtain F f tk where "life_record l = routed_record F c f tk m" .
  moreover have "next_attempt m = int (length ls) + 1"
    using again by (simp add: next_attempt_def wrap64_id is_int64_def)
  ultimately show ?case by (simp add: consumed_at_attempt)
qed

lemma journey_content: "journey c msg ls m \<Longrightarrow> Payload m = Payload msg \<and> Key m = Key msg"
proof (induction rule: journey.induct)
  case first
  then show ?case by simp
next
  case (again ls m l pos)
  from fails_on_record [OF again.hyps(2)] obtain F f tk where "life_record l = routed_record F c f tk m" .
  with again.IH show ?case by (simp add: routed_record_copies)
qed

text \<open>Where the next failure sends the message.\<close>

lemma fails_on_topic:
  assumes "fails_on c l m" and "GetRetryAttempt (Some m) = int n" and "int n < 2 ^ 63 - 1"
  shows "RTopic (life_record l) = (if int n + 1 \<ge> MaxAttempts c then DLQTopic c else RetryTopic c)"
proof -
  from fails_on_record [OF assms(1)] obtain F f tk where
    "life_record l = routed_record F c f tk m" "\<not> is_permanent f" .
  moreover have "next_attempt m = int n + 1"
    using assms(2,3) by (simp add: next_attempt_def wrap64_id is_int64_def)
  ultimately show ?thesis by (simp add: routed_record_copies goes_to_dlq_def)
qed

lemma journey_below_limit:
  assumes "journey c msg ls m" and "GetRetryAttempt (Some msg) = 0" and "RetryTopic c \<noteq> DLQTopic c"
    and "0 < MaxAttempts c" and "is_int64 (MaxAttempts c)"
  shows "int (length ls) < MaxAttempts c"
  using assms(1)
proof (induction rule: journey.induct)
  case first
  with assms(4) show ?case by simp
next
  case (again ls m l pos)
  have lt: "int (length ls) < 2 ^ 63 - 1" using again.IH assms(5) by (simp add: is_int64_def)
  with fails_on_topic [OF again.hyps(2)] journey_attempt [OF again.hyps(1) assms(2)] again.hyps(3) assms(3)
  show ?case by (auto split: if_splits)
qed

section \<open>Two lives\<close>

text \<open>A strategy that gives a message two attempts, and consumers whose handler panics on what they poll.\<close>

definition wit_twice :: retry_config where
  "wit_twice = wit_config\<lparr>MaxAttempts := 2\<rparr>"

definition wit_life :: "kfk_message \<Rightarrow> (unit, nat, unit) life" where
  "wit_life e =
     \<lparr>li_platform = wit_stack\<lparr>pl_client := wit_client_ops
        \<lparr>kc_Poll := \<lambda>t k. (([], Some (KMessage e)), k), kc_StoreOffsets := \<lambda>os k. (([], None), k)\<rparr>\<rparr>,
      li_handler = \<lambda>m pl x. (HPanic ''boom'', x), li_config = wit_stack_config,
      li_subscriber = new_subscriber\<lparr>sstate := Started\<rparr>,
      li_world = wit_stack_world\<lparr>w_retry := wit_retry\<lparr>rconfig := wit_twice\<rparr>\<rparr>\<rparr>"

definition wit_source :: kfk_message where
  "wit_source = \<lparr>kmTopic = Some ''orders'', kmPartition = 3, kmOffset = 41, kmError = None, kmKey = Some ''k1'',
     kmValue = Some ''p'', kmHeaders = [], kmTimestamp = 0, kmOpaque = ForeignToken []\<rparr>"

definition wit_retried :: kfk_message where
  "wit_retried = (kfk_message_of (life_record (wit_life wit_source)) (ForeignToken []))
     \<lparr>kmPartition := 0, kmOffset := 7, kmTimestamp := 5\<rparr>"

lemma wit_life_poll:
  "kmError e = None \<Longrightarrow>
     \<exists>s. poll (stack_env (li_platform (wit_life e))) (life_config (wit_life e)) (li_subscriber (wit_life e))
       (li_world (wit_life e)) = (Inr (Some (message_of e)), s, li_world (wit_life e))"
  by (simp add: poll_def wit_life_def stack_env_def on_driver_def driver_Poll_def wit_stack_def wit_client_ops_def
      wit_stack_world_def wit_consumer_def poll_event_def life_config_def Let_def)

lemma wit_life_strategy:
  "\<exists>w'. st_HandleError (stack_strategy (li_platform (wit_life e))) [m] f (li_world (wit_life e)) = (None, w')
     \<and> w_driver w' = wit_consumer"
proof -
  let ?r = "wit_retry\<lparr>rconfig := wit_twice\<rparr>"
  have rd: "retry_ready (?r, 0::nat)" "rpublisher ?r = Some (new_publisher defaultConfig)"
    by (simp_all add: retry_ready_def wit_retry_def wit_twice_def wit_config_def)
  have "accepts (\<lambda>(r :: record_t) (tok :: token) (p :: nat). (None :: gerror option, p))" by (simp add: accepts_def)
  from send_all_accepts [OF this, of "new_publisher defaultConfig"] obtain out lg p' w' where
    "send_bound_all (\<lambda>r tok p. (None, p)) exact_ops (rconfig ?r) f wit_tick [m] [] (rlog ?r)
      (new_publisher defaultConfig) (0::nat) = (Inr out, lg, p', w')"
    by (simp add: new_publisher_def) metis
  from handle_sent [OF rd this, of "wit_settled None"] obtain r' where
    "retry_HandleError (\<lambda>r tok p. (None, p)) exact_ops wit_tick (wit_settled None) [m] f (?r, 0::nat) = (None, r', w')"
    by (simp add: wit_settled_def) metis
  then show ?thesis by (simp add: stack_strategy_def wit_life_def wit_stack_def wit_stack_world_def)
qed

lemma wit_life_finish:
  "w_driver w = wit_consumer \<Longrightarrow> fst (finish_message (stack_env (li_platform (wit_life e))) m s w) = None"
  by (simp add: finish_message_def store_offset_def maybe_commit_def stack_env_def on_driver_def wit_life_def
      wit_stack_def wit_client_ops_def StoreOffset_def wit_consumer_def split: prod.split)

lemma wit_life_fails:
  assumes "kmError e = None"
  shows "fails_on wit_twice (wit_life e) (message_of e)"
proof -
  let ?l = "wit_life e" and ?w = "li_world (wit_life e)"
  obtain s1 where p: "poll (stack_env (li_platform ?l)) (life_config ?l) (li_subscriber ?l) ?w
      = (Inr (Some (message_of e)), s1, ?w)" using wit_life_poll [OF assms] by blast
  have nd: "\<not> pl_Done (li_platform ?l) ?w" by (simp add: wit_life_def wit_stack_def)
  obtain s2 where d: "dispatchMessage (the (Handler (life_config ?l))) (message_of e) s1 ?w
      = (Some (panic_failure ''boom''), s2, ?w)"
    by (simp add: dispatchMessage_def life_config_def on_rest_def wit_life_def)
  obtain f w3 where h: "hand_to_strategy (the (ErrorStrategy (life_config ?l))) [message_of e] (panic_failure ''boom'') s2 ?w
      = (None, ghost (TResolved [message_of e] f) s2, w3)" "w_driver w3 = wit_consumer"
    using wit_life_strategy [of e "message_of e" "panic_failure ''boom''"]
    by (auto simp: hand_to_strategy_def life_config_def withReason_def panic_failure_def)
  have "fst (life_turn ?l) = None"
    using p nd d h wit_life_finish [OF h(2)]
    by (simp add: life_turn_def single_body_def stack_env_def [of "li_platform ?l"])
      (simp add: stack_env_def)
  moreover have "stack_ready ?w" "rconfig (w_retry ?w) = wit_twice"
    by (simp_all add: wit_life_def stack_ready_def retry_ready_def wit_retry_def wit_twice_def wit_config_def)
  moreover have "retryable (fst (li_handler ?l (message_of e) (Payload (message_of e)) (w_rest ?w)))"
    by (simp add: wit_life_def)
  ultimately show ?thesis using p nd by (simp add: fails_on_def)
qed

lemma wit_journey:
  assumes "kmError e = None" and "GetRetryAttempt (Some (message_of e)) = 0"
  shows "journey wit_twice (message_of e) [wit_life e] (consumed_at pos (life_record (wit_life e)))"
proof -
  have f: "fails_on wit_twice (wit_life e) (message_of e)" using wit_life_fails [OF assms(1)] .
  with fails_on_topic [OF this, of 0] assms(2) have "RTopic (life_record (wit_life e)) = RetryTopic wit_twice"
    by (simp add: wit_twice_def)
  from journey.again [OF journey.first f this] show ?thesis by simp
qed

section \<open>Properties\<close>

text \<open>
  C18: a message that keeps failing is handled exactly \<open>MaxAttempts\<close> times before it goes to the DLQ. Each
  failed run of the handler is a turn of a consumer that polls the message, hands the failure to the
  strategy and stores the offset; the next run is of the record that turn wrote to the retry topic,
  wherever it was consumed. As long as the message is on the retry topic fewer than \<open>MaxAttempts\<close> runs
  have failed; a failure that is not permanent sends it to the retry topic again before the limit and to
  the DLQ at the limit, after \<open>MaxAttempts\<close> runs, counting a panic as a failure.
\<close>

theorem dlq_after_max_attempts:
  assumes "journey c msg ls m" and "GetRetryAttempt (Some msg) = 0" and "RetryTopic c \<noteq> DLQTopic c"
    and "0 < MaxAttempts c" and "is_int64 (MaxAttempts c)"
  shows "int (length ls) < MaxAttempts c
    \<and> (\<forall>l. fails_on c l m \<longrightarrow> RTopic (life_record l) =
         (if int (length (ls @ [l])) = MaxAttempts c then DLQTopic c else RetryTopic c))"
proof -
  have lt: "int (length ls) < MaxAttempts c" using journey_below_limit [OF assms] .
  with assms(5) have "int (length ls) < 2 ^ 63 - 1" by (simp add: is_int64_def)
  with lt fails_on_topic [of c _ m "length ls"] journey_attempt [OF assms(1,2)] show ?thesis
    by (auto simp: add.commute)
qed

theorem dlq_after_max_attempts_witness:
  "journey wit_twice (message_of wit_source) [wit_life wit_source] (message_of wit_retried)
   \<and> fails_on wit_twice (wit_life wit_retried) (message_of wit_retried)
   \<and> RTopic (life_record (wit_life wit_retried)) = ''orders.dlq''"
proof -
  have f: "fails_on wit_twice (wit_life wit_retried) (message_of wit_retried)"
    by (rule wit_life_fails) (simp add: wit_retried_def kfk_message_of_def)
  have fresh: "GetRetryAttempt (Some (message_of wit_source)) = 0"
    by (simp add: GetRetryAttempt_def message_of_def wit_source_def)
  have j: "journey wit_twice (message_of wit_source) [wit_life wit_source] (message_of wit_retried)"
    using wit_journey [OF _ fresh, of "(0, 7, 5)"] by (simp add: consumed_at_def wit_retried_def wit_source_def)
  from dlq_after_max_attempts [OF j fresh] f j show ?thesis
    by (simp add: wit_twice_def wit_config_def is_int64_def)
qed

end
