(* ===== verification/Playground_Handler.thy ===== *)
theory Playground_Handler
  imports Playground_Script Metadata_Api Subscribe_Options Retry_Journey
begin

text \<open>
  The playground's handlers (\<open>examples/playground/cmd/consumer/handler.go\<close>): they carry out the
  script in a message's payload, one outcome per delivery. The printed lines are data; the time at
  the start of a line is left out. What a handler waits on (clock, timer, context) and the sleep
  are the record \<open>pg_env\<close> over the state \<open>'x\<close>.
\<close>

section \<open>State\<close>

datatype pg_line =
    DeliveryLine string bytes string int int int int string string string
  | BatchLine string nat "int list"
  | BatchInterrupted string

record 'x pg_world =
  pg_out :: "pg_line list"
  pg_rest :: 'x

record 'x pg_env =
  pg_look :: "'x \<Rightarrow> (gtime \<times> wake) \<times> 'x"
  pg_sleep :: "duration \<Rightarrow> 'x \<Rightarrow> 'x"
  pg_fallback :: "string \<Rightarrow> gtime option"
  pg_quote :: verb_fmt

record pg_handler =
  hname :: string
  processingDelay :: duration

record pg_resolved =
  r_msg :: message
  r_outcome :: outcome
  r_err :: "gerror option"

definition pg_printf :: "pg_line \<Rightarrow> 'x pg_world \<Rightarrow> 'x pg_world" where
  "pg_printf l w = w\<lparr>pg_out := pg_out w @ [l]\<rparr>"

definition bytes_of :: "slice \<Rightarrow> bytes" where
  "bytes_of s = (case s of None \<Rightarrow> [] | Some b \<Rightarrow> b)"

section \<open>Lines\<close>

definition pg_line :: "pg_handler \<Rightarrow> message \<Rightarrow> string \<Rightarrow> string \<Rightarrow> 'x pg_world \<Rightarrow> 'x pg_world" where
  "pg_line h msg token result w =
     (let c = api_GetErrorCode (Some msg); code = (if c = [] then ''-'' else c)
      in pg_printf (DeliveryLine (hname h) (bytes_of (Key msg)) (Topic msg) (Partition msg) (Offset msg)
           (api_GetRetryAttempt (Some msg)) (api_GetRetryStep (Some msg)) code token result) w)"

fun distinct_partitions :: "batch_item list \<Rightarrow> int list \<Rightarrow> int list" where
  "distinct_partitions [] ps = ps"
| "distinct_partitions (item # items) ps =
     (let p = Partition (item_Message item)
      in distinct_partitions items (if p \<in> set ps then ps else ps @ [p]))"

definition batchLine :: "pg_handler \<Rightarrow> batch_item list \<Rightarrow> 'x pg_world \<Rightarrow> 'x pg_world" where
  "batchLine h items w = pg_printf (BatchLine (hname h) (length items) (sort (distinct_partitions items []))) w"

definition tokenOf :: "pg_resolved \<Rightarrow> string" where
  "tokenOf r = (case r_err r of Some _ \<Rightarrow> ''<malformed>'' | None \<Rightarrow> OToken (r_outcome r))"

section \<open>Outcomes\<close>

definition pg_delay :: "'x pg_env \<Rightarrow> pg_handler \<Rightarrow> 'x pg_world \<Rightarrow> 'x pg_world" where
  "pg_delay E h w =
     (if processingDelay h > 0 then w\<lparr>pg_rest := pg_sleep E (processingDelay h) (pg_rest w)\<rparr> else w)"

definition pg_wait :: "'x pg_env \<Rightarrow> message \<Rightarrow> 'x pg_world \<Rightarrow> gerror option \<times> 'x pg_world" where
  "pg_wait E msg w =
     (let ((now, wake), x') = pg_look E (pg_rest w)
      in (api_WaitUntilRetryTime (pg_fallback E) now wake (Some msg), w\<lparr>pg_rest := x'\<rparr>))"

text \<open>\<open>None\<close> is the panic of an attempt below zero, which indexes the script out of range.\<close>

definition pg_resolve :: "message \<Rightarrow> pg_resolved option" where
  "pg_resolve msg =
     (case script_Parse (Payload msg) of
        Inl err \<Rightarrow>
          Some \<lparr>r_msg = msg, r_outcome = \<lparr>OKind = [], OStep = 0, OCode = [], OToken = []\<rparr>, r_err = Some err\<rparr>
      | Inr s \<Rightarrow>
          map_option (\<lambda>o'. \<lparr>r_msg = msg, r_outcome = o', r_err = None\<rparr>)
            (script_At s (api_GetRetryAttempt (Some msg))))"

definition carryOut ::
  "'x pg_env \<Rightarrow> pg_handler \<Rightarrow> pg_resolved \<Rightarrow> 'x pg_world \<Rightarrow> failure option \<times> 'x pg_world" where
  "carryOut E h r w =
     (case r_err r of
        Some err \<Rightarrow>
          (let text = error_text (pg_quote E) err
           in (Some \<lparr>Err = Some (Errorf [W (SentinelErr ErrPermanent), Txt '': malformed payload: '', Fmt ''%v'' text]),
                     Step = 0, FCode = []\<rparr>,
               pg_line h (r_msg r) ''<malformed>'' (''perm ('' @ text @ '')'') w))
      | None \<Rightarrow>
          (let o' = r_outcome r; say = (\<lambda>res. pg_line h (r_msg r) (OToken o') res w)
           in if OKind o' = Ok then (None, say ''ok'')
              else if OKind o' = Perm then
                (Some \<lparr>Err = Some (Errorf [W (SentinelErr ErrPermanent), Txt '': scripted permanent failure'']),
                       Step = OStep o', FCode = OCode o'\<rparr>, say ''perm'')
              else if OKind o' = NilKind then
                (Some \<lparr>Err = None, Step = OStep o', FCode = OCode o'\<rparr>, say ''nil (failure without an error)'')
              else
                (Some \<lparr>Err = Some (Plain ''scripted failure''), Step = OStep o', FCode = OCode o'\<rparr>,
                 say (if OKind o' = BatchKo then ''ko (batchko acts as ko outside batch mode)'' else ''ko''))))"

section \<open>The handlers\<close>

definition index_panic :: string where
  "index_panic = ''runtime error: index out of range''"

definition scripted_panic :: "message \<Rightarrow> string" where
  "scripted_panic msg = ''scripted panic for key '' @ bytes_of (Key msg)"

definition pg_handle ::
  "'x pg_env \<Rightarrow> pg_handler \<Rightarrow> ctx_values \<Rightarrow> slice \<Rightarrow> 'x pg_world \<Rightarrow> handler_outcome \<times> 'x pg_world" where
  "pg_handle E h ctx payload w =
     (case api_MessageFromContext ctx of
        (_, False) \<Rightarrow>
          (HReturn (Some \<lparr>Err = Some (Plain ''no message on the handler context''), Step = 0, FCode = []\<rparr>), w)
      | (None, True) \<Rightarrow> (HPanic ''runtime error: invalid memory address or nil pointer dereference'', w)
      | (Some msg, True) \<Rightarrow>
          (case pg_wait E msg w of
             (Some err, w1) \<Rightarrow>
               (HReturn (Some \<lparr>Err = Some err, Step = 0, FCode = []\<rparr>),
                pg_line h msg ''-'' ''interrupted while waiting for its retry time'' w1)
           | (None, w1) \<Rightarrow>
               (let w2 = pg_delay E h w1
                in case pg_resolve msg of
                     None \<Rightarrow> (HPanic index_panic, w2)
                   | Some r \<Rightarrow>
                       if r_err r = None \<and> OKind (r_outcome r) = PanicKind
                       then (HPanic (scripted_panic (r_msg r)),
                             pg_line h (r_msg r) (OToken (r_outcome r)) ''panic'' w2)
                       else let (f, w3) = carryOut E h r w2 in (HReturn f, w3))))"

fun wait_items :: "'x pg_env \<Rightarrow> batch_item list \<Rightarrow> 'x pg_world \<Rightarrow> gerror option \<times> 'x pg_world" where
  "wait_items E [] w = (None, w)"
| "wait_items E (item # items) w =
     (case pg_wait E (item_Message item) w of
        (Some err, w') \<Rightarrow> (Some err, w')
      | (None, w') \<Rightarrow> wait_items E items w')"

fun resolve_items :: "batch_item list \<Rightarrow> pg_resolved list option" where
  "resolve_items [] = Some []"
| "resolve_items (item # items) =
     (case pg_resolve (item_Message item) of
        None \<Rightarrow> None
      | Some r \<Rightarrow> map_option ((#) r) (resolve_items items))"

definition say_all :: "pg_handler \<Rightarrow> string \<Rightarrow> pg_resolved list \<Rightarrow> 'x pg_world \<Rightarrow> 'x pg_world" where
  "say_all h result all w = fold (\<lambda>r. pg_line h (r_msg r) (tokenOf r) result) all w"

text \<open>The first item that fails or panics for the whole batch.\<close>

definition decides_batch :: "pg_resolved \<Rightarrow> bool" where
  "decides_batch r \<longleftrightarrow> r_err r = None \<and> OKind (r_outcome r) \<in> {BatchKo, PanicKind}"

fun carry_items ::
  "'x pg_env \<Rightarrow> pg_handler \<Rightarrow> nat \<Rightarrow> pg_resolved list \<Rightarrow> 'x pg_world \<Rightarrow> (nat \<times> failure) list \<times> 'x pg_world" where
  "carry_items E h i [] w = ([], w)"
| "carry_items E h i (r # rs) w =
     (let (f, w1) = carryOut E h r w; (fails, w2) = carry_items E h (Suc i) rs w1
      in (case f of None \<Rightarrow> fails | Some f' \<Rightarrow> (i, f') # fails, w2))"

definition handleBatch :: "'x pg_env \<Rightarrow> pg_handler \<Rightarrow> 'x pg_world batch_handler" where
  "handleBatch E h b w =
     (let items = Items b; w0 = batchLine h items w
      in case wait_items E items w0 of
           (Some err, w1) \<Rightarrow>
             (([], HReturn (Some \<lparr>Err = Some err, Step = 0, FCode = []\<rparr>)), pg_printf (BatchInterrupted (hname h)) w1)
         | (None, w1) \<Rightarrow>
             (let w2 = pg_delay E h w1
              in case resolve_items items of
                   None \<Rightarrow> (([], HPanic index_panic), w2)
                 | Some all \<Rightarrow>
                     (case find decides_batch all of
                        Some r \<Rightarrow>
                          (let o' = r_outcome r; key = bytes_of (Key (r_msg r))
                           in if OKind o' = BatchKo
                              then (([], HReturn (Some
                                       \<lparr>Err = Some (Errorf [Txt ''scripted batch failure (batchko on '', Txt key, Txt '')'']),
                                        Step = OStep o', FCode = OCode o'\<rparr>)),
                                    say_all h (''batch failed (batchko on '' @ key @ '')'') all w2)
                              else (([], HPanic (scripted_panic (r_msg r))),
                                    say_all h (''batch failed (panic on '' @ key @ '')'') all w2))
                      | None \<Rightarrow>
                          (let (fails, w3) = carry_items E h 0 all w2 in ((fails, HReturn None), w3)))))"

section \<open>A concrete script\<close>

definition wit_outcomes :: "outcome list" where
  "wit_outcomes = [\<lparr>OKind = ''ko'', OStep = 2, OCode = [], OToken = ''ko:step=2''\<rparr>,
     \<lparr>OKind = ''ok'', OStep = 0, OCode = [], OToken = ''ok''\<rparr>]"

definition wit_pg_env :: "unit pg_env" where
  "wit_pg_env = \<lparr>pg_look = \<lambda>x. ((0, TimerFired), x), pg_sleep = \<lambda>d x. x, pg_fallback = \<lambda>s. None, pg_quote = \<lambda>v t. t\<rparr>"

definition wit_scripted :: kfk_message where
  "wit_scripted = wit_source\<lparr>kmValue := Some ''ko:step=2/ok''\<rparr>"

section \<open>Lemmas\<close>

lemma script_At_clamped: "os \<noteq> [] \<Longrightarrow> script_At os (int k) = Some (os ! min k (length os - 1))"
  (is "_ \<Longrightarrow> ?thesis")
proof (cases os)
  case (Cons x xs)
  then show ?thesis by (cases "k < length os") (auto simp: script_At_def last_conv_nth min_def)
qed simp

lemma pg_resolve_journey:
  assumes "os \<noteq> []" and "\<forall>o'\<in>set os. wf_outcome o'" and "Payload msg = Some (typed os)"
    and "GetRetryAttempt (Some msg) = 0" and "journey c msg ls m" and "int (length ls) < 2 ^ 63"
  shows "pg_resolve m =
    Some \<lparr>r_msg = m, r_outcome = os ! min (length ls) (length os - 1), r_err = None\<rparr>"
  using script_Parse_typed [OF assms(1,2)] journey_attempt [OF assms(5,4,6)] journey_content [OF assms(5)] assms(1,3)
  by (simp add: pg_resolve_def api_GetRetryAttempt_def script_At_clamped)

section \<open>Properties\<close>

text \<open>
  C34: a playground message follows its script across retries. Typed as one outcome per delivery, the
  script is read back from the payload of every record the retry strategy republished the message as,
  wherever it was consumed, and the \<open>k\<close>-th retry is handled as outcome \<open>k\<close> says, the last one
  repeating: success for \<open>ok\<close>, a panic for \<open>panic\<close>, otherwise a failure with the outcome's step and
  code, permanent for \<open>perm\<close> only and without an error for \<open>nil\<close> only.
\<close>

theorem script_followed_across_retries:
  assumes "os \<noteq> []" and "\<forall>o'\<in>set os. wf_outcome o'" and "Payload msg = Some (typed os)"
    and "GetRetryAttempt (Some msg) = 0" and "journey c msg ls m" and "int (length ls) < 2 ^ 63"
    and "fst (pg_wait E m w) = None" and "o' = os ! min (length ls) (length os - 1)"
  shows "case fst (pg_handle E h (WithMessage ctx (Some m)) payload w) of
      HPanic v \<Rightarrow> OKind o' = PanicKind
    | HReturn None \<Rightarrow> OKind o' = Ok
    | HReturn (Some f) \<Rightarrow> OKind o' \<in> {Ko, Perm, BatchKo, NilKind} \<and> Step f = OStep o' \<and> FCode f = OCode o'
        \<and> is_permanent f = (OKind o' = Perm) \<and> (Err f = None) = (OKind o' = NilKind)"
proof -
  obtain w1 where wt: "pg_wait E m w = (None, w1)" using assms(7) by (metis prod.collapse)
  have "o' \<in> set os" unfolding assms(8) using assms(1) by (intro nth_mem) (cases os; simp add: min_def)
  then have k: "OKind o' \<in> {Ok, PanicKind, Ko, Perm, BatchKo, NilKind}" using assms(2) by (auto simp: wf_outcome_def)
  have ctx: "api_MessageFromContext (WithMessage ctx (Some m)) = (Some m, True)"
    using MessageFromContext_attached [of "[]"] by simp
  have "Ok \<noteq> PanicKind" "Perm \<noteq> PanicKind" "NilKind \<noteq> PanicKind" "Ok \<noteq> Perm" "Ok \<noteq> NilKind" "Perm \<noteq> NilKind"
    "Ko \<noteq> Ok" "Ko \<noteq> Perm" "Ko \<noteq> NilKind" "BatchKo \<noteq> Ok" "BatchKo \<noteq> Perm" "BatchKo \<noteq> NilKind"
    by (simp_all add: kind_defs)
  then show ?thesis
    using k ctx wt pg_resolve_journey [OF assms(1-6)] assms(8)
    by (auto simp: pg_handle_def carryOut_def Let_def is_permanent_def)
qed

theorem script_followed_across_retries_witness:
  "\<exists>m. journey wit_twice (message_of wit_scripted) [wit_life wit_scripted] m
     \<and> fst (pg_handle wit_pg_env \<lparr>hname = ''retry'', processingDelay = 0\<rparr> (WithMessage [] (Some m)) None
         \<lparr>pg_out = [], pg_rest = ()\<rparr>) = HReturn None"
proof -
  let ?m = "consumed_at (0, 7, 5) (life_record (wit_life wit_scripted))"
  have wf: "\<forall>o'\<in>set wit_outcomes. wf_outcome o'"
    unfolding Ball_set by code_simp
  have pl: "Payload (message_of wit_scripted) = Some (typed wit_outcomes)"
    by (simp add: typed_def wit_outcomes_def wit_scripted_def message_of_def)
  have att: "GetRetryAttempt (Some (message_of wit_scripted)) = 0"
    by (simp add: GetRetryAttempt_def message_of_def wit_scripted_def wit_source_def)
  have j: "journey wit_twice (message_of wit_scripted) [wit_life wit_scripted] ?m"
    by (rule wit_journey [OF _ att]) (simp add: wit_scripted_def wit_source_def)
  have wt: "fst (pg_wait wit_pg_env ?m \<lparr>pg_out = [], pg_rest = ()\<rparr>) = None"
    by (simp add: pg_wait_def wit_pg_env_def api_WaitUntilRetryTime_def WaitUntilRetryTime_def Let_def)
  have o: "wit_outcomes ! min (length [wit_life wit_scripted]) (length wit_outcomes - 1)
      = \<lparr>OKind = ''ok'', OStep = 0, OCode = [], OToken = ''ok''\<rparr>"
    by (simp add: wit_outcomes_def)
  from script_followed_across_retries [OF _ wf pl att j _ wt o [symmetric],
      where h = "\<lparr>hname = ''retry'', processingDelay = 0\<rparr>" and ctx = "[]" and payload = None] j show ?thesis
    by (intro exI [of _ ?m])
      (auto simp: wit_outcomes_def kind_defs split: handler_outcome.splits option.splits)
qed

end
