(* ===== verification/Playground_Main.thy ===== *)
theory Playground_Main
  imports Playground_Handler Subscriber_Properties
begin

text \<open>
  The playground's two commands (\<open>examples/playground/cmd/consumer/main.go\<close> and
  \<open>cmd/producer/main.go\<close>): the checks of the flags, the strategy and the consumers that are built from
  them, the expansion of the producer's arguments, and its sending loop. Reading the flags off the
  command line is the \<open>flag\<close> package's work and left out; the client library is an argument. What runs
  the consumers, and how the commands end, is in \<open>Playground_Run\<close>.
\<close>

section \<open>The consumer command\<close>

record pg_config =
  pgBrokers :: "string list"
  pgTopic :: string
  pgGroup :: string
  pgMode :: string
  pgBatchSize :: int
  pgBatchTimeout :: duration
  pgStrategy :: string
  pgMaxAttempts :: int
  pgInitialDelay :: duration
  pgMaxDelay :: duration
  noRetryConsumer :: bool
  pgProcessingDelay :: duration

definition modeSingle :: string where
  "modeSingle = ''single''"

definition modeBatch :: string where
  "modeBatch = ''batch''"

definition strategyRetry :: string where
  "strategyRetry = ''retry''"

definition strategySkip :: string where
  "strategySkip = ''skip''"

definition strategyFailFast :: string where
  "strategyFailFast = ''fail-fast''"

definition pg_pollTimeout :: duration where
  "pg_pollTimeout = 100 * Millisecond"

text \<open>The values the flags have when they are not given.\<close>

definition default_flags :: pg_config where
  "default_flags =
     \<lparr>pgBrokers = [''localhost:9092''], pgTopic = ''demo.orders'', pgGroup = ''demo'', pgMode = modeSingle,
      pgBatchSize = 10, pgBatchTimeout = 2 * Second, pgStrategy = strategyRetry, pgMaxAttempts = 3,
      pgInitialDelay = 2 * Second, pgMaxDelay = 30 * Second, noRetryConsumer = False, pgProcessingDelay = 0\<rparr>"

text \<open>What is left of \<open>parseFlags\<close> once the flags and the other arguments are read.\<close>

definition parseFlags :: "string \<Rightarrow> string list \<Rightarrow> pg_config \<Rightarrow> gerror option \<times> pg_config" where
  "parseFlags brokersText args cfg0 =
     (let cfg = cfg0\<lparr>pgBrokers := strings_Split CHR '','' brokersText\<rparr>
      in if length args > 0
         then (Some (Errorf [Txt ''unexpected arguments: '', Fmt ''%v'' (''['' @ join_on CHR '' '' args @ '']'')]), cfg)
         else if pgMode cfg \<noteq> modeSingle \<and> pgMode cfg \<noteq> modeBatch
         then (Some (Errorf [Txt ''--mode must be '', Txt modeSingle, Txt '' or '', Txt modeBatch, Txt '', not '', Quoted (pgMode cfg)]), cfg)
         else if pgStrategy cfg \<notin> {strategyRetry, strategySkip, strategyFailFast}
         then (Some (Errorf [Txt ''--strategy must be '', Txt strategyRetry, Txt '', '', Txt strategySkip,
                  Txt '' or '', Txt strategyFailFast, Txt '', not '', Quoted (pgStrategy cfg)]), cfg)
         else (None, cfg))"

datatype pg_strategy = PgSkip skip_strategy | PgFailFast fail_fast_strategy | PgRetry retry_strategy

definition newStrategy :: "pg_config \<Rightarrow> logger \<Rightarrow> gerror + pg_strategy" where
  "newStrategy cfg logger =
     (if pgStrategy cfg = strategySkip then Inr (PgSkip (NewSkipStrategy logger))
      else if pgStrategy cfg = strategyFailFast then Inr (PgFailFast NewFailFastStrategy)
      else
        (case NewRetryStrategy
                [WithRetryTopic (pgTopic cfg @ ''.retry''), WithDLQTopic (pgTopic cfg @ ''.dlq''),
                 WithMaxAttempts (pgMaxAttempts cfg), WithInitialDelay (pgInitialDelay cfg),
                 WithMaxDelay (pgMaxDelay cfg)] of
           Inl err \<Rightarrow> Inl (Errorf [Txt ''retry strategy: '', W err])
         | Inr r \<Rightarrow> Inr (PgRetry r)))"

text \<open>The options of one consumer, and the consumer. \<open>ops\<close> is the strategy as the subscriber calls it.\<close>

definition pg_options ::
  "'x pg_env \<Rightarrow> 'x pg_world strategy_ops \<Rightarrow> string \<Rightarrow> string \<Rightarrow> string \<Rightarrow> pg_config \<Rightarrow> logger
     \<Rightarrow> 'x pg_world sub_opt list" where
  "pg_options E st name topic grp cfg logger =
     (let h = \<lparr>hname = name, processingDelay = pgProcessingDelay cfg\<rparr>
      in [SoTopic topic, SoBrokers (pgBrokers cfg), SoGroup grp, SoStrategy (Some st),
          SoLogger logger, SoPollTimeout pg_pollTimeout]
         @ (if pgMode cfg = modeBatch
            then [SoBatchHandler (Some (handleBatch E h)), SoBatchSize (pgBatchSize cfg),
                  SoBatchTimeout (pgBatchTimeout cfg)]
            else [SoHandler (Some (\<lambda>msg. pg_handle E h (WithMessage [] (Some msg))))]))"

definition newConsumer ::
  "'x pg_env \<Rightarrow> (pg_strategy \<Rightarrow> 'x pg_world strategy_ops) \<Rightarrow> (logger \<Rightarrow> 'x pg_world strategy_ops) \<Rightarrow> string \<Rightarrow> string \<Rightarrow> string
     \<Rightarrow> pg_config \<Rightarrow> logger \<Rightarrow> gerror + 'x pg_world sconfig" where
  "newConsumer E ops skip name topic grp cfg logger =
     (case newStrategy cfg logger of
        Inl err \<Rightarrow> Inl err
      | Inr st \<Rightarrow>
          (case sub_New skip (map sub_option_of (pg_options E (ops st) name topic grp cfg logger)) of
             Inl err \<Rightarrow> Inl (Errorf [Txt name, Txt '' consumer: '', W err])
           | Inr c \<Rightarrow> Inr c))"

text \<open>The consumers \<open>run\<close> starts.\<close>

definition pg_consumers ::
  "'x pg_env \<Rightarrow> (pg_strategy \<Rightarrow> 'x pg_world strategy_ops) \<Rightarrow> (logger \<Rightarrow> 'x pg_world strategy_ops) \<Rightarrow> pg_config
     \<Rightarrow> logger \<Rightarrow> gerror + (string \<times> 'x pg_world sconfig) list" where
  "pg_consumers E ops skip cfg logger =
     (case newConsumer E ops skip ''source'' (pgTopic cfg) (pgGroup cfg) cfg logger of
        Inl err \<Rightarrow> Inl err
      | Inr source \<Rightarrow>
          if noRetryConsumer cfg then Inr [(''source'', source)]
          else
            (case newConsumer E ops skip ''retry'' (pgTopic cfg @ ''.retry'') (pgGroup cfg @ ''-retry'') cfg logger of
               Inl err \<Rightarrow> Inl err
             | Inr retry \<Rightarrow> Inr [(''source'', source), (''retry'', retry)]))"

section \<open>The producer command\<close>

definition binWord :: string where
  "binWord = ''bin''"

definition binPayload :: bytes where
  "binPayload = map char_of [255, 254, 0, 128, 98, 105, 110, 195, 40::nat]"

definition is_digit :: "char \<Rightarrow> bool" where
  "is_digit c \<longleftrightarrow> digit_val c \<noteq> None"

text \<open>The match of \<open>^(\d+)x(.+)$\<close>: the digits and the text. The dot matches no newline.\<close>

definition repeatPrefix :: "string \<Rightarrow> (string \<times> string) option" where
  "repeatPrefix arg =
     (let ds = takeWhile is_digit arg
      in case dropWhile is_digit arg of
           c # text \<Rightarrow>
             if ds \<noteq> [] \<and> c = CHR ''x'' \<and> text \<noteq> [] \<and> CHR 0x0A \<notin> set text then Some (ds, text) else None
         | [] \<Rightarrow> None)"

definition expand_arg :: "string \<Rightarrow> gerror + bytes list" where
  "expand_arg arg =
     (let payload_of = (\<lambda>text. if text = binWord then binPayload else text)
      in case repeatPrefix arg of
           None \<Rightarrow> Inr [payload_of arg]
         | Some (digits, text) \<Rightarrow>
             (case atoi digits of
                None \<Rightarrow> Inl (Errorf [Quoted arg, Txt '': repeat count must be a positive number''])
              | Some n \<Rightarrow>
                  if n < 1 then Inl (Errorf [Quoted arg, Txt '': repeat count must be a positive number''])
                  else Inr (replicate (nat n) (payload_of text))))"

fun expand_args :: "string list \<Rightarrow> bytes list \<Rightarrow> gerror + bytes list" where
  "expand_args [] payloads = Inr payloads"
| "expand_args (arg # args) payloads =
     (case expand_arg arg of Inl err \<Rightarrow> Inl err | Inr ps \<Rightarrow> expand_args args (payloads @ ps))"

definition expand :: "string list \<Rightarrow> gerror + bytes list" where
  "expand args = (if length args = 0 then Inl (Plain ''no messages given'') else expand_args args [])"

text \<open>\<open>%04d\<close>.\<close>

definition pad4 :: "nat \<Rightarrow> string" where
  "pad4 n = (let ds = nat_dec n in replicate (4 - length ds) CHR ''0'' @ ds)"

definition describe :: "bytes \<Rightarrow> string" where
  "describe payload =
     (if payload = binPayload then ''<binary, '' @ itoa (int (length payload)) @ '' bytes>'' else payload)"

text \<open>
  The delivery channel gets one event per record: a message with its position or error, or something
  else. \<open>produce\<close> is the client's \<open>Produce\<close> followed by that event.
\<close>

datatype pg_delivery = Delivered int int "gerror option" | OtherDelivery

type_synonym 'p pg_produce = "string \<Rightarrow> int \<Rightarrow> string \<Rightarrow> bytes \<Rightarrow> 'p \<Rightarrow> (gerror + pg_delivery) \<times> 'p"

fun send_each ::
  "'p pg_produce \<Rightarrow> string \<Rightarrow> string \<Rightarrow> int \<Rightarrow> nat \<Rightarrow> bytes list \<Rightarrow> (string \<times> int \<times> int \<times> string) list \<Rightarrow> 'p
     \<Rightarrow> gerror option \<times> (string \<times> int \<times> int \<times> string) list \<times> 'p" where
  "send_each produce topic keyPrefix part i [] out p = (None, out, p)"
| "send_each produce topic keyPrefix part i (payload # payloads) out p =
     (let key = keyPrefix @ ''-'' @ pad4 (i + 1)
      in case produce topic part key payload p of
           (Inl err, p') \<Rightarrow> (Some (Errorf [Txt ''producing '', Txt key, Txt '': '', W err]), out, p')
         | (Inr OtherDelivery, p') \<Rightarrow>
             (Some (Errorf [Txt ''producing '', Txt key, Txt '': unexpected delivery event'']), out, p')
         | (Inr (Delivered pt off (Some err)), p') \<Rightarrow>
             (Some (Errorf [Txt ''delivering '', Txt key, Txt '': '', W err]), out, p')
         | (Inr (Delivered pt off None), p') \<Rightarrow>
             send_each produce topic keyPrefix part (Suc i) payloads (out @ [(key, pt, off, describe payload)]) p')"

text \<open>\<open>kfk.PartitionAny\<close> is -1.\<close>

definition pg_send ::
  "(string \<Rightarrow> gerror + 'p) \<Rightarrow> 'p pg_produce \<Rightarrow> string \<Rightarrow> string \<Rightarrow> string \<Rightarrow> int \<Rightarrow> bytes list
     \<Rightarrow> gerror option \<times> (string \<times> int \<times> int \<times> string) list" where
  "pg_send newProducer produce servers topic keyPrefix part payloads =
     (case newProducer servers of
        Inl err \<Rightarrow> (Some (Errorf [Txt ''creating producer: '', W err]), [])
      | Inr p \<Rightarrow>
          (case send_each produce topic keyPrefix (if part < 0 then -1 else part) 0 payloads [] p of
             (err, out, _) \<Rightarrow> (err, out)))"

section \<open>Lemmas\<close>

text \<open>With the flags' checks passed and sensible numbers, both consumers are built and ready.\<close>

lemma newStrategy_ok:
  assumes "0 < pgMaxAttempts cfg" and "0 < pgInitialDelay cfg" and "0 < pgMaxDelay cfg"
  shows "\<exists>st. newStrategy cfg logger = Inr st"
  using assms by (auto simp: newStrategy_def NewRetryStrategy_def WithRetryTopic_def WithDLQTopic_def
      WithMaxAttempts_def WithInitialDelay_def WithMaxDelay_def)

lemma newConsumer_ok:
  assumes "0 < pgMaxAttempts cfg" and "0 < pgInitialDelay cfg" and "0 < pgMaxDelay cfg"
    and "topic \<noteq> []" and "grp \<noteq> []" and "pgBrokers cfg \<noteq> []" and "[] \<notin> set (pgBrokers cfg)"
    and "0 < pgBatchSize cfg" and "0 < pgBatchTimeout cfg"
  shows "\<exists>c. newConsumer E ops skip name topic grp cfg logger = Inr c \<and> sconfig_ready c"
proof -
  obtain st where st: "newStrategy cfg logger = Inr st" using newStrategy_ok [OF assms(1-3)] by blast
  obtain c where c: "sub_New skip (map sub_option_of (pg_options E (ops st) name topic grp cfg logger)) = Inr c"
    using assms(4-9)
    by (cases "pgMode cfg = modeBatch")
      (auto simp: pg_options_def sub_New_def sub_option_defs zero_config_def Validate_def Let_def Second_def
        Millisecond_def pg_pollTimeout_def)
  with st sub_New_ready [OF c] show ?thesis by (simp add: newConsumer_def)
qed

lemma expand_args_append: "expand_args args ps = map_sum id ((@) ps) (expand_args args [])"
proof (induction args arbitrary: ps)
  case Nil
  then show ?case by simp
next
  case (Cons arg args)
  show ?case
  proof (cases "expand_arg arg")
    case (Inr qs)
    have "expand_args args (ps @ qs) = map_sum id ((@) (ps @ qs)) (expand_args args [])" by (rule Cons.IH)
    moreover have "expand_args args qs = map_sum id ((@) qs) (expand_args args [])" by (rule Cons.IH)
    ultimately show ?thesis using Inr by (cases "expand_args args []") simp_all
  qed simp
qed

text \<open>The keys of the records sent are numbered from 1, and the loop stops at the first failure.\<close>

lemma send_each_keys:
  assumes "send_each produce topic kp part i payloads out p = (err, out', p')"
  shows "\<exists>n \<le> length payloads. map fst out' = map fst out @ map (\<lambda>k. kp @ ''-'' @ pad4 (i + k + 1)) [0..<n]
    \<and> (err = None \<longrightarrow> n = length payloads)"
  using assms
proof (induction payloads arbitrary: i out p)
  case Nil
  then show ?case by (intro exI [of _ 0]) simp
next
  case (Cons payload payloads)
  let ?key = "kp @ ''-'' @ pad4 (i + 1)"
  obtain r p1 where pr: "produce topic part ?key payload p = (r, p1)" by fastforce
  show ?case
  proof (cases "\<exists>pt off. r = Inr (Delivered pt off None)")
    case True
    then obtain pt off where r: "r = Inr (Delivered pt off None)" by blast
    with Cons.prems pr have "send_each produce topic kp part (Suc i) payloads (out @ [(?key, pt, off, describe payload)]) p1
        = (err, out', p')" by (simp add: Let_def)
    from Cons.IH [OF this] obtain n where n: "n \<le> length payloads" "err = None \<longrightarrow> n = length payloads"
      "map fst out' = map fst out @ ?key # map (\<lambda>k. kp @ ''-'' @ pad4 (Suc i + k + 1)) [0..<n]" by auto
    have "map (\<lambda>k. kp @ ''-'' @ pad4 (i + k + 1)) [0..<Suc n] = ?key # map (\<lambda>k. kp @ ''-'' @ pad4 (Suc i + k + 1)) [0..<n]"
      by (simp add: upt_conv_Cons map_Suc_upt [symmetric] del: upt_Suc)
    with n show ?thesis by (intro exI [of _ "Suc n"]) simp
  next
    case False
    with Cons.prems pr have "out' = out" "err \<noteq> None"
      by (auto simp: Let_def split: sum.splits pg_delivery.splits option.splits)
    then show ?thesis by (intro exI [of _ 0]) simp
  qed
qed

end
