(* ===== verification/Playground_Run.thy ===== *)
theory Playground_Run
  imports Playground_Main Fairness
begin

text \<open>
  How the playground's consumer command runs its consumers (\<open>run\<close> and \<open>main\<close> of
  \<open>examples/playground/cmd/consumer/main.go\<close>) and how the producer command ends (\<open>main\<close> of
  \<open>cmd/producer/main.go\<close>). One goroutine per consumer calls \<open>Start\<close>, appends its error under the
  mutex and cancels the shared context; \<open>run\<close> waits for all of them. The goroutines interleave, so
  \<open>run\<close> is a step relation. Of \<open>Start\<close> only that it returns, with an error or without, is used here.
\<close>

section \<open>The goroutines of \<open>run\<close>\<close>

datatype goroutine = InStart | Failing gerror | Recorded gerror | Finished "gerror option"

datatype run_line = RunBanner pg_config | RunStopped

record run_state =
  run_names :: "string list"
  goroutines :: "goroutine list"
  parentDone :: bool
  cancelled :: bool
  run_errs :: "gerror list"
  run_lines :: "run_line list"
  run_result :: "gerror option option"

definition ctx_done :: "run_state \<Rightarrow> bool" where
  "ctx_done s \<longleftrightarrow> parentDone s \<or> cancelled s"

definition consumer_error :: "string \<Rightarrow> gerror \<Rightarrow> gerror" where
  "consumer_error name err = Errorf [Txt name, Txt '' consumer: '', W err]"

text \<open>The beginning of \<open>run\<close>, from the consumers it built.\<close>

definition run_begin :: "pg_config \<Rightarrow> gerror + (string \<times> 'c) list \<Rightarrow> run_state" where
  "run_begin cfg built =
     (case built of
        Inl err \<Rightarrow>
          \<lparr>run_names = [], goroutines = [], parentDone = False, cancelled = False, run_errs = [],
           run_lines = [], run_result = Some (Some err)\<rparr>
      | Inr consumers \<Rightarrow>
          \<lparr>run_names = map fst consumers, goroutines = map (\<lambda>_. InStart) consumers, parentDone = False,
           cancelled = False, run_errs = [], run_lines = [RunBanner cfg], run_result = None\<rparr>)"

text \<open>
  The steps: the signal that ends the parent context, the four of a goroutine, and the end of the
  wait. \<open>Start\<close> may fail at any time and return nil at any time.
\<close>

inductive run_step :: "run_state \<Rightarrow> run_state \<Rightarrow> bool" where
  signal: "run_step s (s\<lparr>parentDone := True\<rparr>)"
| start_failed:
    "i < length (goroutines s) \<Longrightarrow> goroutines s ! i = InStart \<Longrightarrow>
     run_step s (s\<lparr>goroutines := (goroutines s)[i := Failing err]\<rparr>)"
| start_ended:
    "i < length (goroutines s) \<Longrightarrow> goroutines s ! i = InStart \<Longrightarrow>
     run_step s (s\<lparr>goroutines := (goroutines s)[i := Finished None]\<rparr>)"
| append_error:
    "i < length (goroutines s) \<Longrightarrow> goroutines s ! i = Failing err \<Longrightarrow>
     run_step s (s\<lparr>goroutines := (goroutines s)[i := Recorded err],
                    run_errs := run_errs s @ [consumer_error (run_names s ! i) err]\<rparr>)"
| cancel:
    "i < length (goroutines s) \<Longrightarrow> goroutines s ! i = Recorded err \<Longrightarrow>
     run_step s (s\<lparr>goroutines := (goroutines s)[i := Finished (Some err)], cancelled := True\<rparr>)"
| waited:
    "run_result s = None \<Longrightarrow> (\<And>i. i < length (goroutines s) \<Longrightarrow> \<exists>r. goroutines s ! i = Finished r) \<Longrightarrow>
     run_step s (s\<lparr>run_lines := run_lines s @ [RunStopped], run_result := Some (errors_Join (run_errs s))\<rparr>)"

section \<open>The end of the two commands\<close>

text \<open>The exit status and the lines on standard error.\<close>

datatype exit_line = ErrLine string gerror | UsageText

definition exitUsage :: int where
  "exitUsage = 2"

definition consumer_main :: "gerror option \<times> pg_config \<Rightarrow> (pg_config \<Rightarrow> gerror option) \<Rightarrow> int \<times> exit_line list" where
  "consumer_main parsed runs =
     (case parsed of
        (Some err, _) \<Rightarrow> (exitUsage, [ErrLine ''consumer:'' err])
      | (None, cfg) \<Rightarrow>
          (case runs cfg of
             Some err \<Rightarrow> (1, [ErrLine ''consumer:'' err])
           | None \<Rightarrow> (0, [])))"

text \<open>\<open>int32(x)\<close>.\<close>

definition to_int32 :: "int \<Rightarrow> int" where
  "to_int32 x = (x + 2 ^ 31) mod 2 ^ 32 - 2 ^ 31"

text \<open>The parsed flags of the producer command, with the values they have when they are not given.\<close>

record producer_flags =
  pfBrokers :: string
  pfTopic :: string
  pfKeyPrefix :: string
  pfPartition :: int

definition default_producer_flags :: producer_flags where
  "default_producer_flags =
     \<lparr>pfBrokers = ''localhost:9092'', pfTopic = ''demo.orders'', pfKeyPrefix = ''msg'', pfPartition = -1\<rparr>"

definition producer_main ::
  "(string \<Rightarrow> gerror + 'p) \<Rightarrow> 'p pg_produce \<Rightarrow> producer_flags \<Rightarrow> string list
     \<Rightarrow> int \<times> exit_line list \<times> (string \<times> int \<times> int \<times> string) list" where
  "producer_main newProducer produce flags args =
     (case expand args of
        Inl err \<Rightarrow> (exitUsage, [ErrLine ''producer:'' err, UsageText], [])
      | Inr payloads \<Rightarrow>
          (case pg_send newProducer produce (pfBrokers flags) (pfTopic flags) (pfKeyPrefix flags)
                  (to_int32 (pfPartition flags)) payloads of
             (Some err, sent) \<Rightarrow> (1, [ErrLine ''producer:'' err], sent)
           | (None, sent) \<Rightarrow> (0, [], sent)))"

section \<open>The invariant\<close>

fun failure_of :: "string \<times> goroutine \<Rightarrow> gerror option" where
  "failure_of (name, Recorded err) = Some (consumer_error name err)"
| "failure_of (name, Finished (Some err)) = Some (consumer_error name err)"
| "failure_of _ = None"

definition run_failures :: "string list \<Rightarrow> goroutine list \<Rightarrow> gerror list" where
  "run_failures ns gs = List.map_filter failure_of (zip ns gs)"

fun is_finished :: "goroutine \<Rightarrow> bool" where
  "is_finished (Finished _) = True"
| "is_finished _ = False"

definition mset_of_option :: "'a option \<Rightarrow> 'a multiset" where
  "mset_of_option x = (case x of None \<Rightarrow> {#} | Some y \<Rightarrow> {#y#})"

definition run_inv :: "nat \<Rightarrow> run_state \<Rightarrow> bool" where
  "run_inv k s \<longleftrightarrow>
     length (run_names s) = k \<and> length (goroutines s) = k
     \<and> mset (run_errs s) = mset (run_failures (run_names s) (goroutines s))
     \<and> (\<forall>res. run_result s = Some res \<longrightarrow> list_all is_finished (goroutines s) \<and> res = errors_Join (run_errs s))"

section \<open>Lemmas\<close>

lemma is_finished_iff: "is_finished g \<longleftrightarrow> (\<exists>r. g = Finished r)"
  by (cases g) auto

lemma run_failures_update:
  assumes "i < length gs" and "length ns = length gs"
  shows "mset (run_failures ns (gs[i := g])) + mset_of_option (failure_of (ns ! i, gs ! i)) =
    mset (run_failures ns gs) + mset_of_option (failure_of (ns ! i, g))"
proof -
  let ?zs = "zip ns gs"
  have i: "i < length ?zs" and zi: "?zs ! i = (ns ! i, gs ! i)" using assms by simp_all
  have "zip ns (gs[i := g]) = ?zs[i := (ns ! i, g)]" using assms(2) by (simp add: zip_update [symmetric])
  also have "\<dots> = take i ?zs @ (ns ! i, g) # drop (Suc i) ?zs" using i by (rule upd_conv_take_nth_drop)
  finally have new: "run_failures ns (gs[i := g]) =
      List.map_filter failure_of (take i ?zs @ (ns ! i, g) # drop (Suc i) ?zs)"
    by (simp only: run_failures_def)
  have "run_failures ns gs = List.map_filter failure_of (take i ?zs @ (ns ! i, gs ! i) # drop (Suc i) ?zs)"
    unfolding run_failures_def using id_take_nth_drop [OF i] unfolding zi by simp
  then show ?thesis unfolding new
    by (simp add: List.map_filter_def mset_of_option_def split: option.split)
qed

lemma finished_update:
  "list_all is_finished gs \<Longrightarrow> i < length gs \<Longrightarrow> \<not> is_finished (gs ! i) \<Longrightarrow> False"
  by (auto simp: list_all_length)

text \<open>A goroutine that was not finished moves on, and the errors recorded follow it.\<close>

lemma run_inv_move:
  assumes "run_inv k s" and "i < length (goroutines s)" and "\<not> is_finished (goroutines s ! i)"
    and "goroutines t = (goroutines s)[i := g]" and "run_names t = run_names s" and "run_result t = run_result s"
    and "mset (run_errs t) + mset_of_option (failure_of (run_names s ! i, goroutines s ! i)) =
      mset (run_errs s) + mset_of_option (failure_of (run_names s ! i, g))"
  shows "run_inv k t"
proof -
  have "run_result s = None"
    using assms(1-3) finished_update [of "goroutines s" i] by (cases "run_result s") (auto simp: run_inv_def)
  moreover have "mset (run_errs t) = mset (run_failures (run_names s) ((goroutines s)[i := g]))"
  proof -
    have len: "length (run_names s) = length (goroutines s)"
      and errs: "mset (run_errs s) = mset (run_failures (run_names s) (goroutines s))"
      using assms(1) by (simp_all add: run_inv_def)
    from run_failures_update [OF assms(2) len, of g] assms(7) show ?thesis
      unfolding errs by (metis add_right_cancel)
  qed
  ultimately show ?thesis using assms by (simp add: run_inv_def)
qed

lemma run_step_inv: "run_step s t \<Longrightarrow> run_inv k s \<Longrightarrow> run_inv k t"
proof (induction rule: run_step.induct)
  case (waited s)
  then show ?case by (auto simp: run_inv_def list_all_length is_finished_iff)
next
  case (start_failed i s err)
  then show ?case by (rule_tac run_inv_move [of k s i _ "Failing err"]) simp_all
next
  case (start_ended i s)
  then show ?case by (rule_tac run_inv_move [of k s i _ "Finished None"]) simp_all
next
  case (append_error i s err)
  then show ?case by (rule_tac run_inv_move [of k s i _ "Recorded err"]) (simp_all add: mset_of_option_def)
next
  case (cancel i s err)
  then show ?case by (rule_tac run_inv_move [of k s i _ "Finished (Some err)"]) simp_all
qed (simp add: run_inv_def)

section \<open>Fair runs\<close>

text \<open>
  What must not starve: a goroutine past \<open>Start\<close>, a \<open>Start\<close> whose context has ended, which returns,
  and \<open>run\<close> when the wait is over.
\<close>

inductive goroutine_step :: "nat \<Rightarrow> run_state \<Rightarrow> run_state \<Rightarrow> bool" for i :: nat where
  "i < length (goroutines s) \<Longrightarrow> goroutines s ! i = InStart \<Longrightarrow> ctx_done s \<Longrightarrow>
     goroutine_step i s (s\<lparr>goroutines := (goroutines s)[i := Failing err]\<rparr>)"
| "i < length (goroutines s) \<Longrightarrow> goroutines s ! i = InStart \<Longrightarrow> ctx_done s \<Longrightarrow>
     goroutine_step i s (s\<lparr>goroutines := (goroutines s)[i := Finished None]\<rparr>)"
| "i < length (goroutines s) \<Longrightarrow> goroutines s ! i = Failing err \<Longrightarrow>
     goroutine_step i s (s\<lparr>goroutines := (goroutines s)[i := Recorded err],
                          run_errs := run_errs s @ [consumer_error (run_names s ! i) err]\<rparr>)"
| "i < length (goroutines s) \<Longrightarrow> goroutines s ! i = Recorded err \<Longrightarrow>
     goroutine_step i s (s\<lparr>goroutines := (goroutines s)[i := Finished (Some err)], cancelled := True\<rparr>)"

inductive wait_step :: "run_state \<Rightarrow> run_state \<Rightarrow> bool" where
  "run_result s = None \<Longrightarrow> list_all is_finished (goroutines s) \<Longrightarrow>
     wait_step s (s\<lparr>run_lines := run_lines s @ [RunStopped], run_result := Some (errors_Join (run_errs s))\<rparr>)"

inductive_simps goroutine_step_iff: "goroutine_step i s t"
inductive_simps wait_step_iff: "wait_step s t"

definition fair_pg_run :: "pg_config \<Rightarrow> (string \<times> 'c) list \<Rightarrow> (nat \<Rightarrow> run_state) \<Rightarrow> bool" where
  "fair_pg_run cfg consumers \<sigma> \<longleftrightarrow>
     is_run (\<lambda>s. s = run_begin cfg (Inr consumers)) run_step \<sigma>
     \<and> (\<forall>i. weakly_fair (goroutine_step i) \<sigma>) \<and> weakly_fair wait_step \<sigma>"

fun rank :: "goroutine \<Rightarrow> nat" where
  "rank InStart = 3"
| "rank (Failing _) = 2"
| "rank (Recorded _) = 1"
| "rank (Finished _) = 0"

lemma run_action_steps: "goroutine_step i s t \<Longrightarrow> run_step s t" "wait_step s t \<Longrightarrow> run_step s t"
  by (auto simp: goroutine_step_iff wait_step_iff list_all_length is_finished_iff intro: run_step.intros)

interpretation pg: invariant_system "\<lambda>s. s = run_begin cfg (Inr consumers)" run_step "run_inv (length consumers)"
  for cfg and consumers :: "(string \<times> 'c) list"
proof unfold_locales
  show "run_inv (length consumers) s" if "s = run_begin cfg (Inr consumers)" for s
    unfolding that run_begin_def run_inv_def run_failures_def List.map_filter_def
    by (auto simp: zip_map_map filter_empty_conv set_zip)
qed (rule run_step_inv)

text \<open>No step moves a goroutine back.\<close>

lemma rank_step:
  "run_step s t \<Longrightarrow> i < length (goroutines s) \<Longrightarrow> rank (goroutines t ! i) \<le> rank (goroutines s ! i)
     \<and> length (goroutines t) = length (goroutines s) \<and> (ctx_done s \<longrightarrow> ctx_done t)"
  by (induction rule: run_step.induct) (auto simp: nth_list_update ctx_done_def)

lemma run_step_length: "run_step s t \<Longrightarrow> length (goroutines t) = length (goroutines s)"
  by (induction rule: run_step.induct) auto

lemma rank_goroutine_step:
  "goroutine_step i s t \<Longrightarrow> i < length (goroutines s) \<and> rank (goroutines t ! i) < rank (goroutines s ! i)"
  by (auto simp: goroutine_step_iff)

lemma goroutine_enabled:
  assumes "i < length (goroutines s)" and "goroutines s ! i = InStart \<Longrightarrow> ctx_done s"
  shows "enabled (goroutine_step i) s \<or> is_finished (goroutines s ! i)"
  using assms by (cases "goroutines s ! i") (auto simp: enabled_def goroutine_step_iff)

lemma rank_finished: "is_finished g \<longleftrightarrow> rank g = 0"
  by (cases g) auto

subsection \<open>From the end of the context to the return\<close>

definition has_failed :: "nat \<Rightarrow> run_state \<Rightarrow> bool" where
  "has_failed i s \<longleftrightarrow> i < length (goroutines s) \<and> rank (goroutines s ! i) \<in> {1, 2}"

lemma has_failed_step: "run_step s t \<Longrightarrow> has_failed i s \<Longrightarrow> has_failed i t \<or> ctx_done t"
  by (induction rule: run_step.induct) (auto simp: has_failed_def nth_list_update ctx_done_def)

lemma failure_leads:
  assumes "fair_pg_run cfg consumers \<sigma>"
  shows "leads_to \<sigma> (has_failed i) ctx_done"
proof (rule pg.helpful_measure [of cfg consumers \<sigma> "goroutine_step i" _ "\<lambda>s. rank (goroutines s ! i)"])
  show "is_run (\<lambda>s. s = run_begin cfg (Inr consumers)) run_step \<sigma>" "weakly_fair (goroutine_step i) \<sigma>"
    using assms by (simp_all add: fair_pg_run_def)
  show "has_failed i t \<and> rank (goroutines t ! i) \<le> rank (goroutines s ! i) \<or> ctx_done t"
    if "has_failed i s" "run_step s t" for s t
    using that has_failed_step [OF that(2,1)] rank_step [OF that(2), of i] by (auto simp: has_failed_def)
  show "has_failed i t \<and> rank (goroutines t ! i) < rank (goroutines s ! i) \<or> ctx_done t"
    if "has_failed i s" "goroutine_step i s t" for s t
    using has_failed_step [OF run_action_steps(1) [OF that(2)] that(1)] rank_goroutine_step [OF that(2)] by auto
  show "enabled (goroutine_step i) s \<or> ctx_done s" if "has_failed i s" for s
    using that goroutine_enabled [of i s] by (cases "goroutines s ! i") (auto simp: has_failed_def)
qed

definition goroutine_done :: "nat \<Rightarrow> nat \<Rightarrow> run_state \<Rightarrow> bool" where
  "goroutine_done k i s \<longleftrightarrow> length (goroutines s) = k \<and> (i < k \<longrightarrow> is_finished (goroutines s ! i))"

lemma goroutine_done_step: "goroutine_done k i s \<Longrightarrow> run_step s t \<Longrightarrow> goroutine_done k i t"
  using rank_step [of s t i] run_step_length [of s t] by (auto simp: goroutine_done_def rank_finished)

lemma done_leads:
  assumes "fair_pg_run cfg consumers \<sigma>" and "i < length consumers"
  shows "leads_to \<sigma> ctx_done (goroutine_done (length consumers) i)"
proof (rule pg.helpful_measure [of cfg consumers \<sigma> "goroutine_step i" _ "\<lambda>s. rank (goroutines s ! i)"])
  show "is_run (\<lambda>s. s = run_begin cfg (Inr consumers)) run_step \<sigma>" "weakly_fair (goroutine_step i) \<sigma>"
    using assms by (simp_all add: fair_pg_run_def)
  have len: "i < length (goroutines s)" if "run_inv (length consumers) s" for s
    using that assms(2) by (simp add: run_inv_def)
  show "ctx_done t \<and> rank (goroutines t ! i) \<le> rank (goroutines s ! i) \<or> goroutine_done (length consumers) i t"
    if "run_inv (length consumers) s" "ctx_done s" "run_step s t" for s t
    using that rank_step [OF that(3) len [OF that(1)]] by blast
  show "ctx_done t \<and> rank (goroutines t ! i) < rank (goroutines s ! i) \<or> goroutine_done (length consumers) i t"
    if "run_inv (length consumers) s" "ctx_done s" "goroutine_step i s t" for s t
    using that rank_step [OF run_action_steps(1) [OF that(3)] len [OF that(1)]] rank_goroutine_step [OF that(3)] by blast
  show "enabled (goroutine_step i) s \<or> goroutine_done (length consumers) i s"
    if "run_inv (length consumers) s" "ctx_done s" for s
    using that goroutine_enabled [OF len [OF that(1)]] by (auto simp: goroutine_done_def run_inv_def)
qed

lemma return_leads:
  assumes "fair_pg_run cfg consumers \<sigma>"
  shows "leads_to \<sigma> (\<lambda>s. list_all is_finished (goroutines s)) (\<lambda>s. run_result s \<noteq> None)"
proof (rule pg.helpful_action [of cfg consumers \<sigma> wait_step])
  show "is_run (\<lambda>s. s = run_begin cfg (Inr consumers)) run_step \<sigma>" "weakly_fair wait_step \<sigma>"
    using assms by (simp_all add: fair_pg_run_def)
  show "list_all is_finished (goroutines t) \<or> run_result t \<noteq> None"
    if "list_all is_finished (goroutines s)" "run_step s t" for s t
    using that rank_step [OF that(2)] run_step_length [OF that(2)] by (auto simp: list_all_length rank_finished)
qed (auto simp: wait_step_iff enabled_def)

lemma context_end_leads:
  assumes "fair_pg_run cfg consumers \<sigma>"
  shows "leads_to \<sigma> ctx_done (\<lambda>s. run_result s \<noteq> None)"
proof -
  let ?k = "length consumers"
  have run: "is_run (\<lambda>s. s = run_begin cfg (Inr consumers)) run_step \<sigma>" using assms by (simp add: fair_pg_run_def)
  have all: "leads_to \<sigma> ctx_done (\<lambda>s. \<forall>i<?k. goroutine_done ?k i s)"
    by (rule pg.all_goals [OF run]) (use done_leads [OF assms] goroutine_done_step in blast)+
  have "leads_to \<sigma> ctx_done (\<lambda>s. list_all is_finished (goroutines s))"
    unfolding leads_to_def
  proof (intro allI impI)
    fix n assume "ctx_done (\<sigma> n)"
    with all obtain m where m: "m \<ge> n" "\<forall>i<?k. goroutine_done ?k i (\<sigma> m)" unfolding leads_to_def by blast
    with pg.run_inv [OF run, of m] have "list_all is_finished (goroutines (\<sigma> m))"
      by (auto simp: goroutine_done_def list_all_length run_inv_def)
    with m(1) show "\<exists>m\<ge>n. list_all is_finished (goroutines (\<sigma> m))" by blast
  qed
  then show ?thesis by (rule leads_to_trans [OF _ return_leads [OF assms]])
qed

section \<open>Properties\<close>

text \<open>
  C35: one consumer that fails takes the whole command down, and so does a signal. On every run in
  which the goroutines are scheduled fairly and a \<open>Start\<close> whose context has ended returns, once the
  \<open>Start\<close> of one consumer has returned an error or the signal has come, \<open>run\<close> returns; by then every
  consumer has stopped, and the error joins one wrapped error per consumer that failed and no other,
  so it is nil when none did.
\<close>

theorem one_failure_stops_all:
  assumes "fair_pg_run cfg consumers \<sigma>"
    and "parentDone (\<sigma> n) \<or> i < length (goroutines (\<sigma> n)) \<and> goroutines (\<sigma> n) ! i = Failing err"
  shows "\<exists>m\<ge>n. \<exists>errs. run_result (\<sigma> m) = Some (errors_Join errs)
    \<and> list_all is_finished (goroutines (\<sigma> m)) \<and> length (goroutines (\<sigma> m)) = length consumers
    \<and> mset errs = mset (run_failures (run_names (\<sigma> m)) (goroutines (\<sigma> m)))"
proof -
  have run: "is_run (\<lambda>s. s = run_begin cfg (Inr consumers)) run_step \<sigma>" using assms(1) by (simp add: fair_pg_run_def)
  have "has_failed i (\<sigma> n) \<or> ctx_done (\<sigma> n)" using assms(2) by (auto simp: has_failed_def ctx_done_def)
  then obtain m where "m \<ge> n" "ctx_done (\<sigma> m)" using leads_toD [OF failure_leads [OF assms(1)]] by blast
  then obtain m' where m': "m' \<ge> n" "run_result (\<sigma> m') \<noteq> None"
    using leads_toD [OF context_end_leads [OF assms(1)]] le_trans by blast
  with pg.run_inv [OF run, of m'] show ?thesis by (intro exI [of _ m']) (auto simp: run_inv_def)
qed

text \<open>The source consumer fails, and the retry consumer stops without an error.\<close>

definition wit_run_states :: "run_state list" where
  "wit_run_states =
     (let b = run_begin default_flags (Inr [(''source'', ()), (''retry'', ())]);
          e = Plain ''fail-fast'';
          f = b\<lparr>goroutines := [Failing e, InStart]\<rparr>;
          r = b\<lparr>goroutines := [Recorded e, InStart], run_errs := [consumer_error ''source'' e]\<rparr>;
          c = r\<lparr>goroutines := [Finished (Some e), InStart], cancelled := True\<rparr>;
          d = c\<lparr>goroutines := [Finished (Some e), Finished None]\<rparr>
      in [b, f, r, c, d, d\<lparr>run_lines := run_lines d @ [RunStopped], run_result := Some (errors_Join (run_errs d))\<rparr>])"

lemma wit_run_steps: "successively run_step wit_run_states"
proof -
  let ?b = "run_begin default_flags (Inr [(''source'', ()), (''retry'', ())])" and ?e = "Plain ''fail-fast''"
  let ?f = "?b\<lparr>goroutines := [Failing ?e, InStart]\<rparr>"
  let ?r = "?b\<lparr>goroutines := [Recorded ?e, InStart], run_errs := [consumer_error ''source'' ?e]\<rparr>"
  let ?c = "?r\<lparr>goroutines := [Finished (Some ?e), InStart], cancelled := True\<rparr>"
  let ?d = "?c\<lparr>goroutines := [Finished (Some ?e), Finished None]\<rparr>"
  have "run_step ?b ?f" using run_step.start_failed [of 0 ?b ?e] by (simp add: run_begin_def)
  moreover have "run_step ?f ?r" using run_step.append_error [of 0 ?f ?e] by (simp add: run_begin_def)
  moreover have "run_step ?r ?c" using run_step.cancel [of 0 ?r ?e] by (simp add: run_begin_def)
  moreover have "run_step ?c ?d" using run_step.start_ended [of 1 ?c] by (simp add: run_begin_def)
  moreover have "run_step ?d (?d\<lparr>run_lines := run_lines ?d @ [RunStopped], run_result := Some (errors_Join (run_errs ?d))\<rparr>)"
    by (rule run_step.waited) (auto simp: run_begin_def less_Suc_eq)
  ultimately show ?thesis by (simp only: wit_run_states_def Let_def successively.simps simp_thms)
qed

lemma wit_fair: "fair_pg_run default_flags [(''source'', ()), (''retry'', ())] (halting wit_run_states)"
proof -
  have ne: "wit_run_states \<noteq> []" and l: "run_result (last wit_run_states) \<noteq> None"
    "list_all is_finished (goroutines (last wit_run_states))"
    by (simp_all add: wit_run_states_def Let_def)
  have "\<not> enabled wait_step (last wit_run_states)" "\<not> enabled (goroutine_step i) (last wit_run_states)" for i
    using l by (auto simp: enabled_def wait_step_iff goroutine_step_iff list_all_length)
  moreover have "is_run (\<lambda>s. s = run_begin default_flags (Inr [(''source'', ()), (''retry'', ())])) run_step
      (halting wit_run_states)"
    by (rule halting_run [OF ne _ wit_run_steps]) (simp add: wit_run_states_def Let_def)
  ultimately show ?thesis using ne by (simp add: fair_pg_run_def halting_fair)
qed

theorem one_failure_stops_all_witness:
  "\<exists>m\<ge>1. \<exists>errs. run_result (halting wit_run_states m) = Some (errors_Join errs)"
  using one_failure_stops_all [OF wit_fair, of 1 0 "Plain ''fail-fast''"]
  by (auto simp: halting_def wit_run_states_def Let_def)

end
