(* ===== verification/Spec2Isabelle.thy ===== *)
theory Spec2Isabelle
  imports Goroutine_Liveness Publisher_Liveness Strategy_Sharing Consumer_Properties Mode_Equivalence Public_Api Playground_Run
begin

text \<open>
  \<^bold>\<open>Verification library of easykafka-go.\<close>

  easykafka-go is a Go library over confluent-kafka-go. Its \<^emph>\<open>publish\<close> side sends records through one
  asynchronous producer and resolves a \<open>Delivery\<close> per record from the delivery reports; its
  \<^emph>\<open>subscribe\<close> side polls messages, runs the application's handler on them singly or in batches,
  hands failures to an error strategy and stores the offset of finished work. The two meet in the
  retry strategy, which republishes failed messages to a retry or dead-letter topic through a
  publisher of its own.

  \<^bold>\<open>Parts and theories\<close> (sources under \<open>src/\<close>)

  \<^item> \<open>Prelude\<close>: Go's integers, decimal text, maps, error values with \<open>errors.Is\<close> and \<open>errors.As\<close>;
    \<open>Log_Codes\<close>: \<open>internal/logcode\<close>; \<open>Go_Time\<close>: calendar and RFC 3339 text of \<open>time\<close>.
  \<^item> \<open>Publish_Driver\<close>: \<open>internal/publish/publishdriver\<close>. The client library is the record
    \<open>kfk_producer\<close>; \<open>New_producer\<close>, \<open>Produce\<close>, \<open>producer_Flush\<close>, \<open>Purge\<close>, \<open>TopicPartitions\<close>, \<open>producer_Close\<close> are the
    methods of \<open>producer\<close>, \<open>TranslateError\<close> and \<open>TranslateEvent\<close> its translation. The locale
    \<open>producer_iface\<close> is what the publisher relies on.
  \<^item> \<open>Publish_Options\<close>: \<open>publish/options.go\<close>, \<open>codec.go\<close>, \<open>topic.go\<close>, \<open>partitioner.go\<close>. \<open>Publisher\<close>:
    \<open>publish/publisher.go\<close>, \<open>delivery.go\<close>, \<open>writer.go\<close>; a \<open>*Delivery\<close> is an index into \<open>deliveries\<close>.
    \<open>Publisher_System\<close>: senders, driver, report goroutine and \<open>Close\<close> interleaved, as the step
    relation \<open>pub_step\<close>, with the driver known by its contract. \<open>Publisher_Refinement\<close>: the ledger it
    implements (locale \<open>simulation\<close>). \<open>Publisher_Goroutines\<close>: publisher and driver one goroutine step at a
    time, with the locks \<open>lifecycle\<close> and \<open>handleMu\<close>, the translating goroutine and the unbuffered channel
    \<open>reports\<close>, as the labelled relation \<open>full_act\<close>; it implements \<open>pub_step\<close> through the same locale.
    \<open>Fairness\<close>: runs of a step relation and the rules for what must happen on fair ones (locale
    \<open>invariant_system\<close>).
  \<^item> \<open>Sub_Types\<close>, \<open>Batch_Buffer\<close>: \<open>internal/subscribe/types\<close> and \<open>batch\<close>. \<open>Retry_Headers\<close>,
    \<open>Metadata_Api\<close>: \<open>internal/subscribe/metadata\<close> and \<open>subscribe/metadata.go\<close>.
  \<^item> \<open>Strategies\<close>, \<open>Retry_Strategy\<close>: \<open>internal/subscribe/strategy\<close>. The locale \<open>error_strategy\<close> is the
    contract of \<open>ErrorStrategy\<close>: after a nil from \<open>HandleError\<close> the messages are resolved, and stay so.
    Skip, fail-fast and retry are its interpretations. \<open>Strategy_Sharing\<close>: several consumers with one
    retry strategy, interleaved around the atomic claim of \<open>Initialize\<close>, as \<open>share_act\<close>.
  \<^item> \<open>Subscribe_Driver\<close>: \<open>internal/subscribe/subscribedriver\<close>, over the client record \<open>kfk_consumer\<close>.
    \<open>Subscribe_Options\<close>, \<open>Subscriber\<close>: \<open>subscribe/options.go\<close> and \<open>subscriber.go\<close>. One turn of
    \<open>runSingleLoop\<close> is \<open>single_body\<close>, one of \<open>runBatchLoop\<close> is \<open>batch_body\<close>; \<open>run\<close> and \<open>Start\<close> compose
    them. \<open>Subscriber_Stack\<close> puts subscriber, driver, retry strategy and its publisher into one world.
  \<^item> \<open>Public_Api\<close>: the functions \<open>subscribe/strategy.go\<close> and \<open>handler.go\<close> re-export, with the interface
    values they return.
  \<^item> \<open>Playground_Script\<close>, \<open>Playground_Handler\<close>, \<open>Playground_Main\<close>, \<open>Playground_Run\<close>: \<open>examples/playground\<close>; the
    goroutines of its \<open>run\<close> are the step relation \<open>run_step\<close>.

  \<^bold>\<open>What is shown\<close>

  \<^item> This theory: \<open>no_message_lost\<close>, over the whole stack.
  \<^item> \<open>Subscriber_Safety\<close> and \<open>Subscriber_Properties\<close>: no offset is stored over unresolved work, by an
    invariant of the loops on a ghost trace (locale \<open>poll_loop\<close>); the offset stored per partition is the
    highest; \<open>Start\<close> returns; batch sizes, panics, lifecycle and accepted configurations.
    \<open>Subscriber_Turn\<close> carries any relation between worlds through a turn (locale \<open>turn_relation\<close>);
    what is left to poll and what a strategy resolved are its two uses. \<open>Mode_Equivalence\<close>: a turn of
    single-message mode is a batch of one. \<open>Consumer_Properties\<close>: settings, revocation, stores, commits.
  \<^item> \<open>Publisher_Properties\<close>: every delivery is resolved when \<open>Close\<close> has returned, once; what \<open>Close\<close>
    returns and that it does; the fatal error, the error callback and the connection log, as instances
    of the locale \<open>publisher_invariant\<close>. \<open>Driver_Properties\<close>: settings, fatal client errors, waiting, ping.
  \<^item> \<open>Publisher_Goroutines\<close>: the goroutines keep the contract the publisher is proved against, and no
    call is inside the client when it is closed. \<open>Publisher_Liveness\<close> and \<open>Goroutine_Liveness\<close>: on fair
    runs every accepted delivery is resolved or dropped, and a called \<open>Close\<close> gets its locks and returns.
    \<open>Playground_Run\<close>: one consumer's failure, or a signal, ends the command.
  \<^item> \<open>Retry_Properties\<close> and \<open>Retry_Headers\<close>: a nil from \<open>HandleError\<close> means acknowledged records, the
    backoff's bounds, \<open>Initialize\<close>, and that headers survive the trip. \<open>Retry_Journey\<close>: the number of runs a
    failing message gets, over the turns of the consumers it passes through (relation \<open>journey\<close>); the
    playground's script is followed along the same journeys.
    \<open>Strategy_Sharing\<close>: a strategy has one owner at a time.

  \<^bold>\<open>Bounds and fuel.\<close> Poll loops and the drain loop of \<open>Close\<close> take fuel and return \<open>None\<close> when it runs
  out. \<open>start_returns\<close> and \<open>close_returns\<close> show that enough fuel gives a result: for the poll loops one
  more than the polls left before the context ends, for the drain one more than the flushes left
  before its context ends. Safety statements hold for every fuel. Liveness
  statements are over infinite runs that may stutter, with weak fairness for the actions they name;
  that \<open>Close\<close> and \<open>Start\<close> do come to an end by themselves is \<open>close_returns\<close> and \<open>start_returns\<close>. Integers are \<open>int\<close> with \<open>wrap64\<close>
  written out where Go could wrap; sizes that Go's allocator bounds are not.

  \<^bold>\<open>Parameters.\<close> The client library (\<open>kfk_producer\<close>, \<open>kfk_consumer\<close>, \<open>SetKey\<close>, the constructors), handlers,
  codecs, clocks, contexts, float arithmetic and the order in which Go ranges over a map are arguments.
  What is assumed of them is a named hypothesis of the statement that needs it (\<open>SetKey_stores\<close>,
  \<open>float_ops_ok\<close>, \<open>nan_ops_ok\<close>, \<open>env_advances\<close>, \<open>flush_advances\<close>), shown to hold of a concrete instance by its witness.
  In the retry strategy \<open>settled i\<close> is delivery \<open>i\<close> as the report goroutine leaves it, which is what a
  wait without a deadline returns. A record written to a topic is consumed with the key, value and headers
  it was produced with, at a position and time the broker chooses (\<open>consumed_at\<close>).

  \<^bold>\<open>Not modelled.\<close> Log lines are kept as level and code, without their text and fields. A logger is known
  by a number, and so is a producer or consumer factory (the options' testing seams), whose meaning is an
  argument. Of a lock, who holds it and that a waiting writer keeps new readers out is modelled, not its
  queue; \<open>topicsMu\<close> and the subscribe driver's \<open>mu\<close> guard single reads and writes and are left out. Of the
  calls of \<open>Close\<close> on one publisher the system has the one that gets the lock; the others only wait for it.
  The client library's buffers are unbounded. The subscriber runs on the goroutine that called \<open>Start\<close>. Message payloads and headers are values: a handler that writes into
  the slice or the map it was given is outside the model. The type aliases and the re-exported option
  constructors of \<open>subscribe/handler.go\<close> and \<open>strategy.go\<close> have no behaviour. Of the playground, the \<open>flag\<close>
  package's reading of the command line and the text of the printed lines are left out. Tests
  and their helpers are not part of the library.
\<close>

section \<open>Definitions of the statements\<close>

fun succeeded_of :: "trace_event list \<Rightarrow> message list" where
  "succeeded_of [] = []"
| "succeeded_of (TSucceeded ms # es) = ms @ succeeded_of es"
| "succeeded_of (_ # es) = succeeded_of es"

fun dropped_of :: "trace_event list \<Rightarrow> message list" where
  "dropped_of [] = []"
| "dropped_of (TDropped ms # es) = ms @ dropped_of es"
| "dropped_of (_ # es) = dropped_of es"

text \<open>
  A small platform: a client library that delivers a script of events, one per poll, until the
  context ends with it, and a producer that takes every record and has it acknowledged.
\<close>

record wit_client =
  events :: "kfk_event list"
  positions :: "(string \<times> int \<times> int) list"

definition wit_kfk :: "wit_client kfk_consumer" where
  "wit_kfk =
     \<lparr>kc_SubscribeTopics = \<lambda>ts k. (None, k),
      kc_Poll = \<lambda>t k. (case events k of [] \<Rightarrow> (([], None), k) | e # es \<Rightarrow> (([], Some e), k\<lparr>events := es\<rparr>)),
      kc_Assign = \<lambda>ps k. (None, k), kc_Unassign = \<lambda>k. (None, k),
      kc_StoreOffsets = \<lambda>os k. ((map (\<lambda>(t, p, off). (t, p, None)) os, None), k\<lparr>positions := positions k @ os\<rparr>),
      kc_Commit = \<lambda>k. (Inr 0, k), kc_Close = \<lambda>k. (([], None), k)\<rparr>"

definition wit_event :: "int \<Rightarrow> kfk_event" where
  "wit_event off = KMessage \<lparr>kmTopic = Some ''orders'', kmPartition = 0, kmOffset = off, kmError = None,
     kmKey = None, kmValue = Some ''x'', kmHeaders = [], kmTimestamp = 0, kmOpaque = ForeignToken ''''\<rparr>"

definition wit_platform :: "(wit_client, nat, unit) platform" where
  "wit_platform =
     \<lparr>pl_client = wit_kfk, pl_newClient = \<lambda>m. Inr \<lparr>events = [wit_event 7, wit_event 8], positions = []\<rparr>,
      pl_SetKey = plain_SetKey, pl_newProducer = \<lambda>fac dc. Inr 0, pl_produce = \<lambda>r tok p. (None, p),
      pl_producer = idle_ops 0, pl_closeCtx = \<lambda>d. countdown, pl_closeFuel = 3, pl_conv = \<lambda>_. 0,
      pl_floats = exact_ops, pl_ticks = \<lambda>x. wit_tick, pl_settled = wit_settled None,
      pl_Done = \<lambda>w. (case kafkaConsumer (w_driver w) of None \<Rightarrow> True | Some k \<Rightarrow> events k = []),
      pl_Now = \<lambda>x. (0, x), pl_order = \<lambda>m. m\<rparr>"

definition wit_subscription :: "(wit_client, nat, unit) world sconfig" where
  "wit_subscription =
     stack_config wit_platform (Some (\<lambda>msg pl x. (HPanic ''boom'', x))) None
       (zero_config\<lparr>STopic := ''orders'', SBrokers := [''b:9092''], ConsumerGroup := ''g'',
          Mode := ModeSingleMessage, PollTimeout := 100 * Millisecond, SKafkaConfig := Some [],
          SNewConsumer := Some default_factory\<rparr>)"

definition wit_world :: "(wit_client, nat, unit) world" where
  "wit_world =
     \<lparr>w_driver = \<lparr>kafkaConsumer = None, cconfig = [], cbrokers = [], ctopic = [], cgroupID = [], klogger = Nop,
        autoCommit = False, brokerConnected = False, onRevoke = False, clog = []\<rparr>,
      w_retry = wit_retry\<lparr>rpublisher := None, retryWriter := None, dlqWriter := None, inUse := False\<rparr>,
      w_producer = 0, w_rest = ()\<rparr>"

fun event_kind :: "trace_event \<Rightarrow> nat + string \<times> int \<times> int" where
  "event_kind (TPolled m) = Inl 0"
| "event_kind (TSucceeded ms) = Inl 1"
| "event_kind (TResolved ms f) = Inl 2"
| "event_kind (TDropped ms) = Inl 3"
| "event_kind (TStore t p off e) = Inr (t, p, off)"

section \<open>Lemmas\<close>

lemma accounted_split:
  "m \<in> set (accounted_of es) \<longleftrightarrow>
     m \<in> set (succeeded_of es) \<or> m \<in> set (dropped_of es)
     \<or> (\<exists>ms f. TResolved ms f \<in> set es \<and> m \<in> set ms)"
proof (induction es)
  case Nil
  then show ?case by simp
next
  case (Cons e es)
  then show ?case by (cases e) auto
qed

lemma NewRetryStrategy_ready: "NewRetryStrategy opts = Inr r \<Longrightarrow> retry_ready (r, w)"
  by (auto simp: NewRetryStrategy_def retry_ready_def split: sum.splits if_splits)

section \<open>Properties\<close>

text \<open>
  C1: no message is lost across the whole stack: the subscriber on its driver, with the retry
  strategy and the strategy's publisher. Whenever an offset is stored, every message polled until
  then was handled successfully, was dropped because its partition was revoked, or lives on: when
  \<open>Start\<close> has returned, the publisher holds a record with the message's key and payload, bound for
  the retry or the DLQ topic, that the broker acknowledged.
\<close>

theorem no_message_lost:
  assumes "Start fuel (stack_env P) (stack_newConsumer P) (stack_config P h bh c) new_subscriber w
      = Some (err, s', w')"
    and "sconfig_ready (stack_config P h bh c)" and "NewRetryStrategy opts = Inr (w_retry w)"
    and "trace s' = pre @ TStore topic part offset serr # post" and "m \<in> set (polled_of pre)"
  shows "m \<in> set (succeeded_of pre) \<or> m \<in> set (dropped_of pre)
    \<or> (\<exists>p i. rpublisher (w_retry w') = Some p \<and> i < length (deliveries p)
         \<and> RKey (d_record (deliveries p ! i)) = Key m \<and> RValue (d_record (deliveries p ! i)) = Payload m
         \<and> RTopic (d_record (deliveries p ! i))
             \<in> {RetryTopic (rconfig (w_retry w')), DLQTopic (rconfig (w_retry w'))}
         \<and> d_err (pl_settled P i) = None)"
proof -
  have "stack_ready w" using NewRetryStrategy_ready [OF assms(3)] by (simp add: stack_ready_def)
  note resolved = stack.Start_resolved [OF assms(1,2) this]
  have "mset (polled_of pre) = mset (accounted_of pre)"
    using Start_safe [OF assms(1,2)] assms(4) unfolding stores_safe_def balanced_def
    by (metis is_store.simps(1))
  with assms(5) have "m \<in> set (accounted_of pre)" by (metis set_mset_mset)
  then consider "m \<in> set (succeeded_of pre)" | "m \<in> set (dropped_of pre)"
    | ms f where "TResolved ms f \<in> set (trace s')" "m \<in> set ms"
    using assms(4) unfolding accounted_split by auto
  then show ?thesis
  proof cases
    case (3 ms f)
    from resolved [OF this] show ?thesis
      by (auto simp: stack_resolved_def retry_resolved_def Let_def split: option.splits)
  qed simp_all
qed

theorem no_message_lost_witness:
  "\<exists>err s' w' pre serr post m p i.
     Start 9 (stack_env wit_platform) (stack_newConsumer wit_platform) wit_subscription new_subscriber wit_world
       = Some (err, s', w')
     \<and> trace s' = pre @ TStore ''orders'' 0 7 serr # post \<and> m \<in> set (polled_of pre)
     \<and> rpublisher (w_retry w') = Some p \<and> i < length (deliveries p)
     \<and> RValue (d_record (deliveries p ! i)) = Payload m \<and> d_err (pl_settled wit_platform i) = None"
proof -
  let ?st = "Start 9 (stack_env wit_platform) (stack_newConsumer wit_platform) wit_subscription
       new_subscriber wit_world"
  define tr where "tr = trace (fst (snd (the ?st)))"
  have "?st \<noteq> None" by code_simp
  then obtain err s' w' where st: "?st = Some (err, s', w')" by (metis not_None_eq prod_cases3)
  then have tr: "trace s' = tr" by (simp add: tr_def)
  have "map event_kind tr = [Inl 0, Inl 2, Inr (''orders'', 0, 7), Inl 0, Inl 2, Inr (''orders'', 0, 8)]"
    unfolding tr_def by code_simp
  then obtain e1 e2 e3 rest where es: "tr = e1 # e2 # e3 # rest"
    "event_kind e1 = Inl 0" "event_kind e2 = Inl 2" "event_kind e3 = Inr (''orders'', 0, 7)"
    by (auto simp: Cons_eq_map_conv [symmetric] map_eq_Cons_conv)
  then obtain m ms f serr where e: "e1 = TPolled m" "e2 = TResolved ms f" "e3 = TStore ''orders'' 0 7 serr"
    by (cases e1; cases e2; cases e3) simp_all
  from es(1) e tr have split: "trace s' = [TPolled m, TResolved ms f] @ TStore ''orders'' 0 7 serr # rest" by simp
  have new: "NewRetryStrategy [WithRetryTopic ''orders.retry'', WithDLQTopic ''orders.dlq''] = Inr (w_retry wit_world)"
    by (simp add: NewRetryStrategy_def WithRetryTopic_def WithDLQTopic_def default_retry_config_def
        wit_world_def wit_retry_def wit_config_def)
  have "sconfig_ready wit_subscription" by (simp add: wit_subscription_def sconfig_ready_def stack_config_def)
  from no_message_lost [OF st [unfolded wit_subscription_def] this [unfolded wit_subscription_def] new split, of m]
  obtain p i where "rpublisher (w_retry w') = Some p" "i < length (deliveries p)"
    "RValue (d_record (deliveries p ! i)) = Payload m" "d_err (pl_settled wit_platform i) = None" by auto
  moreover have "m \<in> set (polled_of [TPolled m, TResolved ms f])" by simp
  ultimately show ?thesis using st split by blast
qed

end
